(* ===== verification/Go_Prelude.thy ===== *)
theory Go_Prelude
  imports Main "HOL-Library.Word"
begin

text \<open>
  What the components share: the types of the wire data, the outcomes of a Go call, the parts of
  the Go language and of \<^verbatim>\<open>encoding/binary\<close>, \<^verbatim>\<open>copy\<close>, \<^verbatim>\<open>append\<close> and slicing that the sources use,
  and the lemmas on byte lists, big-endian numbers and words that the component proofs need.

  A Go byte slice or string is a list of bytes.  A call that may fail has a value of type
  \<^verbatim>\<open>res\<close>: the value, the error it returns, or a run-time panic.
\<close>

unbundle bit_operations_syntax

section \<open>Types\<close>

type_synonym byte = "8 word"
type_synonym bytes = "8 word list"
type_synonym u16 = "16 word"
type_synonym u32 = "32 word"
type_synonym u64 = "64 word"

datatype ('e, 'a) res = Ok 'a | Err 'e | Panic

named_theorems wire_simps \<open>lengths and inverses of encoders\<close>
named_theorems step_intros \<open>preservation of a state invariant by an operation\<close>

section \<open>The Go language and its standard library\<close>

text \<open>The bytes of an ASCII string literal.\<close>

definition ascii :: "string \<Rightarrow> bytes" where
  "ascii s = map of_char s"

text \<open>\<^verbatim>\<open>copy(dst, src)\<close> overwrites the common prefix.\<close>

definition go_copy :: "'a list \<Rightarrow> 'a list \<Rightarrow> 'a list" where
  "go_copy dst src = take (length dst) src @ drop (length src) dst"

text \<open>\<^verbatim>\<open>copy(dst[off:], src)\<close>.\<close>

definition go_copy_at :: "nat \<Rightarrow> 'a list \<Rightarrow> 'a list \<Rightarrow> 'a list" where
  "go_copy_at off dst src = take off dst @ go_copy (drop off dst) src"

text \<open>\<^verbatim>\<open>xs[lo:hi]\<close>, which panics out of range (the capacity is taken to be the length).\<close>

definition go_slice :: "'a list \<Rightarrow> nat \<Rightarrow> nat \<Rightarrow> 'a list option" where
  "go_slice xs lo hi = (if lo \<le> hi \<and> hi \<le> length xs then Some (take (hi - lo) (drop lo xs)) else None)"

text \<open>Unsigned big-endian numbers: \<^verbatim>\<open>be_nat\<close> reads a byte string, \<^verbatim>\<open>be_bytes k\<close> writes the low
  \<^verbatim>\<open>k\<close> bytes of a number (\<^verbatim>\<open>binary.BigEndian\<close>, \<^verbatim>\<open>big.Int\<close>).\<close>

definition be_nat :: "bytes \<Rightarrow> nat" where
  "be_nat bs = foldl (\<lambda>n b. n * 256 + unat b) 0 bs"

fun be_bytes :: "nat \<Rightarrow> nat \<Rightarrow> bytes" where
  "be_bytes 0 n = []"
| "be_bytes (Suc k) n = be_bytes k (n div 256) @ [of_nat n]"

definition put_u16 :: "u16 \<Rightarrow> bytes" where
  "put_u16 w = be_bytes 2 (unat w)"

definition get_u16 :: "bytes \<Rightarrow> u16" where
  "get_u16 bs = of_nat (be_nat (take 2 bs))"

definition put_u64 :: "u64 \<Rightarrow> bytes" where
  "put_u64 w = be_bytes 8 (unat w)"

definition get_u64 :: "bytes \<Rightarrow> u64" where
  "get_u64 bs = of_nat (be_nat (take 8 bs))"

text \<open>\<^verbatim>\<open>io.ReadFull\<close> of \<^verbatim>\<open>n\<close> bytes from the bytes still to be read.\<close>

definition read_full :: "nat \<Rightarrow> bytes \<Rightarrow> (bytes \<times> bytes) option" where
  "read_full n inp = (if n \<le> length inp then Some (take n inp, drop n inp) else None)"

text \<open>Decimal and lower-case hexadecimal printing (\<^verbatim>\<open>%d\<close>, \<^verbatim>\<open>strconv.Itoa\<close>, \<^verbatim>\<open>hex.EncodeToString\<close>).\<close>

fun show_nat :: "nat \<Rightarrow> string" where
  "show_nat n =
    (if n < 10 then [char_of (48 + n)] else show_nat (n div 10) @ [char_of (48 + n mod 10)])"

declare show_nat.simps [simp del]

definition show_int :: "int \<Rightarrow> string" where
  "show_int i = (if i < 0 then CHR ''-'' # show_nat (nat (- i)) else show_nat (nat i))"

definition hex_digit :: "nat \<Rightarrow> char" where
  "hex_digit n = (if n < 10 then char_of (48 + n) else char_of (87 + n))"

definition hex_encode :: "bytes \<Rightarrow> string" where
  "hex_encode bs = concat (map (\<lambda>b. [hex_digit (unat b div 16), hex_digit (unat b mod 16)]) bs)"

text \<open>\<^verbatim>\<open>hex.DecodeString\<close>: None is its error, for an odd length or a character that is no hex digit.\<close>

definition hex_value :: "char \<Rightarrow> nat option" where
  "hex_value c =
    (let n = of_char c :: nat in
     if 48 \<le> n \<and> n \<le> 57 then Some (n - 48)
     else if 97 \<le> n \<and> n \<le> 102 then Some (n - 87)
     else if 65 \<le> n \<and> n \<le> 70 then Some (n - 55)
     else None)"

fun hex_decode :: "string \<Rightarrow> bytes option" where
  "hex_decode [] = Some []"
| "hex_decode [c] = None"
| "hex_decode (c # d # s) =
    (case (hex_value c, hex_value d, hex_decode s) of
       (Some a, Some b, Some bs) \<Rightarrow> Some (of_nat (a * 16 + b) # bs)
     | _ \<Rightarrow> None)"

section \<open>Byte lists\<close>

lemma unat_less_pow: "unat (w :: 'a::len word) < 2 ^ LENGTH('a)"
  by (rule unsigned_less)

lemma unat_byte_less [simp]: "unat (b :: byte) < 256"
  using unat_less_pow [of b] by simp

lemma length_ascii [simp]: "length (ascii s) = length s"
  by (simp add: ascii_def)

lemma go_copy_length [simp]: "length (go_copy dst src) = length dst"
  by (simp add: go_copy_def)

lemma go_copy_all [simp]: "length src = length dst \<Longrightarrow> go_copy dst src = src"
  by (simp add: go_copy_def)

lemma go_copy_at_length [simp]: "length (go_copy_at off dst src) = length dst"
  by (simp add: go_copy_at_def)

lemma hex_value_digit: "n < 16 \<Longrightarrow> hex_value (hex_digit n) = Some n"
  by (auto simp: hex_value_def hex_digit_def Let_def)

lemma hex_decode_encode [simp, wire_simps]: "hex_decode (hex_encode bs) = Some bs"
proof (induction bs)
  case (Cons b bs)
  have "hex_value (hex_digit (unat b div 16)) = Some (unat b div 16)"
    "hex_value (hex_digit (unat b mod 16)) = Some (unat b mod 16)"
    using less_mult_imp_div_less [of "unat b" 16 16] by (auto intro!: hex_value_digit)
  then show ?case using Cons by (simp add: hex_encode_def)
qed (simp add: hex_encode_def)

lemma go_slice_Some_iff:
  "go_slice xs lo hi = Some ys \<longleftrightarrow> lo \<le> hi \<and> hi \<le> length xs \<and> ys = take (hi - lo) (drop lo xs)"
  by (auto simp: go_slice_def)

lemma read_full_append [simp]: "length a = n \<Longrightarrow> read_full n (a @ rest) = Some (a, rest)"
  by (auto simp: read_full_def)

lemma read_full_SomeD:
  "read_full n inp = Some (a, rest) \<Longrightarrow> inp = a @ rest \<and> length a = n"
  by (auto simp: read_full_def split: if_splits)

lemma read_full_None_iff: "read_full n inp = None \<longleftrightarrow> length inp < n"
  by (simp add: read_full_def)

section \<open>Big-endian numbers\<close>

lemma be_nat_Nil [simp]: "be_nat [] = 0"
  by (simp add: be_nat_def)

lemma be_nat_snoc [simp]: "be_nat (bs @ [b]) = be_nat bs * 256 + unat b"
  by (simp add: be_nat_def)

lemma be_nat_append: "be_nat (as @ bs) = be_nat as * 256 ^ length bs + be_nat bs"
proof (induction bs rule: rev_induct)
  case (snoc b bs)
  have "be_nat (as @ bs @ [b]) = be_nat (as @ bs) * 256 + unat b"
    using be_nat_snoc [of "as @ bs" b] by simp
  then show ?case using snoc by (simp add: algebra_simps)
qed simp

lemma be_nat_Cons: "be_nat (b # bs) = unat b * 256 ^ length bs + be_nat bs"
  using be_nat_append [of "[b]" bs] by (simp add: be_nat_def)

lemma be_nat_less: "be_nat bs < 256 ^ length bs"
proof (induction bs rule: rev_induct)
  case (snoc b bs)
  have "be_nat bs * 256 + unat b < (be_nat bs + 1) * 256" by simp
  also have "\<dots> \<le> 256 ^ length bs * 256" using snoc by (intro mult_le_mono1) simp
  finally show ?case by (simp add: mult.commute)
qed simp

lemma length_be_bytes [simp, wire_simps]: "length (be_bytes k n) = k"
  by (induction k arbitrary: n) auto

lemma be_nat_be_bytes [simp, wire_simps]: "be_nat (be_bytes k n) = n mod 256 ^ k"
proof (induction k arbitrary: n)
  case (Suc k)
  have "be_nat (be_bytes (Suc k) n) = (n div 256 mod 256 ^ k) * 256 + n mod 256"
    using Suc by (simp add: unat_of_nat)
  also have "\<dots> = n mod (256 * 256 ^ k)" by (simp add: mod_mult2_eq mult.commute)
  finally show ?case by simp
qed simp

lemma be_bytes_be_nat [simp, wire_simps]: "be_bytes (length bs) (be_nat bs) = bs"
proof (induction bs rule: rev_induct)
  case (snoc b bs)
  have "(be_nat bs * 256 + unat b) div 256 = be_nat bs" by simp
  moreover have "(of_nat (be_nat bs * 256 + unat b) :: byte) = b"
  proof -
    have "(256 :: byte) = 0" by simp
    then show ?thesis by (simp only: of_nat_add of_nat_mult of_nat_numeral mult_zero_right) simp
  qed
  ultimately show ?case using snoc by simp
qed simp

lemma be_bytes_inverse: "length bs = k \<Longrightarrow> be_bytes k (be_nat bs) = bs"
  using be_bytes_be_nat [of bs] by simp

lemma be_nat_inject: "length as = length bs \<Longrightarrow> be_nat as = be_nat bs \<Longrightarrow> as = bs"
  by (metis be_bytes_be_nat)

lemma length_put_u16 [simp, wire_simps]: "length (put_u16 w) = 2"
  by (simp add: put_u16_def)

lemma length_put_u64 [simp, wire_simps]: "length (put_u64 w) = 8"
  by (simp add: put_u64_def)

lemma get_put_u16 [simp, wire_simps]: "get_u16 (put_u16 w @ rest) = w"
  using unat_less_pow [of w] by (simp add: get_u16_def put_u16_def)

lemma get_put_u16' [simp, wire_simps]: "get_u16 (put_u16 w) = w"
  using get_put_u16 [of w "[]"] by simp

lemma get_put_u64 [simp, wire_simps]: "get_u64 (put_u64 w @ rest) = w"
  using unat_less_pow [of w] by (simp add: get_u64_def put_u64_def)

lemma get_put_u64' [simp, wire_simps]: "get_u64 (put_u64 w) = w"
  using get_put_u64 [of w "[]"] by simp

lemma put_get_u64: "length bs = 8 \<Longrightarrow> put_u64 (get_u64 bs) = bs"
  using be_nat_less [of bs] be_bytes_inverse [of bs 8]
  by (simp add: put_u64_def get_u64_def unat_of_nat)

lemma put_get_u16: "length bs = 2 \<Longrightarrow> put_u16 (get_u16 bs) = bs"
  using be_nat_less [of bs] be_bytes_inverse [of bs 2]
  by (simp add: put_u16_def get_u16_def unat_of_nat)

section \<open>The contract of a self-delimiting encoding\<close>

text \<open>An encoder and a decoder that stops where the encoding ends.  The law is the one every
  reader of a byte stream relies on: decoding an encoding followed by any bytes gives the value
  and leaves those bytes.  From it follow injectivity and the decoding of a sequence.\<close>

locale prefix_codec =
  fixes enc :: "'a \<Rightarrow> bytes"
    and dec :: "bytes \<Rightarrow> ('a \<times> bytes) option"
    and wf :: "'a \<Rightarrow> bool"
  assumes dec_enc: "wf x \<Longrightarrow> dec (enc x @ rest) = Some (x, rest)"
begin

lemma enc_prefix_free:
  assumes "wf x" "wf y" "enc x @ r = enc y @ s"
  shows "x = y \<and> r = s"
proof -
  have "Some (x, r) = dec (enc x @ r)" using dec_enc [OF assms(1)] by metis
  also have "\<dots> = dec (enc y @ s)" by (simp only: assms(3))
  also have "\<dots> = Some (y, s)" by (rule dec_enc [OF assms(2)])
  finally show ?thesis by simp
qed

lemma enc_inj: "wf x \<Longrightarrow> wf y \<Longrightarrow> enc x = enc y \<Longrightarrow> x = y"
  using enc_prefix_free [of x y "[]" "[]"] by blast

lemma enc_concat_inj:
  assumes "length xs = length ys" "list_all wf xs" "list_all wf ys"
    and "concat (map enc xs) = concat (map enc ys)"
  shows "xs = ys"
  using assms
proof (induction xs ys rule: list_induct2)
  case (Cons x xs y ys)
  have "enc x @ concat (map enc xs) = enc y @ concat (map enc ys)" using Cons.prems(3) by simp
  then have "x = y \<and> concat (map enc xs) = concat (map enc ys)"
    using enc_prefix_free Cons.prems(1,2) by (metis list.pred_inject(2))
  then show ?case using Cons by simp
qed simp

end

interpretation u16_codec: prefix_codec put_u16
  "\<lambda>inp. map_option (\<lambda>(h, r). (get_u16 h, r)) (read_full 2 inp)" "\<lambda>_. True"
  by unfold_locales simp

interpretation u64_codec: prefix_codec put_u64
  "\<lambda>inp. map_option (\<lambda>(h, r). (get_u64 h, r)) (read_full 8 inp)" "\<lambda>_. True"
  by unfold_locales simp

end
