(* ===== verification/Varint.thy ===== *)
theory Varint
  imports Go_Prelude
begin

text \<open>
  Unsigned varints: \<^verbatim>\<open>relayhub/varint.go\<close> on top of \<^verbatim>\<open>encoding/binary\<close>, and the hand-written
  \<^verbatim>\<open>protoVarint\<close> of \<^verbatim>\<open>fedkey/keyring.go\<close>.  The decoder keeps Go's two checks: at most ten bytes,
  and a tenth byte of at most one.
\<close>

section \<open>encoding/binary\<close>

lemma unat_drop7: "unat (drop_bit 7 (x :: u64)) = unat x div 128"
proof -
  have "unat (drop_bit 7 x) = drop_bit 7 (unat x)" by (rule unat_drop_bit_eq)
  then show ?thesis by (simp add: drop_bit_eq_div)
qed

lemma unat_drop7_less: "0x80 \<le> (x :: u64) \<Longrightarrow> unat (drop_bit 7 x) < unat x"
  by (simp only: unat_drop7) (simp add: word_le_nat_alt)

text \<open>\<^verbatim>\<open>binary.PutUvarint\<close>: the bytes it writes.\<close>

function PutUvarint :: "u64 \<Rightarrow> bytes" where
  "PutUvarint x =
    (if 0x80 \<le> x then (ucast x OR 0x80) # PutUvarint (drop_bit 7 x) else [ucast x])"
  by auto
termination
  by (relation "measure unat") (simp_all only: in_measure unat_drop7_less wf_measure)

declare PutUvarint.simps [simp del]

text \<open>\<^verbatim>\<open>binary.Uvarint\<close>: the value and the number of bytes read; a count of zero says that the buffer
  is too small, a negative one that the value overflows 64 bits.\<close>

fun Uvarint_loop :: "nat \<Rightarrow> u64 \<Rightarrow> nat \<Rightarrow> bytes \<Rightarrow> u64 \<times> int" where
  "Uvarint_loop i x s [] = (0, 0)"
| "Uvarint_loop i x s (b # buf) =
    (if i = 10 then (0, - (int i + 1))
     else if b < 0x80 then
       (if i = 9 \<and> 1 < b then (0, - (int i + 1)) else (x OR push_bit s (ucast b), int i + 1))
     else Uvarint_loop (i + 1) (x OR push_bit s (ucast (b AND 0x7f))) (s + 7) buf)"

definition Uvarint :: "bytes \<Rightarrow> u64 \<times> int" where
  "Uvarint buf = Uvarint_loop 0 0 0 buf"

datatype io_error = EOF | UnexpectedEOF | VarintOverflow

text \<open>\<^verbatim>\<open>io.ReadFull\<close> into a buffer of \<^verbatim>\<open>n\<close> bytes; a short stream is used up.\<close>

definition ReadFull :: "nat \<Rightarrow> bytes \<Rightarrow> (io_error, bytes) res \<times> bytes" where
  "ReadFull n inp = (case read_full n inp of
      Some (b, rest) \<Rightarrow> (Ok b, rest)
    | None \<Rightarrow> (Err (if inp = [] then EOF else UnexpectedEOF), []))"

lemma ReadFull_append [simp]: "length a = n \<Longrightarrow> ReadFull n (a @ rest) = (Ok a, rest)"
  by (simp add: ReadFull_def)

text \<open>\<^verbatim>\<open>byteReader.ReadByte\<close> delivers one byte of the stream, or the stream's error.\<close>

definition byteReader_ReadByte :: "bytes \<Rightarrow> (io_error, byte) res \<times> bytes" where
  "byteReader_ReadByte inp = (case inp of [] \<Rightarrow> (Err EOF, []) | b # rest \<Rightarrow> (Ok b, rest))"

text \<open>\<^verbatim>\<open>binary.ReadUvarint\<close> over the bytes a \<^verbatim>\<open>ByteReader\<close> still delivers: the result and what is left.\<close>

function ReadUvarint_loop :: "nat \<Rightarrow> u64 \<Rightarrow> nat \<Rightarrow> bytes \<Rightarrow> (io_error, u64) res \<times> bytes" where
  "ReadUvarint_loop i x s inp =
    (if 10 \<le> i then (Err VarintOverflow, inp)
     else case byteReader_ReadByte inp of
       (Ok b, rest) \<Rightarrow>
         if b < 0x80 then
           (if i = 9 \<and> 1 < b then (Err VarintOverflow, rest) else (Ok (x OR push_bit s (ucast b)), rest))
         else ReadUvarint_loop (i + 1) (x OR push_bit s (ucast (b AND 0x7f))) (s + 7) rest
     | (Err e, rest) \<Rightarrow> (Err (if 0 < i \<and> e = EOF then UnexpectedEOF else e), rest)
     | (Panic, rest) \<Rightarrow> (Panic, rest))"
  by pat_completeness auto
termination by (relation "measure (\<lambda>(i, _). 10 - i)") auto

declare ReadUvarint_loop.simps [simp del]

section \<open>varint.go and keyring.go\<close>

definition encodeVarint :: "u64 \<Rightarrow> bytes" where
  "encodeVarint v = (let buf = PutUvarint v; n = length buf in take n buf)"

definition decodeVarint :: "bytes \<Rightarrow> u64 \<times> int" where
  "decodeVarint b = Uvarint b"

definition readVarint :: "bytes \<Rightarrow> (io_error, u64) res \<times> bytes" where
  "readVarint r = ReadUvarint_loop 0 0 0 r"

function protoVarint_loop :: "u64 \<Rightarrow> bytes \<Rightarrow> bytes" where
  "protoVarint_loop v buf =
    (if 0x80 \<le> v then protoVarint_loop (drop_bit 7 v) (buf @ [ucast v OR 0x80])
     else buf @ [ucast v])"
  by auto
termination
  by (relation "measure (\<lambda>(v, _). unat v)")
    (simp_all only: in_measure prod.case unat_drop7_less wf_measure)

declare protoVarint_loop.simps [simp del]

definition protoVarint :: "u64 \<Rightarrow> bytes" where
  "protoVarint v = protoVarint_loop v []"

section \<open>One group of seven bits\<close>

lemma word_split7: "push_bit s (v AND 0x7f) OR push_bit (s + 7) (drop_bit 7 v) = push_bit s (v :: u64)"
proof (rule bit_word_eqI)
  fix n assume "n < LENGTH(64)"
  have m: "(0x7f :: u64) = mask 7" by (simp add: mask_eq_exp_minus_1)
  show "bit (push_bit s (v AND 0x7f) OR push_bit (s + 7) (drop_bit 7 v)) n = bit (push_bit s v) n"
    unfolding m by (cases "n < s + 7") (auto simp: bit_simps)
qed

lemma bit_0x80: "bit (0x80 :: int) n \<longleftrightarrow> n = 7"
proof -
  have "bit (2 ^ 7 :: int) n \<longleftrightarrow> n = 7" unfolding bit_exp_iff by auto
  then show ?thesis by simp
qed

lemma ucast_group: "(ucast (((ucast (v :: u64) :: byte) OR 0x80) AND 0x7f) :: u64) = v AND 0x7f"
proof (rule bit_word_eqI)
  fix n assume "n < LENGTH(64)"
  have m: "(0x7f :: u64) = mask 7" "(0x7f :: byte) = mask 7" by (simp_all add: mask_eq_exp_minus_1)
  show "bit (ucast (((ucast v :: byte) OR 0x80) AND 0x7f) :: u64) n = bit (v AND 0x7f) n"
    unfolding m by (auto simp: bit_simps bit_0x80)
qed

lemma ucast_small: "v < 0x80 \<Longrightarrow> (ucast (ucast (v :: u64) :: byte) :: u64) = v"
  by (simp add: word_less_nat_alt unsigned_ucast_eq unsigned_take_bit_eq take_bit_nat_eq_self
      word_unat_eq_iff)

lemma ucast_small_less: "v < 0x80 \<Longrightarrow> (ucast (v :: u64) :: byte) < 0x80"
  by (simp add: word_less_nat_alt unsigned_ucast_eq take_bit_nat_eq_self)

lemma continuation_not_less: "\<not> ((ucast (v :: u64) :: byte) OR 0x80) < 0x80"
proof -
  have "(0x80 :: byte) AND (ucast v OR 0x80) = 0x80" by (simp add: ac_simps)
  then have "(0x80 :: byte) \<le> ucast v OR 0x80" by (metis word_and_le1 and.commute)
  then show ?thesis by simp
qed

lemma drop7_less:
  assumes "unat (v :: u64) < 2 ^ (64 - 7 * i)" "0x80 \<le> v"
  shows "i < 9" "unat (drop_bit 7 v) < 2 ^ (64 - 7 * Suc i)"
proof -
  have v: "2 ^ 7 \<le> unat v" using assms(2) by (simp add: word_le_nat_alt)
  show i: "i < 9"
  proof (rule ccontr)
    assume "\<not> i < 9"
    then have "(2 :: nat) ^ (64 - 7 * i) \<le> 2 ^ 7" by (intro power_increasing) auto
    then show False using v assms(1) by simp
  qed
  then have "64 - 7 * i = 7 + (64 - 7 * Suc i)" by simp
  then have "unat v < 2 ^ 7 * 2 ^ (64 - 7 * Suc i)" using assms(1) by (simp only: power_add)
  then show "unat (drop_bit 7 v) < 2 ^ (64 - 7 * Suc i)"
    by (simp only: unat_drop7) (simp add: less_mult_imp_div_less mult.commute)
qed

section \<open>Round trips\<close>

lemma Uvarint_loop_PutUvarint:
  "unat v < 2 ^ (64 - 7 * i) \<Longrightarrow> i \<le> 9 \<Longrightarrow>
   Uvarint_loop i x (7 * i) (PutUvarint v @ rest) =
     (x OR push_bit (7 * i) v, int (i + length (PutUvarint v)))"
proof (induction v arbitrary: i x rule: PutUvarint.induct)
  case (1 v)
  show ?case
  proof (cases "0x80 \<le> v")
    case True
    note d = drop7_less [OF "1.prems"(1) True]
    have "Uvarint_loop i x (7 * i) (PutUvarint v @ rest) =
        Uvarint_loop (Suc i) (x OR push_bit (7 * i) (v AND 0x7f)) (7 * Suc i)
          (PutUvarint (drop_bit 7 v) @ rest)"
      using True d(1) continuation_not_less [of v]
      by (subst PutUvarint.simps) (simp add: ucast_group add.commute)
    also have "\<dots> = (x OR (push_bit (7 * i) (v AND 0x7f) OR push_bit (7 * i + 7) (drop_bit 7 v)),
        int (Suc i + length (PutUvarint (drop_bit 7 v))))"
      using "1.IH" [OF True d(2)] d(1) by (simp add: add.commute or.assoc)
    also have "\<dots> = (x OR push_bit (7 * i) v, int (i + length (PutUvarint v)))"
      using True word_split7 [of "7 * i" v]
      by (subst (2) PutUvarint.simps) (simp add: or.assoc)
    finally show ?thesis .
  next
    case False
    then have v: "v < 0x80" by simp
    have "i = 9 \<Longrightarrow> unat v < 2" using "1.prems"(1) by simp
    then have "\<not> (i = 9 \<and> 1 < (ucast v :: byte))"
      using v by (auto simp: word_less_nat_alt unsigned_ucast_eq take_bit_nat_eq_self)
    then show ?thesis
      using v ucast_small_less [OF v] ucast_small [OF v] "1.prems"(2)
      by (subst (1 2) PutUvarint.simps) auto
  qed
qed

lemma decodeVarint_encodeVarint [simp, wire_simps]:
  "decodeVarint (encodeVarint v @ rest) = (v, int (length (encodeVarint v)))"
  using Uvarint_loop_PutUvarint [of v 0 0 rest] unat_less_pow [of v]
  by (simp add: decodeVarint_def encodeVarint_def Uvarint_def)

lemma PutUvarint_length:
  "unat v < 2 ^ (64 - 7 * i) \<Longrightarrow> i \<le> 9 \<Longrightarrow>
   0 < length (PutUvarint v) \<and> i + length (PutUvarint v) \<le> 10"
proof (induction v arbitrary: i rule: PutUvarint.induct)
  case (1 v)
  show ?case
  proof (cases "0x80 \<le> v")
    case True
    note d = drop7_less [OF "1.prems"(1) True]
    show ?thesis using "1.IH" [OF True d(2)] d(1) True by (subst (1 2) PutUvarint.simps) simp
  qed (use "1.prems"(2) in \<open>subst (1 2) PutUvarint.simps, simp\<close>)
qed

lemma encodeVarint_length: "0 < length (encodeVarint v)" "length (encodeVarint v) \<le> 10"
  using PutUvarint_length [of v 0] unat_less_pow [of v] by (simp_all add: encodeVarint_def)

lemma encodeVarint_nonempty [simp]: "encodeVarint v \<noteq> []"
  using encodeVarint_length(1) [of v] by auto

lemma encodeVarint_small: "v < 0x80 \<Longrightarrow> encodeVarint v = [ucast v]"
  by (simp add: encodeVarint_def PutUvarint.simps)

text \<open>The stream reader and the buffer reader agree.\<close>

lemma ReadUvarint_loop_eq:
  "i \<le> 10 \<Longrightarrow> Uvarint_loop i x s buf = (v, n) \<Longrightarrow> 0 < n \<Longrightarrow>
   ReadUvarint_loop i x s buf = (Ok v, drop (nat n - i) buf) \<and> int i < n"
proof (induction i x s buf rule: Uvarint_loop.induct)
  case (2 i x s b buf)
  have i: "i < 10" using "2.prems" by (auto split: if_splits)
  show ?case
  proof (cases "b < 0x80")
    case True
    then show ?thesis using "2.prems" i
      by (auto simp: ReadUvarint_loop.simps [of i] byteReader_ReadByte_def nat_add_distrib split: if_splits)
  next
    case False
    then have "Uvarint_loop (i + 1) (x OR push_bit s (ucast (b AND 0x7f))) (s + 7) buf = (v, n)"
      using "2.prems" i by simp
    from "2.IH" [OF _ False _ this "2.prems"(3)] i
    have ih: "ReadUvarint_loop (i + 1) (x OR push_bit s (ucast (b AND 0x7f))) (s + 7) buf =
        (Ok v, drop (nat n - (i + 1)) buf)" and n: "int (i + 1) < n" by auto
    then have "nat n - i = Suc (nat n - (i + 1))" by linarith
    then show ?thesis using ih n False i by (simp add: ReadUvarint_loop.simps [of i] byteReader_ReadByte_def)
  qed
qed simp

lemma readVarint_encodeVarint [simp, wire_simps]:
  "readVarint (encodeVarint v @ rest) = (Ok v, rest)"
  using ReadUvarint_loop_eq [of 0 0 0 "encodeVarint v @ rest" v "int (length (encodeVarint v))"]
    decodeVarint_encodeVarint [of v rest]
  by (simp add: readVarint_def decodeVarint_def Uvarint_def)

interpretation varint_codec: prefix_codec encodeVarint
  "\<lambda>inp. case readVarint inp of (Ok v, rest) \<Rightarrow> Some (v, rest) | _ \<Rightarrow> None" "\<lambda>_. True"
  by unfold_locales simp

lemma protoVarint_loop_eq: "protoVarint_loop v buf = buf @ PutUvarint v"
proof (induction v buf rule: protoVarint_loop.induct)
  case (1 v buf)
  then show ?case
    by (subst protoVarint_loop.simps, subst PutUvarint.simps) simp
qed

text \<open>What a successful read says of its input.\<close>

lemma Uvarint_loop_bounds:
  "Uvarint_loop i x s buf = (v, n) \<Longrightarrow> 0 < n \<Longrightarrow> i \<le> 10 \<Longrightarrow>
   int i < n \<and> n \<le> 10 \<and> n \<le> int i + int (length buf)"
proof (induction i x s buf rule: Uvarint_loop.induct)
  case (2 i x s b buf)
  have i: "i < 10" using "2.prems" by (auto split: if_splits)
  show ?case
  proof (cases "b < 0x80")
    case False
    with "2.prems" i have "Uvarint_loop (i + 1) (x OR push_bit s (ucast (b AND 0x7f))) (s + 7) buf = (v, n)"
      by simp
    from "2.IH" [OF _ False this "2.prems"(2)] i show ?thesis by auto
  qed (use "2.prems" i in \<open>auto split: if_splits\<close>)
qed simp

lemma decodeVarint_bounds:
  "decodeVarint buf = (v, n) \<Longrightarrow> 0 < n \<Longrightarrow> n \<le> 10 \<and> n \<le> int (length buf)"
  using Uvarint_loop_bounds [of 0 0 0 buf v n] by (simp add: decodeVarint_def Uvarint_def)

lemma protoVarint_eq: "protoVarint v = encodeVarint v"
  by (simp add: protoVarint_def encodeVarint_def protoVarint_loop_eq)

section \<open>Properties\<close>

text \<open>A varint is at most ten bytes long, and both readers, the one on a buffer and the one on a
  stream, give back the value that was written and stop behind its last byte, whatever follows.
  The two encoders of the program, the library call in the relay client and the hand-written loop in the key
  ring, write the same bytes.\<close>

theorem varint_roundtrip:
  "protoVarint v = encodeVarint v \<and>
   decodeVarint (encodeVarint v @ rest) = (v, int (length (encodeVarint v))) \<and>
   readVarint (encodeVarint v @ rest) = (Ok v, rest) \<and>
   1 \<le> length (encodeVarint v) \<and> length (encodeVarint v) \<le> 10"
  using encodeVarint_length [of v] protoVarint_eq [of v] by (simp add: Suc_le_eq)

end
