(* ===== verification/Protobuf.thy ===== *)
theory Protobuf
  imports Varint
begin

text \<open>
  The hand-written protobuf layer of \<^verbatim>\<open>relayhub/circuitpb.go\<close>: the field encoders, the decoder
  \<^verbatim>\<open>pbDecoder\<close> and the loop that every \<^verbatim>\<open>decode...\<close> function of \<^verbatim>\<open>circuitpb.go\<close> and \<^verbatim>\<open>circuitv1.go\<close>
  repeats.  The loop is written once, over a table that gives for each field number the wire type
  the function expects and what it does with the value.
\<close>

section \<open>Encoding\<close>

definition encodeTag :: "nat \<Rightarrow> nat \<Rightarrow> bytes" where
  "encodeTag field wireType = encodeVarint (push_bit 3 (of_nat field) OR of_nat wireType)"

definition pbEncodeVarintField :: "nat \<Rightarrow> u64 \<Rightarrow> bytes" where
  "pbEncodeVarintField field v = encodeTag field 0 @ encodeVarint v"

definition pbEncodeLengthDelimField :: "nat \<Rightarrow> bytes \<Rightarrow> bytes" where
  "pbEncodeLengthDelimField field data =
    encodeTag field 2 @ encodeVarint (of_nat (length data)) @ data"

primrec pbEncodeLengthDelimFields :: "nat \<Rightarrow> bytes list \<Rightarrow> bytes" where
  "pbEncodeLengthDelimFields field [] = []"
| "pbEncodeLengthDelimFields field (item # items) =
    (encodeTag field 2 @ encodeVarint (of_nat (length item)) @ item)
    @ pbEncodeLengthDelimFields field items"

section \<open>Decoding\<close>

datatype pb_error =
    WireType string nat
  | VarintFailed
  | BytesOverflow
  | TagEOF
  | Nested string pb_error

record pbDecoder =
  pb_data :: bytes
  pb_pos :: nat

definition newPbDecoder :: "bytes \<Rightarrow> pbDecoder" where
  "newPbDecoder data = \<lparr>pb_data = data, pb_pos = 0\<rparr>"

definition pb_remaining :: "pbDecoder \<Rightarrow> bytes" where
  "pb_remaining d = drop (pb_pos d) (pb_data d)"

definition pb_readVarint :: "pbDecoder \<Rightarrow> (pb_error, u64) res \<times> pbDecoder" where
  "pb_readVarint d = (case decodeVarint (drop (pb_pos d) (pb_data d)) of (v, n) \<Rightarrow>
    if n \<le> 0 then (Err VarintFailed, d) else (Ok v, d\<lparr>pb_pos := pb_pos d + nat n\<rparr>))"

text \<open>\<^verbatim>\<open>make([]byte, l)\<close> panics for a length the allocator cannot serve (2^48 on 64-bit targets).\<close>

definition max_alloc :: nat where
  "max_alloc = 2 ^ 48"

text \<open>The comparison \<^verbatim>\<open>d.pos+int(l) > len(d.data)\<close> is one of signed 64-bit numbers.\<close>

definition pb_readBytes :: "pbDecoder \<Rightarrow> (pb_error, bytes) res \<times> pbDecoder" where
  "pb_readBytes d = (case pb_readVarint d of
      (Ok l, d1) \<Rightarrow>
        if int (length (pb_data d1)) < sint (of_nat (pb_pos d1) + l) then (Err BytesOverflow, d1)
        else if max_alloc < unat l then (Panic, d1)
        else (Ok (go_copy (replicate (unat l) 0) (drop (pb_pos d1) (pb_data d1))),
              d1\<lparr>pb_pos := pb_pos d1 + unat l\<rparr>)
    | (Err e, d1) \<Rightarrow> (Err e, d1)
    | (Panic, d1) \<Rightarrow> (Panic, d1))"

definition pb_decodeTag :: "pbDecoder \<Rightarrow> (pb_error, nat \<times> nat) res \<times> pbDecoder" where
  "pb_decodeTag d =
    (if length (pb_data d) \<le> pb_pos d then (Err TagEOF, d)
     else case pb_readVarint d of
       (Ok v, d1) \<Rightarrow> (Ok (unat (drop_bit 3 v), unat (v AND 7)), d1)
     | (Err e, d1) \<Rightarrow> (Err e, d1)
     | (Panic, d1) \<Rightarrow> (Panic, d1))"

text \<open>A row of a decoder's table: the name in its wire-type error and what it does with the value.\<close>

datatype 'm pb_field =
    VarintF string "u64 \<Rightarrow> 'm \<Rightarrow> 'm"
  | BytesF string "bytes \<Rightarrow> 'm \<Rightarrow> (pb_error, 'm) res"

lemma pb_readVarint_pos:
  "pb_readVarint d = (r, d1) \<Longrightarrow> pb_data d1 = pb_data d \<and> pb_pos d \<le> pb_pos d1"
  by (auto simp: pb_readVarint_def split: prod.splits if_splits)

lemma pb_readVarint_Ok_pos: "pb_readVarint d = (Ok v, d1) \<Longrightarrow> pb_pos d < pb_pos d1"
  by (auto simp: pb_readVarint_def split: prod.splits if_splits)

lemma pb_readBytes_pos:
  "pb_readBytes d = (r, d1) \<Longrightarrow> pb_data d1 = pb_data d \<and> pb_pos d \<le> pb_pos d1"
  by (auto simp: pb_readBytes_def split: prod.splits if_splits res.splits dest!: pb_readVarint_pos)

lemma pb_decodeTag_pos:
  "pb_decodeTag d = (Ok t, d1) \<Longrightarrow> pb_data d1 = pb_data d \<and> pb_pos d < pb_pos d1"
  by (auto simp: pb_decodeTag_def split: prod.splits if_splits res.splits
      dest: pb_readVarint_pos pb_readVarint_Ok_pos)

text \<open>The loop of the \<^verbatim>\<open>decode...\<close> functions.  A tag that does not decode ends the loop and the message
  read so far is returned; the result of skipping an unknown field is ignored.\<close>

function pb_loop :: "(nat \<Rightarrow> 'm pb_field option) \<Rightarrow> pbDecoder \<Rightarrow> 'm \<Rightarrow> (pb_error, 'm) res" where
  "pb_loop sch d m =
    (if pb_pos d < length (pb_data d) then
       (case pb_decodeTag d of
          (Ok (field, wt), d1) \<Rightarrow>
            (case sch field of
               Some (VarintF nm f) \<Rightarrow>
                 if wt \<noteq> 0 then Err (WireType nm wt)
                 else (case pb_readVarint d1 of
                     (Ok v, d2) \<Rightarrow> pb_loop sch d2 (f v m)
                   | (Err e, d2) \<Rightarrow> Err e
                   | (Panic, d2) \<Rightarrow> Panic)
             | Some (BytesF nm f) \<Rightarrow>
                 if wt \<noteq> 2 then Err (WireType nm wt)
                 else (case pb_readBytes d1 of
                     (Ok b, d2) \<Rightarrow> (case f b m of Ok m1 \<Rightarrow> pb_loop sch d2 m1 | Err e \<Rightarrow> Err e | Panic \<Rightarrow> Panic)
                   | (Err e, d2) \<Rightarrow> Err e
                   | (Panic, d2) \<Rightarrow> Panic)
             | None \<Rightarrow>
                 if wt = 0 then (case pb_readVarint d1 of (r, d2) \<Rightarrow> pb_loop sch d2 m)
                 else if wt = 2 then
                   (case pb_readBytes d1 of
                      (Panic, d2) \<Rightarrow> Panic
                    | (Ok b, d2) \<Rightarrow> pb_loop sch d2 m
                    | (Err e, d2) \<Rightarrow> pb_loop sch d2 m)
                 else pb_loop sch d1 m)
        | (Err e, d1) \<Rightarrow> Ok m
        | (Panic, d1) \<Rightarrow> Panic)
     else Ok m)"
  by pat_completeness auto
termination
  by (relation "measure (\<lambda>(_, d, _). length (pb_data d) - pb_pos d)")
    (auto dest!: pb_decodeTag_pos [OF sym] pb_readVarint_pos [OF sym] pb_readBytes_pos [OF sym])

declare pb_loop.simps [simp del]

section \<open>Reading back what was written\<close>

abbreviation pb_at :: "bytes \<Rightarrow> bytes \<Rightarrow> pbDecoder" where
  "pb_at pre suf \<equiv> \<lparr>pb_data = pre @ suf, pb_pos = length pre\<rparr>"

lemma newPbDecoder_at: "newPbDecoder data = pb_at [] data"
  by (simp add: newPbDecoder_def)

lemma pb_readVarint_at:
  "pb_readVarint (pb_at pre (encodeVarint v @ suf)) = (Ok v, pb_at (pre @ encodeVarint v) suf)"
  using encodeVarint_length(1) [of v] by (simp add: pb_readVarint_def)

lemma sint_of_nat_small:
  assumes "n < 2 ^ 63"
  shows "sint (of_nat n :: u64) = int n"
  using assms by (simp add: signed_of_nat signed_take_bit_int_eq_self)

lemma pb_readBytes_at:
  assumes "length (pre @ encodeVarint (of_nat (length b)) @ b @ suf) \<le> max_alloc"
  shows "pb_readBytes (pb_at pre (encodeVarint (of_nat (length b)) @ b @ suf)) =
    (Ok b, pb_at (pre @ encodeVarint (of_nat (length b)) @ b) suf)"
proof -
  define e where "e = encodeVarint (of_nat (length b))"
  have len: "length pre + length e + length b + length suf \<le> 2 ^ 48"
    using assms by (simp add: max_alloc_def e_def)
  have "(of_nat (length (pre @ e)) + of_nat (length b) :: u64) = of_nat (length (pre @ e @ b))"
    by simp
  moreover have "sint (of_nat (length (pre @ e @ b)) :: u64) = int (length (pre @ e @ b))"
    using len by (intro sint_of_nat_small) simp
  moreover have "unat (of_nat (length b) :: u64) = length b"
    using len by (simp add: unat_of_nat)
  ultimately show ?thesis
    using len pb_readVarint_at [of pre "of_nat (length b)" "b @ suf"]
    unfolding pb_readBytes_def e_def [symmetric] by (simp add: max_alloc_def go_copy_def add.assoc)
qed

lemma tag_fields:
  assumes "f < 2 ^ 60" "wt < 8"
  shows "unat (drop_bit 3 (push_bit 3 (of_nat f) OR of_nat wt :: u64)) = f"
    and "unat ((push_bit 3 (of_nat f) OR of_nat wt :: u64) AND 7) = wt"
proof -
  define w where "w = (push_bit 3 (of_nat f) OR of_nat wt :: u64)"
  have m: "(7 :: u64) = mask 3" by (simp add: mask_eq_exp_minus_1)
  have wt: "of_nat wt = take_bit 3 (of_nat wt :: u64)"
    using assms(2) by (simp add: take_bit_of_nat take_bit_nat_eq_self)
  have f: "(of_nat f :: u64) = take_bit 61 (of_nat f)"
    using assms(1) by (simp add: take_bit_of_nat take_bit_nat_eq_self)
  have "drop_bit 3 w = of_nat f"
    unfolding w_def by (subst wt, subst f, rule bit_word_eqI) (auto simp: bit_simps)
  moreover have "w AND 7 = of_nat wt"
    unfolding w_def m by (subst wt, subst (2) wt, rule bit_word_eqI) (auto simp: bit_simps)
  ultimately show "unat (drop_bit 3 (push_bit 3 (of_nat f) OR of_nat wt :: u64)) = f"
    and "unat ((push_bit 3 (of_nat f) OR of_nat wt :: u64) AND 7) = wt"
    using assms unfolding w_def [symmetric] by (simp_all add: unat_of_nat)
qed

lemma encodeTag_nonempty [simp]: "encodeTag f wt \<noteq> []" "0 < length (encodeTag f wt)"
  using encodeVarint_length(1) by (simp_all add: encodeTag_def)

lemma pb_decodeTag_at:
  assumes "f < 2 ^ 60" "wt < 8"
  shows "pb_decodeTag (pb_at pre (encodeTag f wt @ suf)) = (Ok (f, wt), pb_at (pre @ encodeTag f wt) suf)"
  using tag_fields [OF assms] pb_readVarint_at [of pre "push_bit 3 (of_nat f) OR of_nat wt" suf]
  by (simp add: pb_decodeTag_def encodeTag_def)

lemma pb_loop_end [simp]: "pb_loop sch (pb_at pre []) m = Ok m"
  by (simp add: pb_loop.simps)

lemma pb_loop_varint:
  assumes "sch f = Some (VarintF nm g)" "f < 2 ^ 60"
  shows "pb_loop sch (pb_at pre (pbEncodeVarintField f v @ suf)) m =
    pb_loop sch (pb_at (pre @ pbEncodeVarintField f v) suf) (g v m)"
  using pb_decodeTag_at [OF assms(2), of 0 pre "encodeVarint v @ suf"]
    pb_readVarint_at [of "pre @ encodeTag f 0" v suf] assms(1)
  by (subst pb_loop.simps) (simp add: pbEncodeVarintField_def)

lemma pb_loop_bytes:
  assumes "sch f = Some (BytesF nm g)" "f < 2 ^ 60"
    and "length (pre @ pbEncodeLengthDelimField f b @ suf) \<le> max_alloc"
  shows "pb_loop sch (pb_at pre (pbEncodeLengthDelimField f b @ suf)) m =
    (case g b m of
       Ok m1 \<Rightarrow> pb_loop sch (pb_at (pre @ pbEncodeLengthDelimField f b) suf) m1
     | Err e \<Rightarrow> Err e | Panic \<Rightarrow> Panic)"
  using pb_decodeTag_at [OF assms(2), of 2 pre "encodeVarint (of_nat (length b)) @ b @ suf"]
    pb_readBytes_at [of "pre @ encodeTag f 2" b suf] assms(1,3)
  by (subst pb_loop.simps) (simp add: pbEncodeLengthDelimField_def split: res.split)

lemma pb_loop_items:
  assumes "sch f = Some (BytesF nm (\<lambda>b m. Ok (g b m)))" "f < 2 ^ 60"
    and "length (pre @ pbEncodeLengthDelimFields f items @ suf) \<le> max_alloc"
  shows "pb_loop sch (pb_at pre (pbEncodeLengthDelimFields f items @ suf)) m =
    pb_loop sch (pb_at (pre @ pbEncodeLengthDelimFields f items) suf) (fold g items m)"
  using assms(3)
proof (induction items arbitrary: pre m)
  case (Cons b items)
  have "pb_loop sch (pb_at pre (pbEncodeLengthDelimField f b @ pbEncodeLengthDelimFields f items @ suf)) m =
    pb_loop sch (pb_at (pre @ pbEncodeLengthDelimField f b) (pbEncodeLengthDelimFields f items @ suf)) (g b m)"
    using pb_loop_bytes [of sch f nm "\<lambda>b m. Ok (g b m)" pre b "pbEncodeLengthDelimFields f items @ suf" m]
      assms(1,2) Cons.prems
    by (simp add: pbEncodeLengthDelimField_def)
  also have "\<dots> = pb_loop sch (pb_at ((pre @ pbEncodeLengthDelimField f b) @ pbEncodeLengthDelimFields f items) suf)
      (fold g items (g b m))"
    using Cons.prems by (intro Cons.IH) (simp add: pbEncodeLengthDelimField_def)
  finally show ?case by (simp add: pbEncodeLengthDelimField_def)
qed simp

text \<open>A field whose number the table does not know is skipped.\<close>

lemma pb_loop_skip_varint:
  assumes "sch f = None" "f < 2 ^ 60"
  shows "pb_loop sch (pb_at pre (pbEncodeVarintField f v @ suf)) m =
    pb_loop sch (pb_at (pre @ pbEncodeVarintField f v) suf) m"
  using pb_decodeTag_at [OF assms(2), of 0 pre "encodeVarint v @ suf"]
    pb_readVarint_at [of "pre @ encodeTag f 0" v suf] assms(1)
  by (subst pb_loop.simps) (simp add: pbEncodeVarintField_def)

lemma pb_loop_skip_bytes:
  assumes "sch f = None" "f < 2 ^ 60"
    and "length (pre @ pbEncodeLengthDelimField f b @ suf) \<le> max_alloc"
  shows "pb_loop sch (pb_at pre (pbEncodeLengthDelimField f b @ suf)) m =
    pb_loop sch (pb_at (pre @ pbEncodeLengthDelimField f b) suf) m"
  using pb_decodeTag_at [OF assms(2), of 2 pre "encodeVarint (of_nat (length b)) @ b @ suf"]
    pb_readBytes_at [of "pre @ encodeTag f 2" b suf] assms(1,3)
  by (subst pb_loop.simps) (simp add: pbEncodeLengthDelimField_def)

section \<open>Rewriting a decoder run\<close>

text \<open>\<^verbatim>\<open>pb_run sch pre suf m\<close> is the loop with \<^verbatim>\<open>pre\<close> read and \<^verbatim>\<open>suf\<close> to be read; the rules below move one
  field from the one to the other.\<close>

definition pb_run :: "(nat \<Rightarrow> 'm pb_field option) \<Rightarrow> bytes \<Rightarrow> bytes \<Rightarrow> 'm \<Rightarrow> (pb_error, 'm) res" where
  "pb_run sch pre suf m = pb_loop sch (pb_at pre suf) m"

lemma pb_loop_run: "pb_loop sch (newPbDecoder data) m = pb_run sch [] data m"
  by (simp add: pb_run_def newPbDecoder_def)

lemma pb_run_Nil: "pb_run sch pre [] m = Ok m"
  unfolding pb_run_def by (rule pb_loop_end)

lemma pb_run_varint:
  assumes "sch f = Some (VarintF nm g)" "f < 2 ^ 60"
  shows "pb_run sch pre (pbEncodeVarintField f v @ suf) m =
      pb_run sch (pre @ pbEncodeVarintField f v) suf (g v m)"
    and "pb_run sch pre (pbEncodeVarintField f v) m = Ok (g v m)"
  using pb_loop_varint [of sch f nm g pre v suf m] pb_loop_varint [of sch f nm g pre v "[]" m]
    pb_run_Nil [of sch "pre @ pbEncodeVarintField f v" "g v m"] assms
  unfolding pb_run_def by simp_all

lemma pb_run_bytes:
  assumes "sch f = Some (BytesF nm g)" "f < 2 ^ 60" "g b m = Ok m1"
  shows "length (pre @ pbEncodeLengthDelimField f b @ suf) \<le> max_alloc \<Longrightarrow>
      pb_run sch pre (pbEncodeLengthDelimField f b @ suf) m =
      pb_run sch (pre @ pbEncodeLengthDelimField f b) suf m1"
    and "length (pre @ pbEncodeLengthDelimField f b) \<le> max_alloc \<Longrightarrow>
      pb_run sch pre (pbEncodeLengthDelimField f b) m = Ok m1"
  using pb_loop_bytes [of sch f nm g pre b suf m] pb_loop_bytes [of sch f nm g pre b "[]" m]
    pb_run_Nil [of sch "pre @ pbEncodeLengthDelimField f b" m1] assms
  unfolding pb_run_def by simp_all

lemma pb_run_items:
  assumes "sch f = Some (BytesF nm (\<lambda>b m. Ok (g b m)))" "f < 2 ^ 60"
  shows "length (pre @ pbEncodeLengthDelimFields f items @ suf) \<le> max_alloc \<Longrightarrow>
      pb_run sch pre (pbEncodeLengthDelimFields f items @ suf) m =
      pb_run sch (pre @ pbEncodeLengthDelimFields f items) suf (fold g items m)"
    and "length (pre @ pbEncodeLengthDelimFields f items) \<le> max_alloc \<Longrightarrow>
      pb_run sch pre (pbEncodeLengthDelimFields f items) m = Ok (fold g items m)"
  using pb_loop_items [of sch f nm g pre items suf m] pb_loop_items [of sch f nm g pre items "[]" m]
    pb_run_Nil [of sch "pre @ pbEncodeLengthDelimFields f items" "fold g items m"] assms
  unfolding pb_run_def by simp_all

section \<open>Every outcome of reading a length-delimited value\<close>

lemma sint_add_length:
  assumes "n \<le> max_alloc" "L < 2 ^ 64"
  shows "sint (of_nat (n + L) :: u64) =
    (if L < 2 ^ 63 - n then int (n + L) else int (n + L) - 2 ^ 64)"
proof -
  define k where "k = int (n + L)"
  have k: "0 \<le> k" "k < 2 ^ 64 + 2 ^ 63" using assms by (simp_all add: k_def max_alloc_def)
  have "sint (of_nat (n + L) :: u64) = signed_take_bit (LENGTH(64) - Suc 0) k"
    by (simp only: signed_of_nat of_int_eq_id id_apply k_def)
  also have "\<dots> = (k + 2 ^ 63) mod 2 ^ 64 - 2 ^ 63"
    by (simp add: signed_take_bit_eq_take_bit_shift take_bit_eq_mod)
  also have "\<dots> = (if k < 2 ^ 63 then k else k - 2 ^ 64)"
  proof (cases "k < 2 ^ 63")
    case False
    have "(k + 2 ^ 63) mod 2 ^ 64 = (k - 2 ^ 63) mod 2 ^ 64"
      using mod_add_self2 [of "k - 2 ^ 63" "2 ^ 64"] by (simp add: add.commute)
    also have "\<dots> = k - 2 ^ 63" using k False by (intro mod_pos_pos_trivial) simp_all
    finally show ?thesis using False by simp
  qed (use k in simp)
  finally show ?thesis using assms by (auto simp: k_def max_alloc_def)
qed

lemma pb_readVarint_le:
  assumes "pb_readVarint d = (Ok l, d1)"
  shows "pb_pos d1 \<le> length (pb_data d1)"
  using assms decodeVarint_bounds [of "drop (pb_pos d) (pb_data d)"]
  by (fastforce simp: pb_readVarint_def split: prod.splits if_splits)

lemma pb_readBytes_outcome:
  assumes "pb_readVarint d = (Ok l, d1)" and "length (pb_data d) \<le> max_alloc"
  shows "pb_readBytes d =
    (if unat l \<le> length (pb_remaining d1)
     then (Ok (take (unat l) (pb_remaining d1)), d1\<lparr>pb_pos := pb_pos d1 + unat l\<rparr>)
     else if unat l < 2 ^ 63 - pb_pos d1 then (Err BytesOverflow, d1)
     else (Panic, d1))"
proof -
  have d1: "pb_data d1 = pb_data d" "pb_pos d1 \<le> length (pb_data d)"
    using pb_readVarint_pos [OF assms(1)] pb_readVarint_le [OF assms(1)] by auto
  then have pos: "pb_pos d1 \<le> max_alloc" using assms(2) by simp
  define L where "L = unat l"
  define n where "n = length (pb_data d)"
  have L: "L < 2 ^ 64" using unat_less_pow [of l] by (simp add: L_def)
  have "of_nat (pb_pos d1) + l = (of_nat (pb_pos d1 + L) :: u64)" by (simp add: L_def)
  then have sL: "sint (of_nat (pb_pos d1) + l :: u64) =
      (if L < 2 ^ 63 - pb_pos d1 then int (pb_pos d1 + L) else int (pb_pos d1 + L) - 2 ^ 64)"
    using sint_add_length [OF pos L] by (simp only:)
  have n: "n \<le> 2 ^ 48" "pb_pos d1 \<le> n" using assms(2) d1 by (simp_all add: n_def max_alloc_def)
  have over: "int n < sint (of_nat (pb_pos d1) + l :: u64) \<longleftrightarrow> L < 2 ^ 63 - pb_pos d1 \<and> n - pb_pos d1 < L"
    unfolding sL using L n by (auto split: if_splits)
  show ?thesis
    using over L n
    unfolding pb_readBytes_def assms(1) pb_remaining_def d1(1) n_def [symmetric] L_def [symmetric]
    by (auto simp: max_alloc_def go_copy_def n_def d1(1) L_def)
qed

end
