(* ===== verification/Circuit_Messages.thy ===== *)
theory Circuit_Messages
  imports Protobuf
begin

text \<open>
  The messages of the circuit relay protocols: \<^verbatim>\<open>HopMessage\<close> and \<^verbatim>\<open>StopMessage\<close> of
  \<^verbatim>\<open>relayhub/circuitpb.go\<close>, \<^verbatim>\<open>CircuitV1Message\<close> of \<^verbatim>\<open>relayhub/circuitv1.go\<close>, their parts, and the
  length-prefixed frames they travel in.  A pointer that may be nil and a slice whose nil value the
  code tests are options; \<^verbatim>\<open>int32\<close> and \<^verbatim>\<open>int\<close> fields are words read as signed numbers.
\<close>

section \<open>Data\<close>

record Peer =
  Peer_ID :: "bytes option"
  Peer_Addrs :: "bytes list"

record Reservation =
  Resv_Expire :: u64
  Resv_Addrs :: "bytes list"
  Resv_Voucher :: "bytes option"

record Limit =
  Limit_Duration :: u32
  Limit_Data :: u64

record HopMessage =
  Hop_Type :: u32
  Hop_Peer :: "Peer option"
  Hop_Reservation :: "Reservation option"
  Hop_Limit :: "Limit option"
  Hop_Status :: u32

record StopMessage =
  Stop_Type :: u32
  Stop_Peer :: "Peer option"
  Stop_Limit :: "Limit option"
  Stop_Status :: u32

record CircuitV1Message =
  V1_Type :: u64
  V1_SrcPeer :: "Peer option"
  V1_DstPeer :: "Peer option"
  V1_Code :: u64

section \<open>Encoders\<close>

definition encodePeer :: "Peer option \<Rightarrow> bytes" where
  "encodePeer p =
    (case p of Some q \<Rightarrow> (case Peer_ID q of Some i \<Rightarrow> pbEncodeLengthDelimField 1 i | None \<Rightarrow> []) | None \<Rightarrow> [])
    @ (case p of Some q \<Rightarrow>
         if 0 < length (Peer_Addrs q) then pbEncodeLengthDelimFields 2 (Peer_Addrs q) else []
       | None \<Rightarrow> [])"

definition encodeReservation :: "Reservation option \<Rightarrow> bytes" where
  "encodeReservation r = (case r of None \<Rightarrow> [] | Some q \<Rightarrow>
      (if 0 < Resv_Expire q then pbEncodeVarintField 1 (Resv_Expire q) else [])
    @ (if 0 < length (Resv_Addrs q) then pbEncodeLengthDelimFields 2 (Resv_Addrs q) else [])
    @ (case Resv_Voucher q of Some v \<Rightarrow> pbEncodeLengthDelimField 3 v | None \<Rightarrow> []))"

definition encodeLimit :: "Limit option \<Rightarrow> bytes" where
  "encodeLimit l = (case l of None \<Rightarrow> [] | Some q \<Rightarrow>
      (if 0 < Limit_Duration q then pbEncodeVarintField 1 (ucast (Limit_Duration q)) else [])
    @ (if 0 < Limit_Data q then pbEncodeVarintField 2 (Limit_Data q) else []))"

text \<open>\<^verbatim>\<open>uint64(x)\<close> of an \<^verbatim>\<open>int32\<close> extends the sign.\<close>

definition encodeHopMessage :: "HopMessage \<Rightarrow> bytes" where
  "encodeHopMessage msg =
      pbEncodeVarintField 1 (scast (Hop_Type msg))
    @ (if Hop_Peer msg \<noteq> None then pbEncodeLengthDelimField 2 (encodePeer (Hop_Peer msg)) else [])
    @ (if Hop_Reservation msg \<noteq> None
       then pbEncodeLengthDelimField 3 (encodeReservation (Hop_Reservation msg)) else [])
    @ (if Hop_Limit msg \<noteq> None then pbEncodeLengthDelimField 4 (encodeLimit (Hop_Limit msg)) else [])
    @ (if 0 < sint (Hop_Status msg) then pbEncodeVarintField 5 (scast (Hop_Status msg)) else [])"

definition encodeStopMessage :: "StopMessage \<Rightarrow> bytes" where
  "encodeStopMessage msg =
      pbEncodeVarintField 1 (scast (Stop_Type msg))
    @ (if Stop_Peer msg \<noteq> None then pbEncodeLengthDelimField 2 (encodePeer (Stop_Peer msg)) else [])
    @ (if Stop_Limit msg \<noteq> None then pbEncodeLengthDelimField 3 (encodeLimit (Stop_Limit msg)) else [])
    @ (if 0 < sint (Stop_Status msg) then pbEncodeVarintField 4 (scast (Stop_Status msg)) else [])"

definition encodeCircuitV1 :: "CircuitV1Message \<Rightarrow> bytes" where
  "encodeCircuitV1 msg =
      pbEncodeVarintField 1 (V1_Type msg)
    @ (if V1_SrcPeer msg \<noteq> None then pbEncodeLengthDelimField 2 (encodePeer (V1_SrcPeer msg)) else [])
    @ (if V1_DstPeer msg \<noteq> None then pbEncodeLengthDelimField 3 (encodePeer (V1_DstPeer msg)) else [])
    @ (if 0 < sint (V1_Code msg) then pbEncodeVarintField 4 (V1_Code msg) else [])"

definition encodeAddressInfo :: "bytes \<Rightarrow> bytes list \<Rightarrow> bytes" where
  "encodeAddressInfo i addrs =
    pbEncodeLengthDelimField 1 i @ concat (map (pbEncodeLengthDelimField 2) addrs)"

definition encodePeerRecord :: "u64 \<Rightarrow> bytes \<Rightarrow> bytes list \<Rightarrow> bytes" where
  "encodePeerRecord seq i addrs =
    pbEncodeVarintField 1 seq @ pbEncodeLengthDelimField 2 (encodeAddressInfo i addrs)"

definition encodeEnvelope :: "bytes \<Rightarrow> bytes \<Rightarrow> bytes \<Rightarrow> bytes \<Rightarrow> bytes" where
  "encodeEnvelope pubKey payloadType payload signature =
    pbEncodeLengthDelimField 1 pubKey @ pbEncodeLengthDelimField 2 payloadType
    @ pbEncodeLengthDelimField 3 payload @ pbEncodeLengthDelimField 4 signature"

section \<open>Decoders\<close>

text \<open>The result of decoding an embedded message, its error wrapped.\<close>

definition embed_res :: "string \<Rightarrow> (pb_error, 'a) res \<Rightarrow> ('a \<Rightarrow> 'm) \<Rightarrow> (pb_error, 'm) res" where
  "embed_res nm r f = (case r of Ok x \<Rightarrow> Ok (f x) | Err e \<Rightarrow> Err (Nested nm e) | Panic \<Rightarrow> Panic)"

definition peer_fields :: "nat \<Rightarrow> Peer pb_field option" where
  "peer_fields field =
    (if field = 1 then Some (BytesF ''peer.id'' (\<lambda>b p. Ok (p\<lparr>Peer_ID := Some b\<rparr>)))
     else if field = 2 then
       Some (BytesF ''peer.addrs'' (\<lambda>b p. Ok (p\<lparr>Peer_Addrs := Peer_Addrs p @ [b]\<rparr>)))
     else None)"

definition decodePeer :: "bytes \<Rightarrow> (pb_error, Peer) res" where
  "decodePeer data = pb_loop peer_fields (newPbDecoder data) \<lparr>Peer_ID = None, Peer_Addrs = []\<rparr>"

definition reservation_fields :: "nat \<Rightarrow> Reservation pb_field option" where
  "reservation_fields field =
    (if field = 1 then Some (VarintF ''reservation.expire'' (\<lambda>v r. r\<lparr>Resv_Expire := v\<rparr>))
     else if field = 2 then
       Some (BytesF ''reservation.addrs'' (\<lambda>b r. Ok (r\<lparr>Resv_Addrs := Resv_Addrs r @ [b]\<rparr>)))
     else if field = 3 then
       Some (BytesF ''reservation.voucher'' (\<lambda>b r. Ok (r\<lparr>Resv_Voucher := Some b\<rparr>)))
     else None)"

definition decodeReservation :: "bytes \<Rightarrow> (pb_error, Reservation) res" where
  "decodeReservation data = pb_loop reservation_fields (newPbDecoder data)
    \<lparr>Resv_Expire = 0, Resv_Addrs = [], Resv_Voucher = None\<rparr>"

definition limit_fields :: "nat \<Rightarrow> Limit pb_field option" where
  "limit_fields field =
    (if field = 1 then Some (VarintF ''limit.duration'' (\<lambda>v l. l\<lparr>Limit_Duration := ucast v\<rparr>))
     else if field = 2 then Some (VarintF ''limit.data'' (\<lambda>v l. l\<lparr>Limit_Data := v\<rparr>))
     else None)"

definition decodeLimit :: "bytes \<Rightarrow> (pb_error, Limit) res" where
  "decodeLimit data = pb_loop limit_fields (newPbDecoder data) \<lparr>Limit_Duration = 0, Limit_Data = 0\<rparr>"

definition hop_fields :: "nat \<Rightarrow> HopMessage pb_field option" where
  "hop_fields field =
    (if field = 1 then Some (VarintF ''hop.type'' (\<lambda>v m. m\<lparr>Hop_Type := ucast v\<rparr>))
     else if field = 2 then Some (BytesF ''hop.peer'' (\<lambda>b m.
       embed_res ''hop.peer decode'' (decodePeer b) (\<lambda>p. m\<lparr>Hop_Peer := Some p\<rparr>)))
     else if field = 3 then Some (BytesF ''hop.reservation'' (\<lambda>b m.
       embed_res ''hop.reservation decode'' (decodeReservation b) (\<lambda>r. m\<lparr>Hop_Reservation := Some r\<rparr>)))
     else if field = 4 then Some (BytesF ''hop.limit'' (\<lambda>b m.
       embed_res ''hop.limit decode'' (decodeLimit b) (\<lambda>l. m\<lparr>Hop_Limit := Some l\<rparr>)))
     else if field = 5 then Some (VarintF ''hop.status'' (\<lambda>v m. m\<lparr>Hop_Status := ucast v\<rparr>))
     else None)"

definition decodeHopMessage :: "bytes \<Rightarrow> (pb_error, HopMessage) res" where
  "decodeHopMessage data = pb_loop hop_fields (newPbDecoder data)
    \<lparr>Hop_Type = 0, Hop_Peer = None, Hop_Reservation = None, Hop_Limit = None, Hop_Status = 0\<rparr>"

definition stop_fields :: "nat \<Rightarrow> StopMessage pb_field option" where
  "stop_fields field =
    (if field = 1 then Some (VarintF ''stop.type'' (\<lambda>v m. m\<lparr>Stop_Type := ucast v\<rparr>))
     else if field = 2 then Some (BytesF ''stop.peer'' (\<lambda>b m.
       embed_res ''stop.peer decode'' (decodePeer b) (\<lambda>p. m\<lparr>Stop_Peer := Some p\<rparr>)))
     else if field = 3 then Some (BytesF ''stop.limit'' (\<lambda>b m.
       embed_res ''stop.limit decode'' (decodeLimit b) (\<lambda>l. m\<lparr>Stop_Limit := Some l\<rparr>)))
     else if field = 4 then Some (VarintF ''stop.status'' (\<lambda>v m. m\<lparr>Stop_Status := ucast v\<rparr>))
     else None)"

definition decodeStopMessage :: "bytes \<Rightarrow> (pb_error, StopMessage) res" where
  "decodeStopMessage data = pb_loop stop_fields (newPbDecoder data)
    \<lparr>Stop_Type = 0, Stop_Peer = None, Stop_Limit = None, Stop_Status = 0\<rparr>"

definition v1_fields :: "nat \<Rightarrow> CircuitV1Message pb_field option" where
  "v1_fields field =
    (if field = 1 then Some (VarintF ''v1.type'' (\<lambda>v m. m\<lparr>V1_Type := v\<rparr>))
     else if field = 2 then Some (BytesF ''v1.srcPeer'' (\<lambda>b m.
       embed_res ''v1.srcPeer decode'' (decodePeer b) (\<lambda>p. m\<lparr>V1_SrcPeer := Some p\<rparr>)))
     else if field = 3 then Some (BytesF ''v1.dstPeer'' (\<lambda>b m.
       embed_res ''v1.dstPeer decode'' (decodePeer b) (\<lambda>p. m\<lparr>V1_DstPeer := Some p\<rparr>)))
     else if field = 4 then Some (VarintF ''v1.code'' (\<lambda>v m. m\<lparr>V1_Code := v\<rparr>))
     else None)"

definition decodeCircuitV1 :: "bytes \<Rightarrow> (pb_error, CircuitV1Message) res" where
  "decodeCircuitV1 data = pb_loop v1_fields (newPbDecoder data)
    \<lparr>V1_Type = 0, V1_SrcPeer = None, V1_DstPeer = None, V1_Code = 0\<rparr>"

section \<open>Frames\<close>

definition writePbMessage :: "bytes \<Rightarrow> bytes" where
  "writePbMessage data = encodeVarint (of_nat (length data)) @ data"

datatype read_error = ReadIO io_error | TooLarge

definition readOnePb :: "bytes \<Rightarrow> (read_error, bytes) res \<times> bytes" where
  "readOnePb r = (case readVarint r of
      (Ok l, r1) \<Rightarrow>
        if 4096 < l then (Err TooLarge, r1)
        else (case ReadFull (unat l) r1 of
            (Ok buf, r2) \<Rightarrow> (Ok buf, r2)
          | (Err e, r2) \<Rightarrow> (Err (ReadIO e), r2)
          | (Panic, r2) \<Rightarrow> (Panic, r2))
    | (Err e, r1) \<Rightarrow> (Err (ReadIO e), r1)
    | (Panic, r1) \<Rightarrow> (Panic, r1))"

definition readPbMessage :: "bytes \<Rightarrow> (read_error, bytes) res \<times> bytes" where
  "readPbMessage r = (case readVarint r of
      (Ok l, r1) \<Rightarrow>
        if max_alloc < unat l then (Panic, r1)
        else (case ReadFull (unat l) r1 of
            (Ok buf, r2) \<Rightarrow> (Ok buf, r2)
          | (Err e, r2) \<Rightarrow> (Err (ReadIO e), r2)
          | (Panic, r2) \<Rightarrow> (Panic, r2))
    | (Err e, r1) \<Rightarrow> (Err (ReadIO e), r1)
    | (Panic, r1) \<Rightarrow> (Panic, r1))"

section \<open>Status names\<close>

definition statusString :: "u32 \<Rightarrow> string" where
  "statusString s =
    (if sint s = 100 then ''OK''
     else if sint s = 200 then ''RESERVATION_REFUSED''
     else if sint s = 201 then ''RESOURCE_LIMIT_EXCEEDED''
     else if sint s = 202 then ''PERMISSION_DENIED''
     else if sint s = 203 then ''CONNECTION_FAILED''
     else if sint s = 204 then ''NO_RESERVATION''
     else if sint s = 400 then ''MALFORMED_MESSAGE''
     else if sint s = 401 then ''UNEXPECTED_MESSAGE''
     else ''UNKNOWN('' @ show_int (sint s) @ '')'')"

definition circuitV1StatusString :: "u64 \<Rightarrow> string" where
  "circuitV1StatusString code =
    (if sint code = 100 then ''SUCCESS''
     else if sint code = 260 then ''HOP_NO_CONN_TO_DST''
     else if sint code = 261 then ''HOP_CANT_DIAL_DST''
     else if sint code = 262 then ''HOP_CANT_OPEN_DST_STREAM''
     else if sint code = 270 then ''HOP_CANT_SPEAK_RELAY''
     else if sint code = 280 then ''HOP_CANT_RELAY_TO_SELF''
     else if sint code = 400 then ''MALFORMED_MESSAGE''
     else ''UNKNOWN('' @ show_int (sint code) @ '')'')"

section \<open>The contract of a message type\<close>

text \<open>What the senders and receivers of the relay rely on: an encoded message decodes to itself,
  up to a normalisation of the fields the encoder leaves out.  From it follows that a framed message
  is received as sent, and that a decoder which finds it in a field sees the message.\<close>

lemma readOnePb_writePbMessage [wire_simps]:
  assumes "length data \<le> 4096"
  shows "readOnePb (writePbMessage data @ rest) = (Ok data, rest)"
proof -
  have "unat (of_nat (length data) :: u64) = length data" using assms by (simp add: unat_of_nat)
  then show ?thesis
    using assms by (simp add: readOnePb_def writePbMessage_def word_less_nat_alt not_less)
qed

lemma readOnePb_too_large:
  assumes "4096 < length data" "length data < 2 ^ 64"
  shows "readOnePb (writePbMessage data @ rest) = (Err TooLarge, data @ rest)"
proof -
  have "unat (of_nat (length data) :: u64) = length data" using assms by (simp add: unat_of_nat)
  then show ?thesis
    using assms by (simp add: readOnePb_def writePbMessage_def word_less_nat_alt)
qed

lemma readPbMessage_writePbMessage [wire_simps]:
  assumes "length data \<le> max_alloc"
  shows "readPbMessage (writePbMessage data @ rest) = (Ok data, rest)"
proof -
  have "unat (of_nat (length data) :: u64) = length data"
    using assms by (simp add: unat_of_nat max_alloc_def)
  then show ?thesis
    using assms by (simp add: readPbMessage_def writePbMessage_def not_less)
qed

locale pb_message =
  fixes enc :: "'m \<Rightarrow> bytes"
    and dec :: "bytes \<Rightarrow> (pb_error, 'm) res"
    and norm :: "'m \<Rightarrow> 'm"
  assumes dec_enc: "length (enc m) \<le> max_alloc \<Longrightarrow> dec (enc m) = Ok (norm m)"
begin

lemma framed:
  assumes "length (enc m) \<le> 4096"
  shows "\<exists>b. readOnePb (writePbMessage (enc m) @ rest) = (Ok b, rest) \<and> dec b = Ok (norm m)"
  using readOnePb_writePbMessage [OF assms] dec_enc assms by (simp add: max_alloc_def)

lemma enc_determines:
  assumes "enc m = enc m'" "length (enc m) \<le> max_alloc"
  shows "norm m = norm m'"
  using dec_enc [of m] dec_enc [of m'] assms by simp

lemma embedded: "length (enc m) \<le> max_alloc \<Longrightarrow> embed_res nm (dec (enc m)) f = Ok (f (norm m))"
  by (simp add: dec_enc embed_res_def)

end

section \<open>Round trips\<close>

lemma field_small [simp]: "(1 :: nat) < 2 ^ 60" "(2 :: nat) < 2 ^ 60" "(3 :: nat) < 2 ^ 60"
  "(4 :: nat) < 2 ^ 60" "(5 :: nat) < 2 ^ 60"
  by simp_all

lemma fold_Peer_Addrs:
  "fold (\<lambda>b p. p\<lparr>Peer_Addrs := Peer_Addrs p @ [b]\<rparr>) bs p = p\<lparr>Peer_Addrs := Peer_Addrs p @ bs\<rparr>"
  by (induction bs arbitrary: p) simp_all

lemma fold_Resv_Addrs:
  "fold (\<lambda>b p. p\<lparr>Resv_Addrs := Resv_Addrs p @ [b]\<rparr>) bs p = p\<lparr>Resv_Addrs := Resv_Addrs p @ bs\<rparr>"
  by (induction bs arbitrary: p) simp_all

lemmas peer_run =
  pb_run_bytes [of peer_fields 1 "''peer.id''" "\<lambda>b p. Ok (p\<lparr>Peer_ID := Some b\<rparr>)"]
  pb_run_items [of peer_fields 2 "''peer.addrs''" "\<lambda>b p. p\<lparr>Peer_Addrs := Peer_Addrs p @ [b]\<rparr>"]

interpretation peer_msg: pb_message "\<lambda>p. encodePeer (Some p)" decodePeer "\<lambda>p. p"
proof
  fix p :: Peer
  assume "length (encodePeer (Some p)) \<le> max_alloc"
  then show "decodePeer (encodePeer (Some p)) = Ok p"
    unfolding decodePeer_def pb_loop_run encodePeer_def
    by (cases p, cases "Peer_ID p")
      (auto simp: peer_run peer_fields_def pb_run_Nil fold_Peer_Addrs simp del: One_nat_def)
qed

lemmas resv_run =
  pb_run_varint [of reservation_fields 1 "''reservation.expire''" "\<lambda>v r. r\<lparr>Resv_Expire := v\<rparr>"]
  pb_run_items [of reservation_fields 2 "''reservation.addrs''" "\<lambda>b r. r\<lparr>Resv_Addrs := Resv_Addrs r @ [b]\<rparr>"]
  pb_run_bytes [of reservation_fields 3 "''reservation.voucher''" "\<lambda>b r. Ok (r\<lparr>Resv_Voucher := Some b\<rparr>)"]

interpretation resv_msg: pb_message "\<lambda>r. encodeReservation (Some r)" decodeReservation "\<lambda>r. r"
proof
  fix r :: Reservation
  assume "length (encodeReservation (Some r)) \<le> max_alloc"
  then show "decodeReservation (encodeReservation (Some r)) = Ok r"
    unfolding decodeReservation_def pb_loop_run encodeReservation_def
    by (cases r, cases "Resv_Voucher r")
      (auto simp: resv_run reservation_fields_def pb_run_Nil fold_Resv_Addrs word_gt_0
        simp del: One_nat_def)
qed

lemmas limit_run =
  pb_run_varint [of limit_fields 1 "''limit.duration''" "\<lambda>v l. l\<lparr>Limit_Duration := ucast v\<rparr>"]
  pb_run_varint [of limit_fields 2 "''limit.data''" "\<lambda>v l. l\<lparr>Limit_Data := v\<rparr>"]

lemma ucast_ucast_u32 [simp]: "(ucast (ucast (w :: u32) :: u64) :: u32) = w"
  by (rule bit_word_eqI) (simp add: bit_simps)

lemma ucast_scast_u32 [simp]: "(ucast (scast (w :: u32) :: u64) :: u32) = w"
  by (rule bit_word_eqI) (auto simp: bit_simps)

interpretation limit_msg: pb_message "\<lambda>l. encodeLimit (Some l)" decodeLimit "\<lambda>l. l"
proof
  fix l :: Limit
  show "decodeLimit (encodeLimit (Some l)) = Ok l"
    unfolding decodeLimit_def pb_loop_run encodeLimit_def
    by (cases l) (auto simp: limit_run limit_fields_def pb_run_Nil word_gt_0 simp del: One_nat_def)
qed

text \<open>The encoders of the three messages leave out a status that is not positive.\<close>

definition hop_sent :: "HopMessage \<Rightarrow> HopMessage" where
  "hop_sent m = m\<lparr>Hop_Status := if 0 < sint (Hop_Status m) then Hop_Status m else 0\<rparr>"

definition stop_sent :: "StopMessage \<Rightarrow> StopMessage" where
  "stop_sent m = m\<lparr>Stop_Status := if 0 < sint (Stop_Status m) then Stop_Status m else 0\<rparr>"

definition v1_sent :: "CircuitV1Message \<Rightarrow> CircuitV1Message" where
  "v1_sent m = m\<lparr>V1_Code := if 0 < sint (V1_Code m) then V1_Code m else 0\<rparr>"

lemma length_field_le: "length b \<le> length (pbEncodeLengthDelimField f b)"
  by (simp add: pbEncodeLengthDelimField_def)

lemma field_boundD: "length (pbEncodeLengthDelimField f b) \<le> n \<Longrightarrow> length b \<le> n"
  using length_field_le [of b f] by linarith

lemmas hop_run =
  pb_run_varint [of hop_fields 1 "''hop.type''" "\<lambda>v m. m\<lparr>Hop_Type := ucast v\<rparr>"]
  pb_run_bytes [of hop_fields 2 "''hop.peer''" "\<lambda>b m.
       embed_res ''hop.peer decode'' (decodePeer b) (\<lambda>p. m\<lparr>Hop_Peer := Some p\<rparr>)"]
  pb_run_bytes [of hop_fields 3 "''hop.reservation''" "\<lambda>b m.
       embed_res ''hop.reservation decode'' (decodeReservation b) (\<lambda>r. m\<lparr>Hop_Reservation := Some r\<rparr>)"]
  pb_run_bytes [of hop_fields 4 "''hop.limit''" "\<lambda>b m.
       embed_res ''hop.limit decode'' (decodeLimit b) (\<lambda>l. m\<lparr>Hop_Limit := Some l\<rparr>)"]
  pb_run_varint [of hop_fields 5 "''hop.status''" "\<lambda>v m. m\<lparr>Hop_Status := ucast v\<rparr>"]

lemma hop_parts_length:
  "Hop_Peer m = Some p \<Longrightarrow> length (encodePeer (Some p)) \<le> length (encodeHopMessage m)"
  "Hop_Reservation m = Some r \<Longrightarrow> length (encodeReservation (Some r)) \<le> length (encodeHopMessage m)"
  "Hop_Limit m = Some l \<Longrightarrow> length (encodeLimit (Some l)) \<le> length (encodeHopMessage m)"
  using length_field_le [of "encodePeer (Some p)" 2] length_field_le [of "encodeReservation (Some r)" 3]
    length_field_le [of "encodeLimit (Some l)" 4]
  by (simp_all add: encodeHopMessage_def)

interpretation hop_msg: pb_message encodeHopMessage decodeHopMessage hop_sent
proof
  fix m :: HopMessage
  assume len: "length (encodeHopMessage m) \<le> max_alloc"
  have bounds: "\<And>p. Hop_Peer m = Some p \<Longrightarrow> length (encodePeer (Some p)) \<le> max_alloc"
    "\<And>r. Hop_Reservation m = Some r \<Longrightarrow> length (encodeReservation (Some r)) \<le> max_alloc"
    "\<And>l. Hop_Limit m = Some l \<Longrightarrow> length (encodeLimit (Some l)) \<le> max_alloc"
    using hop_parts_length [of m] len by (auto elim: order_trans)
  show "decodeHopMessage (encodeHopMessage m) = Ok (hop_sent m)"
    using len bounds unfolding decodeHopMessage_def pb_loop_run encodeHopMessage_def
    by (cases m, cases "Hop_Peer m"; cases "Hop_Reservation m"; cases "Hop_Limit m")
      (auto simp: peer_msg.embedded resv_msg.embedded limit_msg.embedded
        hop_run hop_fields_def pb_run_Nil hop_sent_def simp del: One_nat_def)
qed

lemmas stop_run =
  pb_run_varint [of stop_fields 1 "''stop.type''" "\<lambda>v m. m\<lparr>Stop_Type := ucast v\<rparr>"]
  pb_run_bytes [of stop_fields 2 "''stop.peer''" "\<lambda>b m.
       embed_res ''stop.peer decode'' (decodePeer b) (\<lambda>p. m\<lparr>Stop_Peer := Some p\<rparr>)"]
  pb_run_bytes [of stop_fields 3 "''stop.limit''" "\<lambda>b m.
       embed_res ''stop.limit decode'' (decodeLimit b) (\<lambda>l. m\<lparr>Stop_Limit := Some l\<rparr>)"]
  pb_run_varint [of stop_fields 4 "''stop.status''" "\<lambda>v m. m\<lparr>Stop_Status := ucast v\<rparr>"]

lemma stop_parts_length:
  "Stop_Peer m = Some p \<Longrightarrow> length (encodePeer (Some p)) \<le> length (encodeStopMessage m)"
  "Stop_Limit m = Some l \<Longrightarrow> length (encodeLimit (Some l)) \<le> length (encodeStopMessage m)"
  using length_field_le [of "encodePeer (Some p)" 2] length_field_le [of "encodeLimit (Some l)" 3]
  by (simp_all add: encodeStopMessage_def)

interpretation stop_msg: pb_message encodeStopMessage decodeStopMessage stop_sent
proof
  fix m :: StopMessage
  assume len: "length (encodeStopMessage m) \<le> max_alloc"
  have bounds: "\<And>p. Stop_Peer m = Some p \<Longrightarrow> length (encodePeer (Some p)) \<le> max_alloc"
    "\<And>l. Stop_Limit m = Some l \<Longrightarrow> length (encodeLimit (Some l)) \<le> max_alloc"
    using stop_parts_length [of m] len by (auto elim: order_trans)
  show "decodeStopMessage (encodeStopMessage m) = Ok (stop_sent m)"
    using len bounds unfolding decodeStopMessage_def pb_loop_run encodeStopMessage_def
    by (cases m, cases "Stop_Peer m"; cases "Stop_Limit m")
      (auto simp: peer_msg.embedded resv_msg.embedded limit_msg.embedded
        stop_run stop_fields_def pb_run_Nil stop_sent_def simp del: One_nat_def)
qed

lemmas v1_run =
  pb_run_varint [of v1_fields 1 "''v1.type''" "\<lambda>v m. m\<lparr>V1_Type := v\<rparr>"]
  pb_run_bytes [of v1_fields 2 "''v1.srcPeer''" "\<lambda>b m.
       embed_res ''v1.srcPeer decode'' (decodePeer b) (\<lambda>p. m\<lparr>V1_SrcPeer := Some p\<rparr>)"]
  pb_run_bytes [of v1_fields 3 "''v1.dstPeer''" "\<lambda>b m.
       embed_res ''v1.dstPeer decode'' (decodePeer b) (\<lambda>p. m\<lparr>V1_DstPeer := Some p\<rparr>)"]
  pb_run_varint [of v1_fields 4 "''v1.code''" "\<lambda>v m. m\<lparr>V1_Code := v\<rparr>"]

lemma v1_parts_length:
  "V1_SrcPeer m = Some p \<Longrightarrow> length (encodePeer (Some p)) \<le> length (encodeCircuitV1 m)"
  "V1_DstPeer m = Some q \<Longrightarrow> length (encodePeer (Some q)) \<le> length (encodeCircuitV1 m)"
  using length_field_le [of "encodePeer (Some p)" 2] length_field_le [of "encodePeer (Some q)" 3]
  by (simp_all add: encodeCircuitV1_def)

interpretation v1_msg: pb_message encodeCircuitV1 decodeCircuitV1 v1_sent
proof
  fix m :: CircuitV1Message
  assume len: "length (encodeCircuitV1 m) \<le> max_alloc"
  have bounds: "\<And>p. V1_SrcPeer m = Some p \<Longrightarrow> length (encodePeer (Some p)) \<le> max_alloc"
    "\<And>p. V1_DstPeer m = Some p \<Longrightarrow> length (encodePeer (Some p)) \<le> max_alloc"
    using v1_parts_length [of m] len by (auto elim: order_trans)
  show "decodeCircuitV1 (encodeCircuitV1 m) = Ok (v1_sent m)"
    using len bounds unfolding decodeCircuitV1_def pb_loop_run encodeCircuitV1_def
    by (cases m, cases "V1_SrcPeer m"; cases "V1_DstPeer m")
      (auto simp: peer_msg.embedded resv_msg.embedded limit_msg.embedded
        v1_run v1_fields_def pb_run_Nil v1_sent_def simp del: One_nat_def)
qed

section \<open>A length that overflows\<close>

lemma pb_loop_huge_length:
  assumes "sch f = Some (BytesF nm g)" "f < 2 ^ 60" "2 ^ 63 \<le> unat l"
    and "length (encodeTag f 2 @ encodeVarint l @ rest) \<le> max_alloc"
  shows "pb_loop sch (newPbDecoder (encodeTag f 2 @ encodeVarint l @ rest)) m = Panic"
proof -
  let ?data = "encodeTag f 2 @ encodeVarint l @ rest"
  have tag: "pb_decodeTag (newPbDecoder ?data) = (Ok (f, 2), pb_at (encodeTag f 2) (encodeVarint l @ rest))"
    using pb_decodeTag_at [OF assms(2), of 2 "[]" "encodeVarint l @ rest"] by (simp add: newPbDecoder_def)
  have "pb_readBytes (pb_at (encodeTag f 2) (encodeVarint l @ rest)) =
      (Panic, pb_at (encodeTag f 2 @ encodeVarint l) rest)"
    using pb_readBytes_outcome [OF pb_readVarint_at, of "encodeTag f 2" l rest] assms(3,4)
    by (simp add: pb_remaining_def max_alloc_def)
  then show ?thesis
    using tag assms(1) by (subst pb_loop.simps) (simp add: newPbDecoder_def)
qed

section \<open>Properties\<close>

text \<open>C1: A message of the circuit protocols that fits the receiver's limit is received as it was sent: the frame
  reader returns exactly its bytes and leaves the rest of the stream, and decoding them gives the message with
  all its parts, a status that is not positive read as zero.  This holds for hop messages, for the stop
  messages of the accepting side and for the messages of version 1.\<close>

theorem circuit_messages_received:
  assumes "length (encodeHopMessage h) \<le> 4096" "length (encodeStopMessage s) \<le> 4096" "length (encodeCircuitV1 v) \<le> 4096"
  shows "readOnePb (writePbMessage (encodeHopMessage h) @ rest) = (Ok (encodeHopMessage h), rest) \<and>
    decodeHopMessage (encodeHopMessage h) = Ok (hop_sent h) \<and>
    readOnePb (writePbMessage (encodeStopMessage s) @ rest) = (Ok (encodeStopMessage s), rest) \<and>
    decodeStopMessage (encodeStopMessage s) = Ok (stop_sent s) \<and>
    readOnePb (writePbMessage (encodeCircuitV1 v) @ rest) = (Ok (encodeCircuitV1 v), rest) \<and>
    decodeCircuitV1 (encodeCircuitV1 v) = Ok (v1_sent v)"
  using readOnePb_writePbMessage [OF assms(1)] readOnePb_writePbMessage [OF assms(2)]
    readOnePb_writePbMessage [OF assms(3)] hop_msg.dec_enc [of h] stop_msg.dec_enc [of s] v1_msg.dec_enc [of v] assms
  by (simp add: max_alloc_def)

theorem circuit_messages_received_witness:
  "decodeHopMessage [8, 2, 34, 2, 8, 60, 40, 100] =
    Ok \<lparr>Hop_Type = 2, Hop_Peer = None, Hop_Reservation = None,
        Hop_Limit = Some \<lparr>Limit_Duration = 60, Limit_Data = 0\<rparr>, Hop_Status = 100\<rparr> \<and>
   decodeStopMessage [8, 1, 18, 4, 10, 2, 7, 9, 32, 100] =
    Ok \<lparr>Stop_Type = 1, Stop_Peer = Some \<lparr>Peer_ID = Some [7, 9], Peer_Addrs = []\<rparr>, Stop_Limit = None,
        Stop_Status = 100\<rparr> \<and>
   decodeCircuitV1 [8, 3, 32, 100] =
    Ok \<lparr>V1_Type = 3, V1_SrcPeer = None, V1_DstPeer = None, V1_Code = 100\<rparr>"
  using circuit_messages_received [of "\<lparr>Hop_Type = 2, Hop_Peer = None, Hop_Reservation = None,
      Hop_Limit = Some \<lparr>Limit_Duration = 60, Limit_Data = 0\<rparr>, Hop_Status = 100\<rparr>"
      "\<lparr>Stop_Type = 1, Stop_Peer = Some \<lparr>Peer_ID = Some [7, 9], Peer_Addrs = []\<rparr>, Stop_Limit = None, Stop_Status = 100\<rparr>"
      "\<lparr>V1_Type = 3, V1_SrcPeer = None, V1_DstPeer = None, V1_Code = 100\<rparr>" "[]"]
  by (simp add: encodeHopMessage_def encodeStopMessage_def encodeCircuitV1_def pbEncodeVarintField_def
      pbEncodeLengthDelimField_def encodeTag_def encodeVarint_small encodeLimit_def encodePeer_def hop_sent_def
      stop_sent_def v1_sent_def)

text \<open>A peer record whose identifier claims 2^63 bytes or more panics the decoder instead of
  giving the overflow error, whatever follows the length.\<close>

theorem decodePeer_huge_length_panics:
  assumes "2 ^ 63 \<le> unat l" "length (encodeTag 1 2 @ encodeVarint l @ rest) \<le> max_alloc"
  shows "decodePeer (encodeTag 1 2 @ encodeVarint l @ rest) = Panic"
  unfolding decodePeer_def
  by (rule pb_loop_huge_length [OF _ _ assms]) (simp_all add: peer_fields_def)

theorem decodePeer_huge_length_panics_witness:
  "decodePeer [10, 0x80, 0x80, 0x80, 0x80, 0x80, 0x80, 0x80, 0x80, 0x80, 1] = Panic"
proof -
  have "encodeVarint (2 ^ 63) = [0x80, 0x80, 0x80, 0x80, 0x80, 0x80, 0x80, 0x80, 0x80, 1]"
    "encodeTag 1 2 = [10]" by code_simp+
  then show ?thesis
    using decodePeer_huge_length_panics [of "2 ^ 63" "[]"] by (simp add: max_alloc_def)
qed

end
