(* ===== verification/Multistream.thy ===== *)
theory Multistream
  imports Circuit_Messages
begin

text \<open>
  Protocol negotiation (\<^verbatim>\<open>relayhub/multistream.go\<close>).  A party is a program over two operations, writing a
  message and reading one; \<^verbatim>\<open>run_io\<close> runs it on a given input, \<^verbatim>\<open>ms_step\<close> lets two parties talk over
  two byte streams, each scheduled in any order.
\<close>

section \<open>Messages\<close>

definition writeMsg :: "bytes \<Rightarrow> bytes" where
  "writeMsg msg = encodeVarint (of_nat (length msg)) @ msg"

definition readMsg :: "bytes \<Rightarrow> (io_error, bytes) res \<times> bytes" where
  "readMsg r = (case readVarint r of
      (Ok l, r1) \<Rightarrow> if max_alloc < unat l then (Panic, r1) else ReadFull (unat l) r1
    | (Err e, r1) \<Rightarrow> (Err e, r1)
    | (Panic, r1) \<Rightarrow> (Panic, r1))"

section \<open>Parties\<close>

text \<open>The continuation of a write is told whether the write succeeded, that of a read what
  \<^verbatim>\<open>readMsg\<close> returned.\<close>

datatype 'a io =
    Ret 'a
  | WriteMsg bytes "bool \<Rightarrow> 'a io"
  | ReadMsg "(io_error, bytes) res \<Rightarrow> 'a io"

datatype ms_error =
    SendHeader
  | ReadHeader io_error
  | UnexpectedHeader bytes
  | HeaderNotAvailable
  | SendProto
  | ReadProto io_error
  | ProtocolNotAvailable bytes
  | UnexpectedProto bytes

definition newline :: byte where
  "newline = 10"

definition msProtoIDs :: "bytes list" where
  "msProtoIDs = [ascii ''/multistream/1.0.0'' @ [newline], ascii ''/multistream-select/1.0.0'' @ [newline]]"

definition is_na :: "bytes \<Rightarrow> bool" where
  "is_na resp \<longleftrightarrow> resp = ascii ''na'' \<or> resp = ascii ''na'' @ [newline]"

text \<open>The second half of \<^verbatim>\<open>msSelect\<close>, reached once a header matched.\<close>

definition msSelect_proto :: "bytes \<Rightarrow> (ms_error, unit) res io" where
  "msSelect_proto protoID =
    WriteMsg (protoID @ [newline]) (\<lambda>ok.
      if \<not> ok then Ret (Err SendProto)
      else ReadMsg (\<lambda>r. case r of
          Err e \<Rightarrow> Ret (Err (ReadProto e))
        | Panic \<Rightarrow> Ret Panic
        | Ok resp \<Rightarrow>
            if is_na resp then Ret (Err (ProtocolNotAvailable protoID))
            else if resp \<noteq> protoID \<and> resp \<noteq> protoID @ [newline] then Ret (Err (UnexpectedProto resp))
            else Ret (Ok ())))"

fun msSelect_headers :: "bytes list \<Rightarrow> bytes \<Rightarrow> (ms_error, unit) res io" where
  "msSelect_headers [] protoID = Ret (Err HeaderNotAvailable)"
| "msSelect_headers (m # ms) protoID =
    WriteMsg m (\<lambda>ok.
      if \<not> ok then Ret (Err SendHeader)
      else ReadMsg (\<lambda>r. case r of
          Err e \<Rightarrow> Ret (Err (ReadHeader e))
        | Panic \<Rightarrow> Ret Panic
        | Ok resp \<Rightarrow>
            if resp = butlast m \<or> resp = m then msSelect_proto protoID
            else if is_na resp then msSelect_headers ms protoID
            else if list_ex (\<lambda>m2. resp = m2 \<or> resp = butlast m2) msProtoIDs then msSelect_proto protoID
            else Ret (Err (UnexpectedHeader resp))))"

definition msSelect :: "bytes \<Rightarrow> (ms_error, unit) res io" where
  "msSelect protoID = msSelect_headers msProtoIDs protoID"

definition trimNewline :: "bytes \<Rightarrow> bytes" where
  "trimNewline s = (if 0 < length s \<and> s ! (length s - 1) = newline then take (length s - 1) s else s)"

text \<open>The second half of \<^verbatim>\<open>MSRespond\<close>: the protocol that was asked for is echoed, whatever it is.\<close>

definition MSRespond_proto :: "(ms_error, bytes) res io" where
  "MSRespond_proto = ReadMsg (\<lambda>r. case r of
      Err e \<Rightarrow> Ret (Err (ReadProto e))
    | Panic \<Rightarrow> Ret Panic
    | Ok proto \<Rightarrow>
        if is_na proto then Ret (Err (ProtocolNotAvailable (ascii ''client refused'')))
        else WriteMsg proto (\<lambda>ok.
          if \<not> ok then Ret (Err SendProto) else Ret (Ok (trimNewline proto))))"

fun MSRespond_match :: "bytes list \<Rightarrow> bytes \<Rightarrow> (ms_error, bytes) res io" where
  "MSRespond_match [] msg = Ret (Err (UnexpectedHeader msg))"
| "MSRespond_match (m # ms) msg =
    (if msg = butlast m \<or> msg = m
     then WriteMsg m (\<lambda>ok. if \<not> ok then Ret (Err SendHeader) else MSRespond_proto)
     else MSRespond_match ms msg)"

definition MSRespond :: "(ms_error, bytes) res io" where
  "MSRespond = ReadMsg (\<lambda>r. case r of
      Err e \<Rightarrow> Ret (Err (ReadHeader e))
    | Panic \<Rightarrow> Ret Panic
    | Ok msg \<Rightarrow> MSRespond_match msProtoIDs msg)"

section \<open>Running parties\<close>

text \<open>One party on the bytes its peer sends before closing: its result, what it wrote, what it left.\<close>

primrec run_io :: "'a io \<Rightarrow> bytes \<Rightarrow> 'a \<times> bytes \<times> bytes" where
  "run_io (Ret a) inp = (a, [], inp)"
| "run_io (WriteMsg m k) inp = (case run_io (k True) inp of (a, out, rest) \<Rightarrow> (a, writeMsg m @ out, rest))"
| "run_io (ReadMsg k) inp = (case readMsg inp of (r, rest) \<Rightarrow> run_io (k r) rest)"

text \<open>Two parties over two streams: a write appends to the peer's stream; a read waits until a whole
  message is there.\<close>

inductive ms_step :: "'a io \<times> 'b io \<times> bytes \<times> bytes \<Rightarrow> 'a io \<times> 'b io \<times> bytes \<times> bytes \<Rightarrow> bool" where
  write_left: "ms_step (WriteMsg m k, q, toL, toR) (k True, q, toL, toR @ writeMsg m)"
| write_right: "ms_step (p, WriteMsg m k, toL, toR) (p, k True, toL @ writeMsg m, toR)"
| read_left: "readMsg toL = (Ok m, toL') \<Longrightarrow> ms_step (ReadMsg k, q, toL, toR) (k (Ok m), q, toL', toR)"
| read_right: "readMsg toR = (Ok m, toR') \<Longrightarrow> ms_step (p, ReadMsg k, toL, toR) (p, k (Ok m), toL, toR')"

inductive_simps ms_step_simps: "ms_step (WriteMsg m1 k1, WriteMsg m2 k2, toL, toR) c"
  "ms_step (WriteMsg m1 k1, ReadMsg r2, toL, toR) c" "ms_step (ReadMsg r1, WriteMsg m2 k2, toL, toR) c"
  "ms_step (ReadMsg r1, ReadMsg r2, toL, toR) c" "ms_step (ReadMsg r1, Ret a, toL, toR) c"
  "ms_step (Ret a, Ret b, toL, toR) c"

section \<open>Lemmas\<close>

lemma readMsg_writeMsg [simp, wire_simps]:
  assumes "length msg \<le> max_alloc"
  shows "readMsg (writeMsg msg @ rest) = (Ok msg, rest)" "readMsg (writeMsg msg) = (Ok msg, [])"
proof -
  have "unat (of_nat (length msg) :: u64) = length msg"
    using assms by (simp add: unat_of_nat max_alloc_def)
  then show "readMsg (writeMsg msg @ rest) = (Ok msg, rest)"
    using assms by (simp add: readMsg_def writeMsg_def)
  then show "readMsg (writeMsg msg) = (Ok msg, [])"
    using assms \<open>unat (of_nat (length msg) :: u64) = length msg\<close>
      readVarint_encodeVarint [of "of_nat (length msg)" msg] ReadFull_append [of msg _ "[]"]
    by (simp add: readMsg_def writeMsg_def)
qed

lemma readMsg_Nil [simp]: "readMsg [] = (Err EOF, [])"
  by (simp add: readMsg_def readVarint_def ReadUvarint_loop.simps byteReader_ReadByte_def)

interpretation msg_codec: prefix_codec writeMsg
  "\<lambda>inp. case readMsg inp of (Ok m, rest) \<Rightarrow> Some (m, rest) | _ \<Rightarrow> None" "\<lambda>m. length m \<le> max_alloc"
  by unfold_locales simp

lemma trimNewline_snoc [simp]: "trimNewline (s @ [newline]) = s"
  by (simp add: trimNewline_def)

lemma header_short: "length (hd msProtoIDs) \<le> max_alloc"
  by (simp add: msProtoIDs_def max_alloc_def)

lemma is_na_snoc [simp]: "is_na (s @ [newline]) \<longleftrightarrow> s = ascii ''na''"
  by (auto simp: is_na_def ascii_def newline_def)

section \<open>A negotiation, step by step\<close>

text \<open>The dialing side after its first and after its second write, and the accepting side before its
  second write.\<close>

definition dial_header :: "bytes \<Rightarrow> (ms_error, unit) res io" where
  "dial_header p = (case msSelect p of WriteMsg m k \<Rightarrow> k True | q \<Rightarrow> q)"

definition dial_proto :: "bytes \<Rightarrow> (ms_error, unit) res io" where
  "dial_proto p = (case msSelect_proto p of WriteMsg m k \<Rightarrow> k True | q \<Rightarrow> q)"

definition accept_proto :: "bytes \<Rightarrow> (ms_error, bytes) res io" where
  "accept_proto m = (case MSRespond_proto of ReadMsg k \<Rightarrow> k (Ok m) | q \<Rightarrow> q)"

definition ms_trace :: "bytes \<Rightarrow> ((ms_error, unit) res io \<times> (ms_error, bytes) res io \<times> bytes \<times> bytes) list" where
  "ms_trace p = (let h = hd msProtoIDs; r = p @ [newline] in
    [(msSelect p, MSRespond, [], []),
     (dial_header p, MSRespond, [], writeMsg h),
     (dial_header p, MSRespond_match msProtoIDs h, [], []),
     (dial_header p, MSRespond_proto, writeMsg h, []),
     (msSelect_proto p, MSRespond_proto, [], []),
     (dial_proto p, MSRespond_proto, [], writeMsg r),
     (dial_proto p, accept_proto r, [], []),
     (dial_proto p, Ret (Ok p), writeMsg r, []),
     (Ret (Ok ()), Ret (Ok p), [], [])])"

lemma ms_trace_steps:
  assumes "p \<noteq> ascii ''na''" "length p < max_alloc" "i < 8"
  shows "ms_step (ms_trace p ! i) c \<longleftrightarrow> c = ms_trace p ! Suc i"
proof -
  have "i \<in> {0, 1, 2, 3, 4, 5, 6, 7}" using assms(3) by auto
  then show ?thesis
    using assms(1,2) header_short
    unfolding ms_trace_def Let_def dial_header_def dial_proto_def accept_proto_def
    by (auto simp: ms_step_simps msSelect_def msSelect_proto_def MSRespond_def MSRespond_proto_def
        msProtoIDs_def)
qed

lemma ms_trace_end: "\<not> ms_step (ms_trace p ! 8) c" "ms_trace p ! 8 = (Ret (Ok ()), Ret (Ok p), [], [])"
  by (simp_all add: ms_trace_def Let_def ms_step_simps)

lemma ms_trace_reach:
  assumes "p \<noteq> ascii ''na''" "length p < max_alloc"
  shows "(ms_step ^^ n) (ms_trace p ! 0) c \<longleftrightarrow> n \<le> 8 \<and> c = ms_trace p ! n"
proof (induction n arbitrary: c)
  case (Suc n)
  have "(ms_step ^^ Suc n) (ms_trace p ! 0) c \<longleftrightarrow> n \<le> 8 \<and> ms_step (ms_trace p ! n) c"
    using Suc by (auto simp: relcompp_apply)
  then show ?case
    using ms_trace_steps [OF assms, of n c] ms_trace_end(1) [of p c] by (cases "n < 8") auto
qed auto

lemma ms_trace_start: "ms_trace p ! 0 = (msSelect p, MSRespond, [], [])"
  by (simp add: ms_trace_def Let_def)

section \<open>Properties\<close>

text \<open>C3: When one side selects a protocol and the other responds, every run ends after eight steps
  with the dialing side satisfied and the responding side holding the protocol that was asked for;
  before that some side can always move, and nothing is left in either stream.  The one name that
  cannot be negotiated is \<^verbatim>\<open>na\<close>.\<close>

theorem ms_negotiation:
  assumes "p \<noteq> ascii ''na''" "length p < max_alloc"
  shows "(ms_step ^^ 8) (msSelect p, MSRespond, [], []) (Ret (Ok ()), Ret (Ok p), [], []) \<and>
    (\<forall>n c. (ms_step ^^ n) (msSelect p, MSRespond, [], []) c \<longrightarrow>
       n \<le> 8 \<and> (if n = 8 then c = (Ret (Ok ()), Ret (Ok p), [], []) else Ex (ms_step c)))"
proof -
  note reach = ms_trace_reach [OF assms, unfolded ms_trace_start]
  have "Ex (ms_step (ms_trace p ! n))" if "n \<le> 8" "n \<noteq> 8" for n
    using ms_trace_steps [OF assms, of n "ms_trace p ! Suc n"] that
    by (intro exI [of _ "ms_trace p ! Suc n"]) simp
  then show ?thesis unfolding reach ms_trace_end(2) [of p, symmetric] by (simp split: if_splits)
qed

theorem ms_negotiation_witness:
  "(ms_step ^^ 8) (msSelect (ascii ''/x''), MSRespond, [], []) (Ret (Ok ()), Ret (Ok (ascii ''/x'')), [], [])"
  by (rule conjunct1 [OF ms_negotiation]) (simp_all add: ascii_def max_alloc_def)

text \<open>Everything the dialing side can return once the responder has sent two messages: an
  unexpected header and a foreign protocol are errors, a refusal is the protocol-not-available error,
  and only an echo of the requested protocol, with or without its newline, is a success.\<close>

theorem msSelect_outcome:
  assumes "length r1 \<le> max_alloc" "length r2 \<le> max_alloc" "\<not> is_na r1"
  shows "run_io (msSelect p) (writeMsg r1 @ writeMsg r2 @ rest) =
    (if list_ex (\<lambda>m. r1 = m \<or> r1 = butlast m) msProtoIDs
     then (if is_na r2 then Err (ProtocolNotAvailable p)
           else if r2 = p \<or> r2 = p @ [newline] then Ok () else Err (UnexpectedProto r2),
           writeMsg (hd msProtoIDs) @ writeMsg (p @ [newline]), rest)
     else (Err (UnexpectedHeader r1), writeMsg (hd msProtoIDs), writeMsg r2 @ rest))"
proof -
  obtain m m' where ids: "msProtoIDs = [m, m']" by (simp add: msProtoIDs_def)
  show ?thesis
    using assms by (cases "r1 = butlast m \<or> r1 = m") (auto simp: msSelect_def msSelect_proto_def ids)
qed

theorem msSelect_outcome_witness:
  "fst (run_io (msSelect (ascii ''/x''))
     (writeMsg (ascii ''/multistream/1.0.0'') @ writeMsg (ascii ''na'') @ []))
   = Err (ProtocolNotAvailable (ascii ''/x''))"
  by (subst msSelect_outcome) (simp_all add: is_na_def msProtoIDs_def max_alloc_def ascii_def newline_def)

end
