(* ===== verification/Base58.thy ===== *)
theory Base58
  imports Go_Prelude
begin

text \<open>
  The Bitcoin-alphabet base58 codec of \<^verbatim>\<open>relayhub/base58.go\<close>, used for peer identifiers, and the second
  encoder of \<^verbatim>\<open>fedkey/keyring.go\<close>.  \<^verbatim>\<open>big.Int\<close> values are natural numbers.  A Go string that is ranged
  over is the list of its runes.
\<close>

section \<open>big.Int and the reversal loop\<close>

text \<open>\<^verbatim>\<open>big.Int.Bytes\<close>: big-endian, without leading zero bytes.\<close>

fun big_Bytes :: "nat \<Rightarrow> bytes" where
  "big_Bytes n = (if n = 0 then [] else big_Bytes (n div 256) @ [of_nat n])"

declare big_Bytes.simps [simp del]

text \<open>The loop that exchanges \<^verbatim>\<open>xs[i]\<close> and \<^verbatim>\<open>xs[j]\<close> while \<^verbatim>\<open>i < j\<close>.\<close>

function swap_loop :: "nat \<Rightarrow> nat \<Rightarrow> 'a list \<Rightarrow> 'a list" where
  "swap_loop i j xs = (if i < j then swap_loop (i + 1) (j - 1) (xs[i := xs ! j, j := xs ! i]) else xs)"
  by auto
termination by (relation "measure (\<lambda>(i, j, _). j - i)") auto

declare swap_loop.simps [simp del]

section \<open>base58.go\<close>

definition base58Alphabet :: string where
  "base58Alphabet = ''123456789ABCDEFGHJKLMNPQRSTUVWXYZabcdefghijkmnopqrstuvwxyz''"

text \<open>The table \<^verbatim>\<open>init\<close> fills: -1 everywhere, then the index of each character of the alphabet.\<close>

definition base58DecodeTab :: "nat \<Rightarrow> int" where
  "base58DecodeTab = fold (\<lambda>(i, c) t. t(of_char c := int i)) (enumerate 0 base58Alphabet) (\<lambda>_. -1)"

text \<open>The loop that divides by 58: the digits, least significant first, after those in \<^verbatim>\<open>chars\<close>.\<close>

function divmod_loop :: "nat \<Rightarrow> string \<Rightarrow> string" where
  "divmod_loop n chars =
    (if 0 < n then divmod_loop (n div 58) (chars @ [base58Alphabet ! (n mod 58)]) else chars)"
  by auto
termination by (relation "measure fst") auto

declare divmod_loop.simps [simp del]

function zeros_loop :: "bytes \<Rightarrow> nat \<Rightarrow> string \<Rightarrow> string" where
  "zeros_loop data i chars =
    (if i < length data \<and> data ! i = 0 then zeros_loop data (i + 1) (chars @ [base58Alphabet ! 0]) else chars)"
  by auto
termination by (relation "measure (\<lambda>(data, i, _). length data - i)") auto

declare zeros_loop.simps [simp del]

definition base58Encode :: "bytes \<Rightarrow> string" where
  "base58Encode data =
    (if length data = 0 then ''''
     else let chars = zeros_loop data 0 (divmod_loop (be_nat data) [])
          in swap_loop 0 (length chars - 1) chars)"

datatype base58_error = EmptyString | InvalidCharacter nat

fun decode_loop :: "nat \<Rightarrow> nat list \<Rightarrow> (base58_error, nat) res" where
  "decode_loop n [] = Ok n"
| "decode_loop n (c # s) =
    (if 256 \<le> c \<or> base58DecodeTab c = -1 then Err (InvalidCharacter c)
     else decode_loop (n * 58 + nat (base58DecodeTab c)) s)"

fun leadingZeros :: "nat list \<Rightarrow> nat" where
  "leadingZeros [] = 0"
| "leadingZeros (c # s) = (if c = of_char (base58Alphabet ! 0) then Suc (leadingZeros s) else 0)"

definition base58Decode :: "nat list \<Rightarrow> (base58_error, bytes) res" where
  "base58Decode s =
    (if s = [] then Err EmptyString
     else case decode_loop 0 s of
       Ok n \<Rightarrow>
         let data = big_Bytes n; result = replicate (leadingZeros s + length data) 0
         in Ok (take (leadingZeros s) result @ go_copy (drop (leadingZeros s) result) data)
     | Err e \<Rightarrow> Err e
     | Panic \<Rightarrow> Panic)"

section \<open>The encoder of keyring.go\<close>

fun fedkey_zeros_loop :: "bytes \<Rightarrow> string \<Rightarrow> string" where
  "fedkey_zeros_loop [] digits = digits"
| "fedkey_zeros_loop (b # data) digits =
    (if b \<noteq> 0 then digits else fedkey_zeros_loop data (digits @ [base58Alphabet ! 0]))"

definition fedkey_base58Encode :: "bytes \<Rightarrow> string" where
  "fedkey_base58Encode data =
    (let digits = fedkey_zeros_loop data (divmod_loop (be_nat data) [])
     in swap_loop 0 (length digits - 1) digits)"

definition base58Check :: "(bytes \<Rightarrow> bytes) \<Rightarrow> byte \<Rightarrow> bytes \<Rightarrow> string" where
  "base58Check sha256d version data =
    (let payload = version # data; checksum = take 4 (sha256d payload)
     in fedkey_base58Encode (payload @ checksum))"

section \<open>The reversal loop reverses\<close>

lemma swap_loop_middle:
  "swap_loop (length as) (length as + length ms - 1) (as @ ms @ bs) = as @ rev ms @ bs"
proof (induction "length ms" arbitrary: as ms bs rule: less_induct)
  case less
  show ?case
  proof (cases "2 \<le> length ms")
    case True
    then obtain x ns where ms: "ms = x # ns" "ns \<noteq> []"
      by (cases ms) (auto simp: Suc_le_eq)
    then obtain ns' y where ns: "ns = ns' @ [y]" by (metis rev_exhaust)
    have "swap_loop (length as) (length as + length ms - 1) (as @ ms @ bs) =
        swap_loop (length (as @ [y])) (length (as @ [y]) + length ns' - 1) ((as @ [y]) @ ns' @ ([x] @ bs))"
      by (subst swap_loop.simps) (simp add: ms ns nth_append list_update_append)
    also have "\<dots> = (as @ [y]) @ rev ns' @ ([x] @ bs)"
      by (rule less) (simp add: ms ns)
    finally show ?thesis by (simp add: ms ns)
  next
    case False
    then have "length ms = 0 \<or> length ms = 1" by linarith
    then have "ms = [] \<or> (\<exists>x. ms = [x])" by (auto simp: length_Suc_conv)
    then show ?thesis by (subst swap_loop.simps) auto
  qed
qed

lemma swap_loop_rev [simp]: "swap_loop 0 (length xs - 1) xs = rev xs" "swap_loop 0 (length xs - Suc 0) xs = rev xs"
  using swap_loop_middle [of "[]" xs "[]"] by simp_all

section \<open>Positional notation\<close>

fun to_base :: "nat \<Rightarrow> nat \<Rightarrow> nat list" where
  "to_base b n = (if n = 0 \<or> b < 2 then [] else to_base b (n div b) @ [n mod b])"

declare to_base.simps [simp del]

definition of_base :: "nat \<Rightarrow> nat list \<Rightarrow> nat" where
  "of_base b ds = foldl (\<lambda>n d. n * b + d) 0 ds"

lemma of_base_snoc [simp]: "of_base b (ds @ [d]) = of_base b ds * b + d"
  by (simp add: of_base_def)

lemma of_base_Nil [simp]: "of_base b [] = 0"
  by (simp add: of_base_def)

lemma of_base_zeros: "of_base b (replicate k 0 @ ds) = of_base b ds"
  unfolding of_base_def by (induction k) simp_all

lemma of_base_to_base [simp]: "2 \<le> b \<Longrightarrow> of_base b (to_base b n) = n"
  by (induction b n rule: to_base.induct) (subst to_base.simps, auto)

lemma to_base_digit: "2 \<le> b \<Longrightarrow> list_all (\<lambda>d. d < b) (to_base b n)"
  by (induction b n rule: to_base.induct) (subst to_base.simps, auto)

lemma to_base_0 [simp]: "to_base b 0 = []"
  by (simp add: to_base.simps)

lemma to_base_hd: "2 \<le> b \<Longrightarrow> 0 < n \<Longrightarrow> to_base b n \<noteq> [] \<and> hd (to_base b n) \<noteq> 0"
proof (induction b n rule: to_base.induct)
  case (1 b n)
  then have eq: "to_base b n = to_base b (n div b) @ [n mod b]" by (subst to_base.simps) simp
  show ?case
  proof (cases "n div b = 0")
    case True
    then have "n mod b = n" using "1.prems" by (simp add: div_eq_0_iff)
    then show ?thesis using True "1.prems" by (simp add: eq)
  qed (use 1 in \<open>simp add: eq hd_append\<close>)
qed

lemma of_base_pos: "2 \<le> b \<Longrightarrow> ds \<noteq> [] \<Longrightarrow> hd ds \<noteq> 0 \<Longrightarrow> 0 < of_base b ds"
  by (induction ds rule: rev_induct) (auto simp: hd_append split: if_splits)

lemma to_base_of_base:
  "2 \<le> b \<Longrightarrow> list_all (\<lambda>d. d < b) ds \<Longrightarrow> ds = [] \<or> hd ds \<noteq> 0 \<Longrightarrow> to_base b (of_base b ds) = ds"
proof (induction ds rule: rev_induct)
  case (snoc d ds)
  have hd: "ds = [] \<or> hd ds \<noteq> 0" using snoc.prems(3) by (cases ds) auto
  have "0 < of_base b (ds @ [d])" using snoc.prems by (intro of_base_pos) auto
  moreover have "(of_base b ds * b + d) div b = of_base b ds" using snoc.prems by simp
  moreover have "to_base b (of_base b ds) = ds" using snoc hd by simp
  ultimately show ?case using snoc.prems by (subst to_base.simps) auto
qed simp

lemma big_Bytes_eq: "big_Bytes n = map of_nat (to_base 256 n)"
proof (induction n rule: big_Bytes.induct)
  case (1 n)
  have "(of_nat (n mod 256) :: byte) = of_nat n"
    by (simp add: word_eq_iff_unsigned unat_of_nat word_unat_eq_iff)
  with 1 show ?case by (subst big_Bytes.simps, subst to_base.simps) simp
qed

lemma be_nat_eq: "be_nat bs = of_base 256 (map unat bs)"
  by (simp add: be_nat_def of_base_def foldl_map)

lemma divmod_loop_eq: "divmod_loop n cs = cs @ rev (map (\<lambda>d. base58Alphabet ! d) (to_base 58 n))"
proof (induction n cs rule: divmod_loop.induct)
  case (1 n cs)
  then show ?case by (subst divmod_loop.simps, subst to_base.simps) simp
qed

text \<open>The number of leading zero bytes.\<close>

definition zero_count :: "bytes \<Rightarrow> nat" where
  "zero_count data = length (takeWhile (\<lambda>b. b = 0) data)"

lemma zeros_loop_eq:
  "i \<le> length data \<Longrightarrow> zeros_loop data i cs = cs @ replicate (zero_count (drop i data)) (base58Alphabet ! 0)"
proof (induction data i cs rule: zeros_loop.induct)
  case (1 data i cs)
  show ?case
  proof (cases "i < length data")
    case True
    then have "drop i data = data ! i # drop (i + 1) data" by (simp add: Cons_nth_drop_Suc)
    then show ?thesis using 1 True
      by (subst zeros_loop.simps) (auto simp: zero_count_def replicate_append_same)
  qed (use 1 in \<open>subst zeros_loop.simps, simp add: zero_count_def\<close>)
qed

lemma fedkey_zeros_loop_eq:
  "fedkey_zeros_loop data cs = cs @ replicate (zero_count data) (base58Alphabet ! 0)"
  by (induction data cs rule: fedkey_zeros_loop.induct)
    (auto simp: zero_count_def replicate_append_same)

lemma base58Encode_eq:
  "base58Encode data =
    replicate (zero_count data) (base58Alphabet ! 0)
    @ map (\<lambda>d. base58Alphabet ! d) (to_base 58 (be_nat data))"
  by (auto simp: base58Encode_def zeros_loop_eq divmod_loop_eq zero_count_def Let_def
      simp del: length_append length_rev length_map length_replicate)

lemma fedkey_base58Encode_eq:
  "fedkey_base58Encode data =
    replicate (zero_count data) (base58Alphabet ! 0)
    @ map (\<lambda>d. base58Alphabet ! d) (to_base 58 (be_nat data))"
  by (simp add: fedkey_base58Encode_def fedkey_zeros_loop_eq divmod_loop_eq Let_def
      del: length_append length_rev length_map length_replicate)

section \<open>The decoding table\<close>

definition rune_of_digit :: "nat \<Rightarrow> nat" where
  "rune_of_digit d = of_char (base58Alphabet ! d)"

lemma fold_table:
  "fold (\<lambda>(i, c) t. t(of_char c := int i)) ics t0 r \<noteq> t0 r \<Longrightarrow>
   \<exists>i c. (i, c) \<in> set ics \<and> r = of_char c \<and> fold (\<lambda>(i, c) t. t(of_char c := int i)) ics t0 r = int i"
proof (induction ics rule: rev_induct)
  case (snoc ic ics)
  then show ?case by (cases ic) (auto split: if_splits)
qed simp

lemma fold_table_lookup:
  "distinct (map snd ics) \<Longrightarrow> (i, c) \<in> set ics \<Longrightarrow>
   fold (\<lambda>(i, c) t. t(of_char c := int i)) ics t0 (of_char c :: nat) = int i"
proof (induction ics rule: rev_induct)
  case (snoc ic ics)
  then show ?case by (cases ic) (force simp: image_iff)
qed simp

lemma length_base58Alphabet: "length base58Alphabet = 58"
  by (simp add: base58Alphabet_def)

lemma distinct_base58Alphabet: "distinct base58Alphabet"
  by (simp add: base58Alphabet_def)

lemma decodeTab_digit:
  assumes "d < 58"
  shows "base58DecodeTab (rune_of_digit d) = int d" "rune_of_digit d < 256"
    "rune_of_digit d = rune_of_digit 0 \<longleftrightarrow> d = 0"
proof -
  have "(d, base58Alphabet ! d) \<in> set (enumerate 0 base58Alphabet)"
    using assms by (simp add: in_set_enumerate_eq length_base58Alphabet)
  then show "base58DecodeTab (rune_of_digit d) = int d"
    unfolding base58DecodeTab_def rune_of_digit_def
    by (intro fold_table_lookup) (simp_all add: distinct_base58Alphabet)
  show "rune_of_digit d < 256" by (simp add: rune_of_digit_def)
  show "rune_of_digit d = rune_of_digit 0 \<longleftrightarrow> d = 0"
    using nth_eq_iff_index_eq [OF distinct_base58Alphabet, of d 0] assms
    by (auto simp: rune_of_digit_def length_base58Alphabet)
qed

lemma decodeTab_valid:
  assumes "base58DecodeTab r \<noteq> -1"
  shows "\<exists>d < 58. base58DecodeTab r = int d \<and> r = rune_of_digit d"
proof -
  obtain i c where ic: "(i, c) \<in> set (enumerate 0 base58Alphabet)" "r = of_char c" "base58DecodeTab r = int i"
    using fold_table [of "enumerate 0 base58Alphabet" "\<lambda>_. -1" r] assms
    by (auto simp: base58DecodeTab_def)
  then have "i < length base58Alphabet" "c = base58Alphabet ! i"
    by (auto simp: in_set_enumerate_eq)
  then show ?thesis using ic length_base58Alphabet by (auto simp: rune_of_digit_def)
qed

section \<open>Round trips\<close>

lemma decode_loop_digits:
  "list_all (\<lambda>d. d < 58) ds \<Longrightarrow>
   decode_loop n (map rune_of_digit ds) = Ok (foldl (\<lambda>n d. n * 58 + d) n ds)"
  by (induction ds arbitrary: n) (auto simp: decodeTab_digit not_le)

lemma decode_loop_OkD:
  "decode_loop n s = Ok m \<Longrightarrow>
   \<exists>ds. list_all (\<lambda>d. d < 58) ds \<and> s = map rune_of_digit ds \<and> m = foldl (\<lambda>n d. n * 58 + d) n ds"
proof (induction n s rule: decode_loop.induct)
  case (2 n c s)
  then have "base58DecodeTab c \<noteq> -1" by (auto split: if_splits)
  then obtain d where d: "d < 58" "base58DecodeTab c = int d" "c = rune_of_digit d"
    using decodeTab_valid by blast
  with 2 obtain ds where "list_all (\<lambda>d. d < 58) ds" "s = map rune_of_digit ds"
    "m = foldl (\<lambda>n d. n * 58 + d) (n * 58 + d) ds" by (auto split: if_splits)
  then show ?case using d by (intro exI [of _ "d # ds"]) simp
qed simp

lemma leadingZeros_digits:
  assumes "list_all (\<lambda>d. d < 58) ds" "ds = [] \<or> hd ds \<noteq> 0"
  shows "leadingZeros (map rune_of_digit (replicate k 0 @ ds)) = k"
proof (induction k)
  case 0
  show ?case using assms by (cases ds) (auto simp: decodeTab_digit(3) rune_of_digit_def [symmetric])
qed (simp add: rune_of_digit_def)

lemma split_zeros: "\<exists>k es. ds = replicate k 0 @ es \<and> (es = [] \<or> hd es \<noteq> (0 :: 'a :: zero))"
proof (induction ds)
  case (Cons d ds)
  then obtain k es where ds: "ds = replicate k 0 @ es" "es = [] \<or> hd es \<noteq> 0" by blast
  show ?case
  proof (cases "d = 0")
    case True
    then show ?thesis using ds by (intro exI [of _ "Suc k"] exI [of _ es]) simp
  qed (intro exI [of _ 0] exI [of _ "d # ds"], simp)
qed simp

lemma zero_count_split: "es = [] \<or> hd es \<noteq> 0 \<Longrightarrow> zero_count (replicate k 0 @ es) = k"
  by (induction k) (cases es; auto simp: zero_count_def)+

lemma be_nat_zeros: "be_nat (replicate k 0 @ es) = be_nat es"
  using of_base_zeros [of 256 k "map unat es"] by (simp add: be_nat_eq)

lemma big_Bytes_be_nat: "es = [] \<or> hd es \<noteq> 0 \<Longrightarrow> big_Bytes (be_nat es) = es"
  using to_base_of_base [of 256 "map unat es"]
  by (cases es) (auto simp: big_Bytes_eq be_nat_eq list_all_iff comp_def unat_eq_zero)

lemma be_nat_big_Bytes: "be_nat (big_Bytes n) = n" "big_Bytes n = [] \<or> hd (big_Bytes n) \<noteq> 0"
proof -
  have digits: "list_all (\<lambda>d. d < 256) (to_base 256 n)" by (intro to_base_digit) simp
  then have "map unat (map of_nat (to_base 256 n) :: bytes) = to_base 256 n"
    by (auto simp: list_all_iff unat_of_nat intro: map_idI)
  then show "be_nat (big_Bytes n) = n" by (simp add: be_nat_eq big_Bytes_eq)
  show "big_Bytes n = [] \<or> hd (big_Bytes n) \<noteq> 0"
  proof (cases "n = 0")
    case False
    then have hd: "to_base 256 n \<noteq> []" "hd (to_base 256 n) \<noteq> 0" using to_base_hd [of 256 n] by auto
    then have "hd (to_base 256 n) < 256" using digits by (cases "to_base 256 n") auto
    then have "(of_nat (hd (to_base 256 n)) :: byte) \<noteq> 0"
      using hd by (simp add: word_unat_eq_iff unat_of_nat)
    then show ?thesis using hd by (simp add: big_Bytes_eq hd_map)
  qed (simp add: big_Bytes_eq)
qed

lemma base58Encode_runes:
  assumes "es = [] \<or> hd es \<noteq> 0"
  shows "map of_char (base58Encode (replicate k 0 @ es)) =
    map rune_of_digit (replicate k 0 @ to_base 58 (be_nat es))"
  using assms by (simp add: base58Encode_eq zero_count_split be_nat_zeros rune_of_digit_def [abs_def])

lemma base58Decode_digits:
  assumes "list_all (\<lambda>d. d < 58) ds" "ds = [] \<or> hd ds \<noteq> 0" "0 < k + length ds"
  shows "base58Decode (map rune_of_digit (replicate k 0 @ ds)) =
    Ok (replicate k 0 @ big_Bytes (of_base 58 ds))"
proof -
  have "list_all (\<lambda>d. d < 58) (replicate k 0 @ ds)" using assms(1) by (auto simp: list_all_iff)
  then have "decode_loop 0 (map rune_of_digit (replicate k 0 @ ds)) = Ok (of_base 58 ds)"
    using of_base_zeros [of 58 k ds] decode_loop_digits [of "replicate k 0 @ ds" 0]
    by (simp only: of_base_def)
  moreover have "map rune_of_digit (replicate k 0 @ ds) \<noteq> []" using assms(3) by auto
  ultimately show ?thesis
    using leadingZeros_digits [OF assms(1,2), of k] unfolding base58Decode_def
    by (simp add: Let_def del: map_append)
qed

lemma base58_decode_encode_eq:
  "base58Decode (map of_char (base58Encode data)) = (if data = [] then Err EmptyString else Ok data)"
proof (cases "data = []")
  case False
  obtain k es where data: "data = replicate k 0 @ es" "es = [] \<or> hd es \<noteq> 0"
    using split_zeros [of data] by blast
  let ?ds = "to_base 58 (be_nat es)"
  have "es \<noteq> [] \<Longrightarrow> 0 < be_nat es"
    using data(2) of_base_pos [of 256 "map unat es"] by (cases es) (auto simp: be_nat_eq unat_eq_zero)
  then have ds: "?ds = [] \<or> hd ?ds \<noteq> 0" "0 < k + length ?ds"
    using to_base_hd [of 58 "be_nat es"] False data by (cases es, auto)+
  have "base58Decode (map of_char (base58Encode data)) = Ok (replicate k 0 @ big_Bytes (be_nat es))"
    using base58Decode_digits [OF to_base_digit ds] base58Encode_runes [OF data(2), of k] data(1) by simp
  then show ?thesis using False data big_Bytes_be_nat [of es] by simp
qed (simp add: base58Encode_def base58Decode_def)

section \<open>Properties\<close>

text \<open>C20: Decoding the base58 string of a byte string gives the byte string back, leading zero bytes
  included; the empty byte string is the one the decoder refuses.  The encoders of the relay client and of
  the key ring agree.\<close>

theorem base58_decode_encode:
  "base58Decode (map of_char (base58Encode data)) = (if data = [] then Err EmptyString else Ok data) \<and>
   fedkey_base58Encode data = base58Encode data"
  using base58_decode_encode_eq [of data] fedkey_base58Encode_eq [of data] base58Encode_eq [of data] by simp

text \<open>Every string the decoder accepts is the base58 string of what it decodes to: there is one
  string per byte string.\<close>

theorem base58_encode_decode:
  assumes "base58Decode s = Ok data"
  shows "map of_char (base58Encode data) = s"
proof -
  obtain n where n: "decode_loop 0 s = Ok n" "s \<noteq> []"
    using assms by (auto simp: base58Decode_def split: if_splits res.splits)
  then obtain ds where ds: "list_all (\<lambda>d. d < 58) ds" "s = map rune_of_digit ds"
    using decode_loop_OkD [of 0 s n] by blast
  obtain k es where es: "ds = replicate k 0 @ es" "es = [] \<or> hd es \<noteq> 0"
    using split_zeros [of ds] by blast
  have lt: "list_all (\<lambda>d. d < 58) es" using ds(1) es(1) by simp
  have "data = replicate k 0 @ big_Bytes (of_base 58 es)"
    using base58Decode_digits [OF lt es(2), of k] assms n(2) ds(2) es(1) by auto
  then show ?thesis
    using base58Encode_runes [OF be_nat_big_Bytes(2), of k "of_base 58 es"] be_nat_big_Bytes(1)
      to_base_of_base [of 58 es] lt es ds(2) by simp
qed

theorem base58_encode_decode_witness: "base58Encode [0, 1] = ''12''"
proof -
  have "rune_of_digit 0 = of_char (CHR ''1'')" "rune_of_digit 1 = of_char (CHR ''2'')"
    by (simp_all add: rune_of_digit_def base58Alphabet_def)
  then have "base58Decode (map of_char ''12'') = Ok [0, 1]"
    using base58Decode_digits [of "[1]" 1] by (simp add: of_base_def big_Bytes.simps)
  from base58_encode_decode [OF this] have "map (of_char :: char \<Rightarrow> nat) (base58Encode [0, 1]) = map of_char ''12''" .
  then show ?thesis by (simp only: inj_map_eq_map [OF inj_of_char])
qed

end
