(* ===== verification/Byte_Source.thy ===== *)
theory Byte_Source
  imports Varint
begin

text \<open>
  The interface of an \<^verbatim>\<open>io.Reader\<close> as the relay client uses it, and \<^verbatim>\<open>io.ReadFull\<close> on top of it.  A read may
  deliver fewer bytes than asked for; what matters to a client is that it delivers some, in order.
\<close>

text \<open>\<^verbatim>\<open>io.ReadFull\<close>: reads until \<^verbatim>\<open>n\<close> bytes are there.  The first argument bounds the number of reads; a
  reader that delivers a byte each time needs at most \<^verbatim>\<open>n\<close> of them.  None is a loop that has not ended.\<close>

fun read_loop :: "nat \<Rightarrow> (nat \<Rightarrow> 's \<Rightarrow> ('e, bytes) res \<times> 's) \<Rightarrow> nat \<Rightarrow> 's \<Rightarrow> (('e, bytes) res \<times> 's) option" where
  "read_loop fuel rd 0 s = Some (Ok [], s)"
| "read_loop 0 rd (Suc n) s = None"
| "read_loop (Suc fuel) rd (Suc n) s =
    (case rd (Suc n) s of
       (Ok xs, s1) \<Rightarrow>
         (case read_loop fuel rd (Suc n - length xs) s1 of
            Some (Ok ys, s2) \<Rightarrow> Some (Ok (xs @ ys), s2)
          | r \<Rightarrow> r)
     | (Err e, s1) \<Rightarrow> Some (Err e, s1)
     | (Panic, s1) \<Rightarrow> Some (Panic, s1))"

locale byte_source =
  fixes rd :: "nat \<Rightarrow> 's \<Rightarrow> ('e, bytes) res \<times> 's"
    and holds :: "'s \<Rightarrow> bytes \<Rightarrow> bool"
  assumes rd_some: "holds s bs \<Longrightarrow> bs \<noteq> [] \<Longrightarrow> 0 < n \<Longrightarrow>
    \<exists>xs s1 bs1. rd n s = (Ok xs, s1) \<and> xs \<noteq> [] \<and> length xs \<le> n \<and> bs = xs @ bs1 \<and> holds s1 bs1"
begin

lemma read_loop_full:
  "holds s bs \<Longrightarrow> n \<le> length bs \<Longrightarrow> n \<le> fuel \<Longrightarrow>
   \<exists>s1. read_loop fuel rd n s = Some (Ok (take n bs), s1) \<and> holds s1 (drop n bs)"
proof (induction fuel arbitrary: n s bs)
  case (Suc fuel)
  show ?case
  proof (cases n)
    case (Suc k)
    then have "bs \<noteq> []" using Suc.prems by auto
    then obtain xs s1 bs1 where rd: "rd n s = (Ok xs, s1)" "xs \<noteq> []" "length xs \<le> n"
      "bs = xs @ bs1" "holds s1 bs1"
      using rd_some [OF Suc.prems(1), of n] Suc by auto
    then have "0 < length xs" by simp
    then have "n - length xs \<le> length bs1" "n - length xs \<le> fuel"
      using rd(3,4) Suc.prems(2,3) by (simp, linarith)
    then obtain s2 where "read_loop fuel rd (n - length xs) s1 = Some (Ok (take (n - length xs) bs1), s2)"
      "holds s2 (drop (n - length xs) bs1)"
      using Suc.IH [OF rd(5)] by blast
    then show ?thesis using rd Suc by auto
  qed (use Suc.prems in auto)
qed (use read_loop.simps in auto)

lemma read_loop_twice:
  assumes "holds s bs" "a + b \<le> length bs"
  shows "\<exists>s1 s2. read_loop a rd a s = Some (Ok (take a bs), s1) \<and>
    read_loop b rd b s1 = Some (Ok (take b (drop a bs)), s2) \<and> holds s2 (drop (a + b) bs)"
proof -
  obtain s1 where s1: "read_loop a rd a s = Some (Ok (take a bs), s1)" "holds s1 (drop a bs)"
    using read_loop_full [OF assms(1), of a a] assms(2) by auto
  have "b \<le> length (drop a bs)" using assms(2) by simp
  then obtain s2 where "read_loop b rd b s1 = Some (Ok (take b (drop a bs)), s2)"
    "holds s2 (drop b (drop a bs))"
    using read_loop_full [OF s1(2), of b b] by auto
  moreover have "drop b (drop a bs) = drop (a + b) bs" by (simp add: add.commute)
  ultimately show ?thesis using s1 by auto
qed

end

end
