(* ===== verification/Noise_Conn.thy ===== *)
theory Noise_Conn
  imports Byte_Source
begin

text \<open>
  The encrypted connection of \<^verbatim>\<open>relayhub/noise.go\<close>.  The cipher states and the handshake state come from
  \<^verbatim>\<open>github.com/flynn/noise\<close> and are parameters: \<^verbatim>\<open>Encrypt\<close> and \<^verbatim>\<open>Decrypt\<close> map a state and a text to an optional
  text and the next state.  The underlying \<^verbatim>\<open>net.Conn\<close> is the bytes still to be read, the bytes written,
  and the number of writes that will still succeed.
\<close>

datatype noise_error =
    NoiseIO io_error
  | FrameTooLarge
  | NoiseDecrypt
  | NoiseEncrypt
  | ConnWrite
  | KeyError
  | SendMsg nat
  | ReadNoise nat io_error
  | ProcessMsg nat

record 'k noiseConn =
  nc_in :: bytes
  nc_out :: bytes
  nc_writes :: "nat option"
  nc_enc :: 'k
  nc_dec :: 'k
  nc_buf :: bytes

type_synonym 'k cipher = "'k \<Rightarrow> bytes \<Rightarrow> bytes option \<times> 'k"

section \<open>Read and Write\<close>

definition conn_write :: "bytes \<Rightarrow> ('k, 'z) noiseConn_scheme \<Rightarrow> ('k, 'z) noiseConn_scheme option" where
  "conn_write bs n = (if nc_writes n = Some 0 then None
    else Some (n\<lparr>nc_out := nc_out n @ bs, nc_writes := map_option (\<lambda>k. k - 1) (nc_writes n)\<rparr>))"

text \<open>\<^verbatim>\<open>Read(p)\<close> with \<^verbatim>\<open>len(p) = len\<close>: the bytes copied into \<^verbatim>\<open>p\<close>.\<close>

definition noise_Read :: "'k cipher \<Rightarrow> nat \<Rightarrow> 'k noiseConn \<Rightarrow> (noise_error, bytes) res \<times> 'k noiseConn" where
  "noise_Read decrypt len n =
    (if 0 < length (nc_buf n) then
       (let cp = min len (length (nc_buf n))
        in (Ok (take cp (nc_buf n)), n\<lparr>nc_buf := drop cp (nc_buf n)\<rparr>))
     else case ReadFull 2 (nc_in n) of
       (Ok lenBuf, r1) \<Rightarrow>
         let msgLen = unat (get_u16 lenBuf) in
         if 65535 < msgLen then (Err FrameTooLarge, n\<lparr>nc_in := r1\<rparr>)
         else (case ReadFull msgLen r1 of
             (Ok ciphertext, r2) \<Rightarrow>
               (case decrypt (nc_dec n) ciphertext of
                  (None, k) \<Rightarrow> (Err NoiseDecrypt, n\<lparr>nc_in := r2, nc_dec := k\<rparr>)
                | (Some plaintext, k) \<Rightarrow>
                    let cp = min len (length plaintext);
                        n1 = n\<lparr>nc_in := r2, nc_dec := k\<rparr>
                    in (Ok (take cp plaintext),
                        if cp < length plaintext then n1\<lparr>nc_buf := drop cp plaintext\<rparr> else n1))
           | (Err e, r2) \<Rightarrow> (Err (NoiseIO e), n\<lparr>nc_in := r2\<rparr>)
           | (Panic, r2) \<Rightarrow> (Panic, n\<lparr>nc_in := r2\<rparr>))
     | (Err e, r1) \<Rightarrow> (Err (NoiseIO e), n\<lparr>nc_in := r1\<rparr>)
     | (Panic, r1) \<Rightarrow> (Panic, n\<lparr>nc_in := r1\<rparr>))"

definition maxPlain :: nat where
  "maxPlain = 65535 - 16"

text \<open>The loop of \<^verbatim>\<open>Write\<close>: the bytes written so far, the error if there is one, and the connection.\<close>

function noise_Write_loop ::
  "'k cipher \<Rightarrow> bytes \<Rightarrow> nat \<Rightarrow> 'k noiseConn \<Rightarrow> nat \<times> noise_error option \<times> 'k noiseConn" where
  "noise_Write_loop encrypt p tot n =
    (if 0 < length p then
       let chunk = (if maxPlain < length p then take maxPlain p else p) in
       (case encrypt (nc_enc n) chunk of
          (None, k) \<Rightarrow> (tot, Some NoiseEncrypt, n\<lparr>nc_enc := k\<rparr>)
        | (Some ciphertext, k) \<Rightarrow>
            let n1 = n\<lparr>nc_enc := k\<rparr> in
            (case conn_write (put_u16 (of_nat (length ciphertext))) n1 of
               None \<Rightarrow> (tot, Some ConnWrite, n1)
             | Some n2 \<Rightarrow>
                 (case conn_write ciphertext n2 of
                    None \<Rightarrow> (tot, Some ConnWrite, n2)
                  | Some n3 \<Rightarrow>
                      noise_Write_loop encrypt (drop (length chunk) p) (tot + length chunk) n3)))
     else (tot, None, n))"
  by pat_completeness auto
termination
  by (relation "measure (\<lambda>(_, p, _). length p)") (auto simp: maxPlain_def)

declare noise_Write_loop.simps [simp del]

definition noise_Write :: "'k cipher \<Rightarrow> bytes \<Rightarrow> 'k noiseConn \<Rightarrow> nat \<times> noise_error option \<times> 'k noiseConn" where
  "noise_Write encrypt p n = noise_Write_loop encrypt p 0 n"

section \<open>Handshake messages\<close>

definition writeNoiseMsg :: "bytes \<Rightarrow> 'k noiseConn \<Rightarrow> 'k noiseConn option" where
  "writeNoiseMsg msg n = (case conn_write (put_u16 (of_nat (length msg))) n of
      None \<Rightarrow> None | Some n1 \<Rightarrow> conn_write msg n1)"

definition readNoiseMsg :: "bytes \<Rightarrow> (io_error, bytes) res \<times> bytes" where
  "readNoiseMsg r = (case ReadFull 2 r of
      (Ok buf, r1) \<Rightarrow> ReadFull (unat (get_u16 buf)) r1
    | (Err e, r1) \<Rightarrow> (Err e, r1)
    | (Panic, r1) \<Rightarrow> (Panic, r1))"

text \<open>The X25519 private key of the handshake: the Ed25519 seed, clamped.\<close>

definition clamp :: "bytes \<Rightarrow> bytes" where
  "clamp seed = (let k = go_copy (replicate 32 0) seed;
      k = k[0 := k ! 0 AND 248]; k = k[31 := k ! 31 AND 127] in k[31 := k ! 31 OR 64])"

text \<open>What the handshake uses of the noise library: the public key of a private key, a new initiator
  state for a key pair, writing a message (with the two cipher states, which only the last message
  of the pattern gives a value) and reading one.\<close>

record ('h, 'k) noise_lib =
  nl_X25519 :: "bytes \<Rightarrow> bytes option"
  nl_NewHandshakeState :: "bytes \<Rightarrow> bytes \<Rightarrow> 'h option"
  nl_WriteMessage :: "'h \<Rightarrow> (bytes \<times> 'k \<times> 'k) option \<times> 'h"
  nl_ReadMessage :: "'h \<Rightarrow> bytes \<Rightarrow> unit option \<times> 'h"

definition noiseHandshake ::
  "('h, 'k) noise_lib \<Rightarrow> 'k noiseConn \<Rightarrow> bytes \<Rightarrow> (noise_error, 'k noiseConn) res" where
  "noiseHandshake lib conn seed =
    (let priv = clamp seed in
     case nl_X25519 lib priv of None \<Rightarrow> Err KeyError | Some pub \<Rightarrow>
     case nl_NewHandshakeState lib priv pub of None \<Rightarrow> Err KeyError | Some hs \<Rightarrow>
     case nl_WriteMessage lib hs of
       (None, hs1) \<Rightarrow> Err NoiseEncrypt
     | (Some (msg1, _), hs1) \<Rightarrow>
     case writeNoiseMsg msg1 conn of None \<Rightarrow> Err (SendMsg 1) | Some c1 \<Rightarrow>
     case readNoiseMsg (nc_in c1) of
       (Err e, r) \<Rightarrow> Err (ReadNoise 2 e)
     | (Panic, r) \<Rightarrow> Panic
     | (Ok msg2Raw, r) \<Rightarrow>
     case nl_ReadMessage lib hs1 msg2Raw of
       (None, hs2) \<Rightarrow> Err (ProcessMsg 2)
     | (Some _, hs2) \<Rightarrow>
     case nl_WriteMessage lib hs2 of
       (None, hs3) \<Rightarrow> Err (ProcessMsg 3)
     | (Some (msg3, enc, dec), hs3) \<Rightarrow>
     case writeNoiseMsg msg3 (c1\<lparr>nc_in := r\<rparr>) of None \<Rightarrow> Err (SendMsg 3) | Some c2 \<Rightarrow>
     Ok (c2\<lparr>nc_enc := enc, nc_dec := dec, nc_buf := []\<rparr>))"

section \<open>What the cipher states are relied on for\<close>

text \<open>Two cipher states that are in step for \<^verbatim>\<open>n\<close> more messages: what the one encrypts, the other
  decrypts, the ciphertext is 16 bytes longer, and they stay in step.\<close>

definition noise_cipher_ok :: "'k cipher \<Rightarrow> 'k cipher \<Rightarrow> (nat \<Rightarrow> 'k \<Rightarrow> 'k \<Rightarrow> bool) \<Rightarrow> bool" where
  "noise_cipher_ok encrypt decrypt in_step \<longleftrightarrow>
    (\<forall>n ke kd p. in_step (Suc n) ke kd \<longrightarrow>
      (\<exists>c ke1 kd1. encrypt ke p = (Some c, ke1) \<and> decrypt kd c = (Some p, kd1) \<and>
         length c = length p + 16 \<and> in_step n ke1 kd1))"

text \<open>A byte stream carries a list of texts when it is a sequence of frames that decrypt to them.\<close>

inductive carries :: "'k cipher \<Rightarrow> 'k \<Rightarrow> bytes \<Rightarrow> bytes list \<Rightarrow> bool" for decrypt where
  carries_Nil: "carries decrypt k [] []"
| carries_Cons: "\<lbrakk>length c < 2 ^ 16; decrypt k c = (Some p, k1); carries decrypt k1 rest ps\<rbrakk>
    \<Longrightarrow> carries decrypt k (put_u16 (of_nat (length c)) @ c @ rest) (p # ps)"

inductive_cases carries_ConsE: "carries decrypt k s (p # ps)"
inductive_cases carries_NilE: "carries decrypt k s []"

section \<open>Reading\<close>

lemma noise_Read_frame:
  assumes "nc_buf n = []" "length c < 2 ^ 16" "decrypt (nc_dec n) c = (Some p, k1)"
    and "nc_in n = put_u16 (of_nat (length c)) @ c @ rest"
  shows "noise_Read decrypt len n = (Ok (take len p),
    n\<lparr>nc_in := rest, nc_dec := k1, nc_buf := drop len p\<rparr>)"
proof -
  have "unat (of_nat (length c) :: u16) = length c" using assms(2) by (simp add: unat_of_nat)
  then show ?thesis
    using assms by (auto simp: noise_Read_def Let_def min_def)
qed

text \<open>The bytes a connection still delivers: those in the buffer, then those of the frames.\<close>

definition noise_holds :: "'k cipher \<Rightarrow> 'k noiseConn \<Rightarrow> bytes \<Rightarrow> bool" where
  "noise_holds decrypt n bs \<longleftrightarrow> (\<exists>ps. carries decrypt (nc_dec n) (nc_in n) ps \<and> [] \<notin> set ps \<and>
     bs = nc_buf n @ concat ps)"

interpretation noise_source: byte_source "noise_Read decrypt" "noise_holds decrypt" for decrypt
proof
  fix n bs and len :: nat
  assume holds: "noise_holds decrypt n bs" and bs: "bs \<noteq> []" and len: "0 < len"
  obtain ps where ps: "carries decrypt (nc_dec n) (nc_in n) ps" "[] \<notin> set ps" "bs = nc_buf n @ concat ps"
    using holds by (auto simp: noise_holds_def)
  show "\<exists>xs n1 bs1. noise_Read decrypt len n = (Ok xs, n1) \<and> xs \<noteq> [] \<and> length xs \<le> len \<and>
      bs = xs @ bs1 \<and> noise_holds decrypt n1 bs1"
  proof (cases "nc_buf n = []")
    case False
    then have "noise_Read decrypt len n = (Ok (take len (nc_buf n)), n\<lparr>nc_buf := drop len (nc_buf n)\<rparr>)"
      by (simp add: noise_Read_def Let_def min_def)
    moreover have "noise_holds decrypt (n\<lparr>nc_buf := drop len (nc_buf n)\<rparr>) (drop len (nc_buf n) @ concat ps)"
      using ps by (auto simp: noise_holds_def)
    moreover have "bs = take len (nc_buf n) @ (drop len (nc_buf n) @ concat ps)" using ps(3) by simp
    moreover have "take len (nc_buf n) \<noteq> []" using False len by simp
    ultimately show ?thesis by (metis length_take min.cobounded2)
  next
    case True
    then obtain p qs where qs: "ps = p # qs" using ps(3) bs by (cases ps) auto
    then obtain c k1 rest where c: "length c < 2 ^ 16" "decrypt (nc_dec n) c = (Some p, k1)"
      "nc_in n = put_u16 (of_nat (length c)) @ c @ rest" "carries decrypt k1 rest qs"
      using ps(1) by (auto elim: carries_ConsE)
    let ?n1 = "n\<lparr>nc_in := rest, nc_dec := k1, nc_buf := drop len p\<rparr>"
    have "noise_holds decrypt ?n1 (drop len p @ concat qs)"
      using c(4) ps(2) qs by (auto simp: noise_holds_def)
    moreover have "bs = take len p @ (drop len p @ concat qs)" using True ps(3) qs by simp
    moreover have "take len p \<noteq> []" using ps(2) qs len by auto
    ultimately show ?thesis
      using noise_Read_frame [of n c decrypt p k1 rest len] True c(1-3) by (metis length_take min.cobounded2)
  qed
qed

section \<open>Writing\<close>

text \<open>How \<^verbatim>\<open>Write\<close> cuts a text into frames.\<close>

function chunks :: "bytes \<Rightarrow> bytes list" where
  "chunks p = (if p = [] then [] else take maxPlain p # chunks (drop maxPlain p))"
  by auto
termination by (relation "measure length") (auto simp: maxPlain_def)

declare chunks.simps [simp del]

lemma chunks_concat: "concat (chunks p) = p \<and> [] \<notin> set (chunks p)"
proof (induction p rule: chunks.induct)
  case (1 p)
  then show ?case by (subst (1 2) chunks.simps) (auto simp: maxPlain_def)
qed

lemma conn_write_None [simp]: "nc_writes n = None \<Longrightarrow> conn_write bs n = Some (n\<lparr>nc_out := nc_out n @ bs\<rparr>)"
  by (simp add: conn_write_def)

lemma noise_Write_loop_step:
  assumes "p \<noteq> []" "nc_writes n = None" "encrypt (nc_enc n) (take maxPlain p) = (Some c, ke1)"
  shows "noise_Write_loop encrypt p tot n =
    noise_Write_loop encrypt (drop maxPlain p) (tot + length (take maxPlain p))
      (n\<lparr>nc_enc := ke1, nc_out := nc_out n @ put_u16 (of_nat (length c)) @ c\<rparr>)"
proof -
  have chunk: "(if maxPlain < length p then take maxPlain p else p) = take maxPlain p"
    "drop (length (take maxPlain p)) p = drop maxPlain p" by (auto simp: min_def)
  show ?thesis
    by (subst noise_Write_loop.simps) (simp only: chunk Let_def, simp add: assms)
qed

lemma noise_Write_loop_carries:
  assumes "noise_cipher_ok encrypt decrypt in_step"
  shows "nc_writes n = None \<Longrightarrow> in_step (length (chunks p) + m) (nc_enc n) kd \<Longrightarrow>
    \<exists>s n1. noise_Write_loop encrypt p tot n = (tot + length p, None, n1) \<and> nc_out n1 = nc_out n @ s \<and>
      carries decrypt kd s (chunks p) \<and> nc_writes n1 = None"
proof (induction p arbitrary: n tot kd rule: chunks.induct)
  case (1 p)
  show ?case
  proof (cases "p = []")
    case True
    then show ?thesis using "1.prems" by (auto simp: noise_Write_loop.simps chunks.simps carries_Nil)
  next
    case False
    let ?chunk = "take maxPlain p"
    have len: "length (chunks p) = Suc (length (chunks (drop maxPlain p)))"
      using False by (subst chunks.simps) simp
    then obtain c ke1 kd1 where c: "encrypt (nc_enc n) ?chunk = (Some c, ke1)"
      "decrypt kd c = (Some ?chunk, kd1)" "length c = length ?chunk + 16"
      "in_step (length (chunks (drop maxPlain p)) + m) ke1 kd1"
      using assms "1.prems"(2) unfolding noise_cipher_ok_def by (metis add_Suc)
    define n3 where "n3 = n\<lparr>nc_enc := ke1, nc_out := nc_out n @ put_u16 (of_nat (length c)) @ c\<rparr>"
    have short: "length c < 2 ^ 16" using c(3) by (simp add: maxPlain_def)
    obtain s n1 where ih: "noise_Write_loop encrypt (drop maxPlain p) (tot + length ?chunk) n3 =
        (tot + length ?chunk + length (drop maxPlain p), None, n1)" "nc_out n1 = nc_out n3 @ s"
      "carries decrypt kd1 s (chunks (drop maxPlain p))" "nc_writes n1 = None"
      using "1.IH" [OF False, of n3 kd1 "tot + length ?chunk"] c(4) "1.prems"(1) by (auto simp: n3_def)
    have "tot + length ?chunk + length (drop maxPlain p) = tot + length p" by (simp add: min_def)
    then have "noise_Write_loop encrypt p tot n = (tot + length p, None, n1)"
      using noise_Write_loop_step [OF False "1.prems"(1), of encrypt c ke1 tot, OF c(1)] ih(1)
      by (simp only: n3_def)
    moreover have "nc_out n1 = nc_out n @ (put_u16 (of_nat (length c)) @ c @ s)"
      using ih(2) by (simp add: n3_def)
    moreover have "carries decrypt kd (put_u16 (of_nat (length c)) @ c @ s) (chunks p)"
      using carries_Cons [OF short c(2) ih(3)] False by (subst chunks.simps) simp
    ultimately show ?thesis using ih(4) by blast
  qed
qed

section \<open>Handshake frames\<close>

lemma writeNoiseMsg_out:
  "nc_writes n = None \<Longrightarrow>
   writeNoiseMsg msg n = Some (n\<lparr>nc_out := nc_out n @ put_u16 (of_nat (length msg)) @ msg\<rparr>)"
  by (simp add: writeNoiseMsg_def)

interpretation noise_msg_codec: prefix_codec "\<lambda>msg. put_u16 (of_nat (length msg)) @ msg"
  "\<lambda>inp. case readNoiseMsg inp of (Ok m, rest) \<Rightarrow> Some (m, rest) | _ \<Rightarrow> None" "\<lambda>m. length m < 2 ^ 16"
proof
  fix msg rest :: bytes
  assume "length msg < 2 ^ 16"
  then have "unat (of_nat (length msg) :: u16) = length msg" by (simp add: unat_of_nat)
  then show "(case readNoiseMsg ((put_u16 (of_nat (length msg)) @ msg) @ rest) of
      (Ok m, rest) \<Rightarrow> Some (m, rest) | _ \<Rightarrow> None) = Some (msg, rest)"
    by (simp add: readNoiseMsg_def)
qed

section \<open>Properties\<close>

text \<open>A cipher that appends its counter sixteen times, for the example below.\<close>

definition tag_encrypt :: "nat cipher" where
  "tag_encrypt k p = (Some (p @ replicate 16 (of_nat k)), Suc k)"

definition tag_decrypt :: "nat cipher" where
  "tag_decrypt k c =
    (if 16 \<le> length c \<and> drop (length c - 16) c = replicate 16 (of_nat k)
     then (Some (take (length c - 16) c), Suc k) else (None, k))"

lemma tag_cipher_ok: "noise_cipher_ok tag_encrypt tag_decrypt (\<lambda>_ ke kd. ke = kd)"
  by (auto simp: noise_cipher_ok_def tag_encrypt_def tag_decrypt_def)



end
