(* ===== verification/Nonce.thy ===== *)
theory Nonce
  imports Go_Prelude
begin

text \<open>
  The 24-byte nonces of the encrypted packet streams: \<^verbatim>\<open>incrNonce\<close> of \<^verbatim>\<open>go-tox-tcpclient/crypto.go\<close> and
  \<^verbatim>\<open>Incr2le\<close>, \<^verbatim>\<open>Incr2be\<close>, \<^verbatim>\<open>Incrn2\<close> of \<^verbatim>\<open>mintox/crypto_core2.go\<close>.  A receiver stays in step with a sender
  only because both count the same way.
\<close>

section \<open>The increments\<close>

fun incrNonce_loop :: "nat \<Rightarrow> bytes \<Rightarrow> bytes" where
  "incrNonce_loop 0 nonce = nonce"
| "incrNonce_loop (Suc i) nonce =
    (let nonce1 = nonce[i := nonce ! i + 1]
     in if nonce1 ! i \<noteq> 0 then nonce1 else incrNonce_loop i nonce1)"

definition incrNonce :: "bytes \<Rightarrow> bytes" where
  "incrNonce nonce = incrNonce_loop 24 nonce"

fun Incr2le_loop :: "nat \<Rightarrow> u16 \<Rightarrow> bytes \<Rightarrow> bytes" where
  "Incr2le_loop 0 c bs = bs"
| "Incr2le_loop (Suc i) c bs =
    (let c1 = c + ucast (bs ! i) in Incr2le_loop i (drop_bit 8 c1) (bs[i := ucast c1]))"

definition Incr2le :: "bytes \<Rightarrow> bytes" where
  "Incr2le bs = Incr2le_loop (length bs) 1 bs"

function Incr2be_loop :: "nat \<Rightarrow> u16 \<Rightarrow> bytes \<Rightarrow> bytes" where
  "Incr2be_loop i c bs =
    (if i < length bs then
       let c1 = c + ucast (bs ! i) in Incr2be_loop (i + 1) (drop_bit 8 c1) (bs[i := ucast c1])
     else bs)"
  by auto
termination by (relation "measure (\<lambda>(i, _, bs). length bs - i)") auto

declare Incr2be_loop.simps [simp del]

definition Incr2be :: "bytes \<Rightarrow> bytes" where
  "Incr2be bs = Incr2be_loop 0 1 bs"

definition Incr2 :: "bytes \<Rightarrow> bytes" where
  "Incr2 bs = Incr2le bs"

primrec Incrn2 :: "nat \<Rightarrow> bytes \<Rightarrow> bytes" where
  "Incrn2 0 bs = bs"
| "Incrn2 (Suc n) bs = Incrn2 n (Incr2 bs)"

section \<open>What they compute\<close>

lemma be_bytes_snoc_add:
  "be_bytes (Suc k) (be_nat as * 256 + m) = be_bytes k (be_nat as + m div 256) @ [of_nat m]"
proof -
  have "(256 :: byte) = 0" by simp
  then have "(of_nat (be_nat as * 256 + m) :: byte) = of_nat m"
    by (simp only: of_nat_add of_nat_mult of_nat_numeral mult_zero_right add_0)
  then show ?thesis by (simp add: add.commute)
qed

lemma incrNonce_loop_eq:
  "incrNonce_loop (length as) (as @ bs) = be_bytes (length as) (be_nat as + 1) @ bs"
proof (induction as arbitrary: bs rule: rev_induct)
  case (snoc b as)
  have u: "unat (b + 1) = (unat b + 1) mod 256" by (simp add: unat_word_ariths)
  have e: "be_bytes (Suc (length as)) (be_nat as * 256 + (unat b + 1)) =
      be_bytes (length as) (be_nat as + (unat b + 1) div 256) @ [b + 1]"
    using be_bytes_snoc_add [of "length as" as "unat b + 1"] by simp
  show ?case
  proof (cases "b + 1 = 0")
    case True
    then have "(unat b + 1) mod 256 = 0" using u by simp
    then have "\<not> unat b + 1 < 256" using mod_less [of "unat b + 1" 256] by linarith
    then have "unat b + 1 = 256" using unat_byte_less [of b] by linarith
    then have "(unat b + 1) div 256 = 1" by simp
    then show ?thesis using snoc [of "(b + 1) # bs"] e True
      by (simp add: Let_def nth_append list_update_append)
  next
    case False
    then have "unat (b + 1) \<noteq> 0" by (metis unat_eq_zero)
    then have "unat b + 1 \<noteq> 256" unfolding u by auto
    then have "unat b + 1 < 256" using unat_byte_less [of b] by linarith
    then have "(unat b + 1) div 256 = 0" by simp
    then show ?thesis using e False
      by (simp add: Let_def nth_append list_update_append)
  qed
qed simp

lemma carry_step:
  assumes "unat (c :: u16) \<le> 1"
  shows "unat (c + ucast (b :: byte)) = unat c + unat b"
    and "unat (drop_bit 8 (c + ucast b)) = (unat c + unat b) div 256"
    and "(ucast (c + ucast b) :: byte) = of_nat (unat c + unat b)"
    and "unat (drop_bit 8 (c + ucast b)) \<le> 1"
proof -
  have "unat (ucast b :: u16) = unat b"
  proof -
    have "unat b < 2 ^ 16" by (rule less_trans [OF unat_byte_less]) simp
    then show ?thesis by (simp add: unsigned_ucast_eq take_bit_nat_eq_self)
  qed
  moreover have "unat c + unat b < 65536" using assms unat_byte_less [of b] by linarith
  ultimately show s: "unat (c + ucast b) = unat c + unat b" by (simp add: unat_word_ariths)
  have "unat (drop_bit 8 (c + ucast b)) = drop_bit 8 (unat (c + ucast b))"
    by (rule unat_drop_bit_eq)
  then show d: "unat (drop_bit 8 (c + ucast b)) = (unat c + unat b) div 256"
    unfolding s by (simp add: drop_bit_eq_div)
  show "(ucast (c + ucast b) :: byte) = of_nat (unat c + unat b)"
    unfolding s [symmetric]
    by (simp add: word_unat_eq_iff unsigned_ucast_eq unat_of_nat take_bit_eq_mod)
  show "unat (drop_bit 8 (c + ucast b)) \<le> 1"
  proof -
    have "unat c + unat b < 2 * 256" using assms unat_byte_less [of b] by linarith
    then have "(unat c + unat b) div 256 < 2" by (rule less_mult_imp_div_less)
    then show ?thesis unfolding d by linarith
  qed
qed

lemma Incr2le_loop_eq:
  "unat c \<le> 1 \<Longrightarrow> Incr2le_loop (length as) c (as @ bs) = be_bytes (length as) (be_nat as + unat c) @ bs"
proof (induction as arbitrary: c bs rule: rev_induct)
  case (snoc b as)
  note st = carry_step [OF snoc.prems, of b]
  have "Incr2le_loop (length (as @ [b])) c ((as @ [b]) @ bs) =
      Incr2le_loop (length as) (drop_bit 8 (c + ucast b)) (as @ of_nat (unat c + unat b) # bs)"
    by (simp add: Let_def nth_append list_update_append st(3))
  also have "\<dots> = be_bytes (length as) (be_nat as + (unat c + unat b) div 256) @ of_nat (unat c + unat b) # bs"
    using snoc.IH [OF st(4)] st(2) by simp
  also have "\<dots> = be_bytes (length (as @ [b])) (be_nat (as @ [b]) + unat c) @ bs"
    using be_bytes_snoc_add [of "length as" as "unat c + unat b"] by (simp add: ac_simps)
  finally show ?case .
qed simp

lemma Incr2be_loop_eq:
  "unat c \<le> 1 \<Longrightarrow>
   Incr2be_loop (length as) c (as @ bs) = as @ rev (be_bytes (length bs) (be_nat (rev bs) + unat c))"
proof (induction bs arbitrary: as c)
  case (Cons b bs)
  note st = carry_step [OF Cons.prems, of b]
  have "Incr2be_loop (length as) c (as @ b # bs) =
      Incr2be_loop (length (as @ [of_nat (unat c + unat b)])) (drop_bit 8 (c + ucast b))
        ((as @ [of_nat (unat c + unat b)]) @ bs)"
    by (subst Incr2be_loop.simps) (simp add: Let_def list_update_append st(3))
  also have "\<dots> = (as @ [of_nat (unat c + unat b)]) @
      rev (be_bytes (length bs) (be_nat (rev bs) + (unat c + unat b) div 256))"
    by (simp only: Cons.IH [OF st(4)] st(2))
  also have "\<dots> = as @ rev (be_bytes (length (b # bs)) (be_nat (rev (b # bs)) + unat c))"
    using be_bytes_snoc_add [of "length bs" "rev bs" "unat c + unat b"] by (simp add: ac_simps)
  finally show ?case .
qed (simp add: Incr2be_loop.simps)

section \<open>The contract of a nonce counter\<close>

text \<open>The nonce is a 192-bit number in some byte order, and an increment adds one to it.  Hence two
  counters that start alike stay alike, and no nonce recurs in 2^192 steps.\<close>

locale nonce_counter =
  fixes incr :: "bytes \<Rightarrow> bytes"
    and val :: "bytes \<Rightarrow> nat"
  assumes incr_length: "length n = 24 \<Longrightarrow> length (incr n) = 24"
    and incr_val: "length n = 24 \<Longrightarrow> val (incr n) = (val n + 1) mod 2 ^ 192"
    and val_less: "length n = 24 \<Longrightarrow> val n < 2 ^ 192"
begin

lemma iterate:
  "length n = 24 \<Longrightarrow> length ((incr ^^ k) n) = 24 \<and> val ((incr ^^ k) n) = (val n + k) mod 2 ^ 192"
proof (induction k)
  case (Suc k)
  then show ?case by (simp add: incr_length incr_val mod_Suc_eq)
qed (simp only: funpow_0 add_0_right mod_less val_less)

lemma never_repeats:
  assumes "length n = 24" "i < 2 ^ 192" "j < 2 ^ 192" "(incr ^^ i) n = (incr ^^ j) n"
  shows "i = j"
proof -
  have "(val n + i) mod 2 ^ 192 = (val n + j) mod 2 ^ 192"
    using iterate [OF assms(1), of i] iterate [OF assms(1), of j] assms(4) by simp
  then obtain q r where "val n + i + 2 ^ 192 * q = val n + j + 2 ^ 192 * r"
    unfolding nat_mod_eq_iff by blast
  then have "i + 2 ^ 192 * q = j + 2 ^ 192 * r" by linarith
  then have "i mod 2 ^ 192 = j mod 2 ^ 192" unfolding nat_mod_eq_iff by blast
  then show ?thesis using assms(2,3) by (simp only: mod_less)
qed

end

lemma incrNonce_eq: "length n = 24 \<Longrightarrow> incrNonce n = be_bytes 24 (be_nat n + 1)"
  using incrNonce_loop_eq [of n "[]"] by (simp add: incrNonce_def)

lemma Incr2_eq: "Incr2 n = be_bytes (length n) (be_nat n + 1)"
  using Incr2le_loop_eq [of 1 n "[]"] by (simp add: Incr2_def Incr2le_def)

lemma Incr2be_eq: "Incr2be n = rev (be_bytes (length n) (be_nat (rev n) + 1))"
  using Incr2be_loop_eq [of 1 "[]" n] by (simp add: Incr2be_def)

lemma pow_192: "(256 :: nat) ^ 24 = 2 ^ 192"
  by simp

lemma be_nat_24: "length n = 24 \<Longrightarrow> be_nat n < 2 ^ 192"
  using be_nat_less [of n] by (simp only: pow_192)

interpretation tcp_nonce: nonce_counter incrNonce be_nat
  by unfold_locales (simp_all only: incrNonce_eq length_be_bytes be_nat_be_bytes pow_192 be_nat_24)

interpretation mintox_nonce: nonce_counter Incr2 be_nat
  by unfold_locales (simp_all only: Incr2_eq length_be_bytes be_nat_be_bytes pow_192 be_nat_24)

interpretation mintox_rev_nonce: nonce_counter Incr2be "\<lambda>n. be_nat (rev n)"
  by unfold_locales
    (simp_all only: Incr2be_eq length_rev rev_rev_ident length_be_bytes be_nat_be_bytes pow_192 be_nat_24)

lemma Incrn2_funpow: "Incrn2 k n = (Incr2 ^^ k) n"
  by (induction k arbitrary: n) (simp_all add: funpow_swap1)

section \<open>Properties\<close>

text \<open>C22: The nonce increments of the two TCP implementations are the same function: both add one to
  the nonce read as a big-endian number of 192 bits, wrapping at the end.\<close>

theorem nonce_increments_agree:
  assumes "length n = 24"
  shows "incrNonce n = Incr2 n \<and> length (Incr2 n) = 24 \<and> be_nat (Incr2 n) = (be_nat n + 1) mod 2 ^ 192"
  using assms mintox_nonce.incr_val [OF assms] mintox_nonce.incr_length [OF assms]
  by (simp only: incrNonce_eq Incr2_eq)

theorem nonce_increments_agree_witness:
  "incrNonce (replicate 23 0 @ [255]) = Incr2 (replicate 23 0 @ [255])"
  using nonce_increments_agree [of "replicate 23 0 @ [255]"] by simp

text \<open>Counting up from any nonce, the first 2^192 nonces are pairwise different.\<close>

theorem nonces_never_repeat:
  assumes "length n = 24" "i < 2 ^ 192" "j < 2 ^ 192" "Incrn2 i n = Incrn2 j n"
  shows "i = j"
  using mintox_nonce.never_repeats [OF assms(1-3)] assms(4) by (simp only: Incrn2_funpow)

theorem nonces_never_repeat_witness: "Incrn2 3 (replicate 24 7) \<noteq> Incrn2 5 (replicate 24 7)"
  using nonces_never_repeat [of "replicate 24 7" 3 5] by auto

end
