(* ===== verification/Nacl_Box.thy ===== *)
theory Nacl_Box
  imports Nonce
begin

text \<open>
  The NaCl box library (\<^verbatim>\<open>golang.org/x/crypto/nacl/box\<close>, \<^verbatim>\<open>kevinburke/nacl\<close>), which is not part of the
  program: a record of the functions the program calls, passed to every definition that uses them, and
  the documented behaviour the theorems rely on.
\<close>

record nacl =
  nb_Precompute :: "bytes \<Rightarrow> bytes \<Rightarrow> bytes"
  nb_Seal :: "bytes \<Rightarrow> bytes \<Rightarrow> bytes \<Rightarrow> bytes"
  nb_Open :: "bytes \<Rightarrow> bytes \<Rightarrow> bytes \<Rightarrow> bytes option"

text \<open>\<^verbatim>\<open>Seal\<close> and \<^verbatim>\<open>Open\<close> take the shared key, the nonce and the text.  A sealed text is sixteen bytes longer
  than the text, opening it under the same key and nonce gives the text, and only texts sixteen bytes
  shorter come out of \<^verbatim>\<open>Open\<close>.\<close>

definition box_ok :: "nacl \<Rightarrow> bool" where
  "box_ok nb \<longleftrightarrow>
    (\<forall>k n p. nb_Open nb k n (nb_Seal nb k n p) = Some p) \<and>
    (\<forall>k n p. length (nb_Seal nb k n p) = length p + 16) \<and>
    (\<forall>k n c p. nb_Open nb k n c = Some p \<longrightarrow> length c = length p + 16)"

text \<open>Key agreement: with \<^verbatim>\<open>base\<close> the public key of a secret key, both sides compute the same key.\<close>

definition dh_ok :: "nacl \<Rightarrow> (bytes \<Rightarrow> bytes) \<Rightarrow> bool" where
  "dh_ok nb base \<longleftrightarrow>
    (\<forall>a b. length a = 32 \<longrightarrow> length b = 32 \<longrightarrow>
       nb_Precompute nb (base a) b = nb_Precompute nb (base b) a \<and>
       length (nb_Precompute nb (base a) b) = 32 \<and> length (base a) = 32)"

lemma box_okD:
  assumes "box_ok nb"
  shows "nb_Open nb k n (nb_Seal nb k n p) = Some p" "length (nb_Seal nb k n p) = length p + 16"
  using assms by (auto simp: box_ok_def)

text \<open>A box that satisfies both, for the examples: keys are added byte by byte, a sealed text carries
  the first sixteen bytes of the key and the nonce as its tag.\<close>

definition demo_tag :: "bytes \<Rightarrow> bytes \<Rightarrow> bytes" where
  "demo_tag k n = take 16 (rev (k @ n) @ replicate 16 0)"

definition demo_box :: nacl where
  "demo_box = \<lparr>nb_Precompute = map2 (+),
     nb_Seal = (\<lambda>k n p. demo_tag k n @ p),
     nb_Open = (\<lambda>k n c. if 16 \<le> length c \<and> take 16 c = demo_tag k n then Some (drop 16 c) else None)\<rparr>"

lemma length_demo_tag [simp]: "length (demo_tag k n) = 16"
  by (simp add: demo_tag_def)

lemma demo_box_ok: "box_ok demo_box"
  by (auto simp: box_ok_def demo_box_def)

lemma map2_add_commute: "map2 (+) as bs = map2 (+) bs (as :: bytes)"
  by (induction as bs rule: list_induct2') (simp_all add: add.commute)

lemma demo_dh_ok: "dh_ok demo_box (\<lambda>a. a)"
  by (auto simp: dh_ok_def demo_box_def map2_add_commute)

end
