(* ===== verification/Tcp_Packet.thy ===== *)
theory Tcp_Packet
  imports Varint Nacl_Box
begin

text \<open>
  The packets of a Tox TCP relay connection (\<^verbatim>\<open>go-tox-tcpclient/packet.go\<close>, \<^verbatim>\<open>crypto.go\<close>): the encrypted
  frames, the reader that cuts them out of the byte stream, and the plain packets inside.  A builder
  that slices its argument is an option: None is the panic of a slice out of range.
\<close>

section \<open>crypto.go\<close>

definition beforeNm :: "nacl \<Rightarrow> bytes \<Rightarrow> bytes \<Rightarrow> bytes" where
  "beforeNm nb pub sec = nb_Precompute nb pub sec"

definition encryptDataSymmetric :: "nacl \<Rightarrow> bytes \<Rightarrow> bytes \<Rightarrow> bytes \<Rightarrow> bytes" where
  "encryptDataSymmetric nb shrkey nonce plain = nb_Seal nb shrkey nonce plain"

definition decryptDataSymmetric :: "nacl \<Rightarrow> bytes \<Rightarrow> bytes \<Rightarrow> bytes \<Rightarrow> bytes option" where
  "decryptDataSymmetric nb shrkey nonce cipher = nb_Open nb shrkey nonce cipher"

definition uint64ToBytes :: "u64 \<Rightarrow> bytes" where
  "uint64ToBytes v = put_u64 v"

definition bytesToUint64 :: "bytes \<Rightarrow> u64" where
  "bytesToUint64 b = get_u64 b"

section \<open>Frames\<close>

abbreviation (input) "PublicKeySize \<equiv> (32 :: nat)"
abbreviation (input) "NonceSize \<equiv> (24 :: nat)"
abbreviation (input) "MacSize \<equiv> (16 :: nat)"
abbreviation (input) "NumReservedPorts \<equiv> (16 :: byte)"
abbreviation (input) "NumClientConnections \<equiv> (240 :: nat)"
abbreviation (input) "MaxPacketSize \<equiv> (2048 :: nat)"
abbreviation (input) "MaxOOBDataLength \<equiv> (1024 :: nat)"

datatype packet_error =
    PacketTooLarge
  | CiphertextTooShort
  | DecryptionFailed
  | PacketIO io_error
  | OOBTooLarge
  | InvalidConnectionID

definition encodePacket :: "nacl \<Rightarrow> bytes \<Rightarrow> bytes \<Rightarrow> bytes \<Rightarrow> (packet_error, bytes) res \<times> bytes" where
  "encodePacket nb shrkey nonce plain =
    (if MaxPacketSize < length plain then (Err PacketTooLarge, nonce)
     else let cipher = encryptDataSymmetric nb shrkey nonce plain;
              pkt = put_u16 (of_nat (length cipher)) @ cipher
          in (Ok pkt, incrNonce nonce))"

definition decodePacket :: "nacl \<Rightarrow> bytes \<Rightarrow> bytes \<Rightarrow> bytes \<Rightarrow> (packet_error, bytes) res \<times> bytes" where
  "decodePacket nb shrkey nonce cipher =
    (if length cipher < MacSize then (Err CiphertextTooShort, nonce)
     else case decryptDataSymmetric nb shrkey nonce cipher of
       None \<Rightarrow> (Err DecryptionFailed, nonce)
     | Some plain \<Rightarrow> (Ok plain, incrNonce nonce))"

definition ReadPacket :: "bytes \<Rightarrow> (packet_error, bytes) res \<times> bytes" where
  "ReadPacket r = (case ReadFull 2 r of
      (Ok hdr, r1) \<Rightarrow>
        let encLen = get_u16 hdr in
        if of_nat MaxPacketSize < encLen then (Err PacketTooLarge, r1)
        else (case ReadFull (unat encLen) r1 of
            (Ok out, r2) \<Rightarrow> (Ok out, r2)
          | (Err e, r2) \<Rightarrow> (Err (PacketIO e), r2)
          | (Panic, r2) \<Rightarrow> (Panic, r2))
    | (Err e, r1) \<Rightarrow> (Err (PacketIO e), r1)
    | (Panic, r1) \<Rightarrow> (Panic, r1))"

section \<open>Plain packets\<close>

definition buildRoutingRequest :: "bytes \<Rightarrow> bytes option" where
  "buildRoutingRequest destPK = map_option (\<lambda>pk. 0 # pk) (go_slice destPK 0 PublicKeySize)"

definition buildRoutingResponse :: "byte \<Rightarrow> bytes \<Rightarrow> bytes option" where
  "buildRoutingResponse connID pk =
    map_option (\<lambda>pk. 1 # (connID + NumReservedPorts) # pk) (go_slice pk 0 PublicKeySize)"

definition buildConnNotification :: "byte \<Rightarrow> bytes" where
  "buildConnNotification connID = [2, connID]"

definition buildDisconnNotification :: "byte \<Rightarrow> bytes" where
  "buildDisconnNotification connID = [3, connID]"

definition buildPing :: "u64 \<Rightarrow> bytes" where
  "buildPing i = 4 # put_u64 i"

definition buildPong :: "u64 \<Rightarrow> bytes" where
  "buildPong i = 5 # put_u64 i"

definition buildOOBSend :: "bytes \<Rightarrow> bytes \<Rightarrow> (packet_error, bytes) res" where
  "buildOOBSend destPK data =
    (if MaxOOBDataLength < length data then Err OOBTooLarge
     else case go_slice destPK 0 PublicKeySize of
       None \<Rightarrow> Panic
     | Some pk \<Rightarrow> Ok (6 # pk @ data))"

definition buildOOBRecv :: "bytes \<Rightarrow> bytes \<Rightarrow> bytes option" where
  "buildOOBRecv srcPK data = map_option (\<lambda>pk. 7 # pk @ data) (go_slice srcPK 0 PublicKeySize)"

definition buildOnionRequest :: "bytes \<Rightarrow> bytes" where
  "buildOnionRequest data = 8 # data"

definition buildOnionResponse :: "bytes \<Rightarrow> bytes" where
  "buildOnionResponse data = 9 # data"

definition buildDataPacket :: "byte \<Rightarrow> bytes \<Rightarrow> (packet_error, bytes) res" where
  "buildDataPacket connID data =
    (if NumClientConnections \<le> unat connID then Err InvalidConnectionID
     else Ok ((connID + NumReservedPorts) # data))"

definition parseRoutingResponse :: "bytes \<Rightarrow> (byte \<times> bytes) option" where
  "parseRoutingResponse plain =
    (if length plain < 1 + 1 + PublicKeySize \<or> plain ! 0 \<noteq> 1 then None
     else Some (plain ! 1, take PublicKeySize (drop 2 plain)))"

definition parseConnNotification :: "bytes \<Rightarrow> byte option" where
  "parseConnNotification plain = (if length plain < 2 \<or> plain ! 0 \<noteq> 2 then None else Some (plain ! 1))"

definition parseDisconnNotification :: "bytes \<Rightarrow> byte option" where
  "parseDisconnNotification plain = (if length plain < 2 \<or> plain ! 0 \<noteq> 3 then None else Some (plain ! 1))"

definition parsePing :: "bytes \<Rightarrow> u64 option" where
  "parsePing plain =
    (if length plain < 1 + 8 \<or> plain ! 0 \<noteq> 4 then None else Some (bytesToUint64 (take 8 (drop 1 plain))))"

definition parsePong :: "bytes \<Rightarrow> u64 option" where
  "parsePong plain =
    (if length plain < 1 + 8 \<or> plain ! 0 \<noteq> 5 then None else Some (bytesToUint64 (take 8 (drop 1 plain))))"

definition parseOOBRecv :: "bytes \<Rightarrow> (bytes \<times> bytes) option" where
  "parseOOBRecv plain =
    (if length plain < 1 + PublicKeySize \<or> plain ! 0 \<noteq> 7 then None
     else Some (take PublicKeySize (drop 1 plain), drop (1 + PublicKeySize) plain))"

definition parseOnionResponse :: "bytes \<Rightarrow> bytes option" where
  "parseOnionResponse plain = (if length plain < 1 \<or> plain ! 0 \<noteq> 9 then None else Some (drop 1 plain))"

definition isDataPacket :: "bytes \<Rightarrow> bool" where
  "isDataPacket plain \<longleftrightarrow> 0 < length plain \<and> NumReservedPorts \<le> plain ! 0"

definition parseDataPacket :: "bytes \<Rightarrow> (byte \<times> bytes) option" where
  "parseDataPacket plain =
    (if length plain < 1 \<or> plain ! 0 < NumReservedPorts then None
     else Some (plain ! 0 - NumReservedPorts, drop 1 plain))"

section \<open>The contract of a packet kind\<close>

text \<open>A packet kind has a builder, a parser and the set of its first bytes: its parser reads what its
  builder made and refuses everything with another first byte.\<close>

locale packet_kind =
  fixes build :: "'a \<Rightarrow> bytes"
    and parse :: "bytes \<Rightarrow> 'a option"
    and tags :: "byte set"
    and wf :: "'a \<Rightarrow> bool"
  assumes parse_build: "wf x \<Longrightarrow> parse (build x) = Some x"
    and build_tag: "wf x \<Longrightarrow> build x \<noteq> [] \<and> build x ! 0 \<in> tags"
    and parse_tag: "parse b = Some y \<Longrightarrow> b \<noteq> [] \<and> b ! 0 \<in> tags"
begin

lemma build_inj: "wf x \<Longrightarrow> wf y \<Longrightarrow> build x = build y \<Longrightarrow> x = y"
  by (metis option.inject parse_build)

lemma parse_other: "b = [] \<or> b ! 0 \<notin> tags \<Longrightarrow> parse b = None"
  using parse_tag [of b] by (cases "parse b") auto

end



interpretation ping_kind: packet_kind buildPing parsePing "{4}" "\<lambda>_. True"
  by unfold_locales (auto simp: buildPing_def parsePing_def bytesToUint64_def split: if_splits)

interpretation pong_kind: packet_kind buildPong parsePong "{5}" "\<lambda>_. True"
  by unfold_locales (auto simp: buildPong_def parsePong_def bytesToUint64_def split: if_splits)

interpretation conn_kind: packet_kind buildConnNotification parseConnNotification "{2}" "\<lambda>_. True"
  by unfold_locales (auto simp: buildConnNotification_def parseConnNotification_def split: if_splits)

interpretation disconn_kind: packet_kind buildDisconnNotification parseDisconnNotification "{3}" "\<lambda>_. True"
  by unfold_locales
    (auto simp: buildDisconnNotification_def parseDisconnNotification_def split: if_splits)

interpretation onion_kind: packet_kind buildOnionResponse parseOnionResponse "{9}" "\<lambda>_. True"
  by unfold_locales (auto simp: buildOnionResponse_def parseOnionResponse_def split: if_splits)

interpretation oob_kind: packet_kind "\<lambda>(pk, data). the (buildOOBRecv pk data)" parseOOBRecv "{7}"
  "\<lambda>(pk, data). length pk = 32"
  by unfold_locales
    (auto simp: buildOOBRecv_def parseOOBRecv_def go_slice_def split: if_splits)

lemma data_conn_ids:
  assumes "unat connID < 240"
  shows "16 \<le> connID + (16 :: byte)" "(connID + 16) - 16 = connID"
proof -
  have "unat (connID + 16) = unat connID + 16" using assms by (simp add: unat_word_ariths)
  then show "16 \<le> connID + (16 :: byte)" by (simp add: word_le_nat_alt)
qed simp

interpretation data_kind: packet_kind
  "\<lambda>(connID, data). case buildDataPacket connID data of Ok pkt \<Rightarrow> pkt | _ \<Rightarrow> []" parseDataPacket
  "{b. 16 \<le> b}" "\<lambda>(connID, data). unat connID < 240"
  by unfold_locales
    (auto simp: buildDataPacket_def parseDataPacket_def data_conn_ids not_less split: if_splits)

text \<open>A routing response on the wire carries the connection number shifted by the reserved ports, and
  the parser returns it shifted.\<close>

interpretation routing_kind: packet_kind
  "\<lambda>(connID, pk). the (buildRoutingResponse (connID - 16) pk)" parseRoutingResponse "{1}"
  "\<lambda>(connID, pk). length pk = 32"
  by unfold_locales
    (auto simp: buildRoutingResponse_def parseRoutingResponse_def go_slice_def split: if_splits)

section \<open>Frames\<close>

lemma ReadPacket_frame:
  assumes "length c \<le> 2048"
  shows "ReadPacket ((put_u16 (of_nat (length c)) @ c) @ rest) = (Ok c, rest)"
proof -
  have "unat (of_nat (length c) :: u16) = length c" using assms by (simp add: unat_of_nat)
  then show ?thesis
    using assms by (simp add: ReadPacket_def Let_def word_less_nat_alt)
qed

lemma ReadPacket_oversized:
  assumes "2048 < length c" "length c < 2 ^ 16"
  shows "ReadPacket ((put_u16 (of_nat (length c)) @ c) @ rest) = (Err PacketTooLarge, c @ rest)"
proof -
  have "unat (of_nat (length c) :: u16) = length c" using assms by (simp add: unat_of_nat)
  then show ?thesis
    using assms by (simp add: ReadPacket_def Let_def word_less_nat_alt)
qed

lemma encodePacket_Ok:
  assumes "box_ok nb" "length plain \<le> 2048"
  shows "encodePacket nb k n plain =
    (Ok (put_u16 (of_nat (length plain + 16)) @ nb_Seal nb k n plain), incrNonce n)"
  using assms by (simp add: encodePacket_def encryptDataSymmetric_def box_okD Let_def)

lemma decodePacket_Seal:
  assumes "box_ok nb"
  shows "decodePacket nb k n (nb_Seal nb k n plain) = (Ok plain, incrNonce n)"
  using assms by (simp add: decodePacket_def decryptDataSymmetric_def box_okD)

lemma ReadPacket_encodePacket:
  assumes "box_ok nb" "length plain \<le> 2032" "encodePacket nb k n plain = (Ok pkt, n1)"
  shows "ReadPacket (pkt @ rest) = (Ok (nb_Seal nb k n plain), rest)" "n1 = incrNonce n"
  using ReadPacket_frame [of "nb_Seal nb k n plain" rest] assms
  by (auto simp: encodePacket_Ok box_okD)

lemma ReadPacket_shrinks: "ReadPacket r = (Ok c, r1) \<Longrightarrow> length r1 < length r"
  by (auto simp: ReadPacket_def ReadFull_def Let_def split: prod.splits res.splits option.splits if_splits
      dest!: read_full_SomeD)

section \<open>Properties\<close>

text \<open>Each parser returns what the corresponding builder packed: pings, pongs, connection
  notices, onion responses, out-of-band data and routing responses (whose builders panic on a key
  shorter than 32 bytes); a data packet keeps its connection number and its bytes, and numbers from
  240 on are refused.\<close>

theorem packet_roundtrips:
  "parsePing (buildPing i) = Some i \<and> parsePong (buildPong i) = Some i \<and>
   parseConnNotification (buildConnNotification b) = Some b \<and>
   parseDisconnNotification (buildDisconnNotification b) = Some b \<and>
   parseOnionResponse (buildOnionResponse data) = Some data \<and>
   map_option parseOOBRecv (buildOOBRecv pk data) =
     (if 32 \<le> length pk then Some (Some (take 32 pk, data)) else None) \<and>
   map_option parseRoutingResponse (buildRoutingResponse b pk) =
     (if 32 \<le> length pk then Some (Some (b + 16, take 32 pk)) else None) \<and>
   (if unat b < 240
    then buildDataPacket b data = Ok ((b + 16) # data) \<and> isDataPacket ((b + 16) # data) \<and>
         parseDataPacket ((b + 16) # data) = Some (b, data)
    else buildDataPacket b data = Err InvalidConnectionID)"
proof -
  have data: "unat b < 240 \<Longrightarrow> \<not> b + 16 < 16" using data_conn_ids(1) [of b] by simp
  show ?thesis
    using ping_kind.parse_build pong_kind.parse_build conn_kind.parse_build disconn_kind.parse_build
      onion_kind.parse_build data_conn_ids(1) [of b] data
    by (simp add: buildOOBRecv_def parseOOBRecv_def buildRoutingResponse_def parseRoutingResponse_def
        go_slice_def buildDataPacket_def isDataPacket_def parseDataPacket_def)
qed

text \<open>A plain packet of up to 2032 bytes, encrypted, is cut out of the stream by the reader and
  decrypted to itself, leaving the rest of the stream and both nonces advanced by one; one of 2033 to
  2048 bytes is accepted by the encoder and refused by the reader, with its body left in the stream.\<close>

theorem packet_size_limits:
  assumes "box_ok nb" "length plain \<le> 2048"
  shows "\<exists>pkt. encodePacket nb k n plain = (Ok pkt, incrNonce n) \<and>
    (if length plain \<le> 2032
     then \<exists>c. ReadPacket (pkt @ rest) = (Ok c, rest) \<and> decodePacket nb k n c = (Ok plain, incrNonce n)
     else ReadPacket (pkt @ rest) = (Err PacketTooLarge, drop 2 pkt @ rest))"
proof -
  let ?c = "nb_Seal nb k n plain"
  have len: "length ?c = length plain + 16" by (rule box_okD(2) [OF assms(1)])
  have "length plain \<le> 2032 \<Longrightarrow> ReadPacket ((put_u16 (of_nat (length ?c)) @ ?c) @ rest) = (Ok ?c, rest)"
    using len by (intro ReadPacket_frame) simp
  moreover have "\<not> length plain \<le> 2032 \<Longrightarrow>
      ReadPacket ((put_u16 (of_nat (length ?c)) @ ?c) @ rest) = (Err PacketTooLarge, ?c @ rest)"
    using len assms(2) by (intro ReadPacket_oversized) auto
  ultimately show ?thesis
    using encodePacket_Ok [OF assms, of k n] decodePacket_Seal [OF assms(1), of k n plain] len
    by (intro exI [of _ "put_u16 (of_nat (length plain + 16)) @ ?c"]) auto
qed

theorem packet_size_limits_witness:
  "\<exists>pkt. encodePacket demo_box (replicate 32 1) (replicate 24 0) (replicate 2040 9) =
      (Ok pkt, incrNonce (replicate 24 0)) \<and> ReadPacket (pkt @ []) = (Err PacketTooLarge, drop 2 pkt @ [])"
  using packet_size_limits [OF demo_box_ok, of "replicate 2040 9" "replicate 32 1" "replicate 24 0" "[]"]
  by simp

end
