(* ===== verification/Tcp_Handshake.thy ===== *)
theory Tcp_Handshake
  imports Tcp_Packet
begin

text \<open>
  The client's half of the TCP relay handshake (\<^verbatim>\<open>go-tox-tcpclient/handshake.go\<close>).  Fresh key pairs and
  nonces are arguments of the operation that draws them.
\<close>

abbreviation (input) "HandshakePlainSize \<equiv> (56 :: nat)"
abbreviation (input) "ServerHandshakeSize \<equiv> (96 :: nat)"
abbreviation (input) "ClientHandshakeSize \<equiv> (128 :: nat)"

record handshakeState =
  hs_serverPK :: bytes
  hs_selfPK :: bytes
  hs_selfSK :: bytes
  hs_initShr :: bytes
  hs_tempSK :: bytes
  hs_tempPK :: bytes
  hs_initNonce :: bytes
  hs_sentNonce :: bytes

datatype handshake_error = KeyGeneration | ResponseTooShort | HandshakeDecryption

definition newHandshakeState :: "nacl \<Rightarrow> bytes \<Rightarrow> bytes \<Rightarrow> bytes \<Rightarrow> handshakeState" where
  "newHandshakeState nb serverPK selfPK selfSK =
    \<lparr>hs_serverPK = serverPK, hs_selfPK = selfPK, hs_selfSK = selfSK,
     hs_initShr = beforeNm nb serverPK selfSK,
     hs_tempSK = replicate 32 0, hs_tempPK = replicate 32 0,
     hs_initNonce = replicate 24 0, hs_sentNonce = replicate 24 0\<rparr>"

text \<open>\<^verbatim>\<open>keys\<close> is the result of \<^verbatim>\<open>generateKeyPair\<close> (public, secret), \<^verbatim>\<open>sn\<close> and \<^verbatim>\<open>inn\<close> the two random nonces.\<close>

definition generateClientPacket ::
  "nacl \<Rightarrow> (bytes \<times> bytes) option \<Rightarrow> bytes \<Rightarrow> bytes \<Rightarrow> handshakeState
   \<Rightarrow> (handshake_error, bytes) res \<times> handshakeState" where
  "generateClientPacket nb keys sn inn hs = (case keys of
      None \<Rightarrow> (Err KeyGeneration, hs)
    | Some (pk, sk) \<Rightarrow>
        let hs1 = hs\<lparr>hs_tempPK := pk, hs_tempSK := sk, hs_sentNonce := sn, hs_initNonce := inn\<rparr>;
            plain = go_copy_at 32 (go_copy (replicate HandshakePlainSize 0) (hs_tempPK hs1)) (hs_sentNonce hs1);
            enc = encryptDataSymmetric nb (hs_initShr hs1) inn plain;
            pkt = go_copy (replicate ClientHandshakeSize 0) (take 32 (hs_selfPK hs1));
            pkt = go_copy_at 32 pkt (hs_initNonce hs1);
            pkt = go_copy_at 56 pkt enc
        in (Ok pkt, hs1))"

definition handleServerResponse ::
  "nacl \<Rightarrow> handshakeState \<Rightarrow> bytes \<Rightarrow> (handshake_error, bytes \<times> bytes) res" where
  "handleServerResponse nb hs resp =
    (if length resp < ServerHandshakeSize then Err ResponseTooShort
     else
       let tmpNonce = take 24 resp in
       case decryptDataSymmetric nb (hs_initShr hs) tmpNonce (take (96 - 24) (drop 24 resp)) of
         None \<Rightarrow> Err HandshakeDecryption
       | Some plain \<Rightarrow>
           (case go_slice plain 0 PublicKeySize of
              None \<Rightarrow> Panic
            | Some servTempPK \<Rightarrow>
                let recvNonce = go_copy (replicate 24 0) (drop PublicKeySize plain);
                    sessionKey = beforeNm nb servTempPK (hs_tempSK hs)
                in Ok (sessionKey, recvNonce)))"

section \<open>Lemmas\<close>

text \<open>The bytes of the client's packet: its long-term key, the nonce of the box, and the box with the
  temporary key and the nonce it will send with.\<close>

lemma generateClientPacket_bytes:
  assumes "box_ok nb" "length pk = 32" "length sn = 24" "length inn = 24" "length (hs_selfPK hs) = 32"
  shows "generateClientPacket nb (Some (pk, sk)) sn inn hs =
    (Ok (hs_selfPK hs @ inn @ nb_Seal nb (hs_initShr hs) inn (pk @ sn)),
     hs\<lparr>hs_tempPK := pk, hs_tempSK := sk, hs_sentNonce := sn, hs_initNonce := inn\<rparr>)"
  using assms box_okD(2) [OF assms(1), of "hs_initShr hs" inn "pk @ sn"]
  by (simp add: generateClientPacket_def Let_def go_copy_at_def go_copy_def encryptDataSymmetric_def)

lemma handleServerResponse_box:
  assumes "box_ok nb" "length spk = 32" "length rn = 24" "length tn = 24"
  shows "handleServerResponse nb hs (tn @ nb_Seal nb (hs_initShr hs) tn (spk @ rn)) =
    Ok (beforeNm nb spk (hs_tempSK hs), rn)"
  using assms box_okD [OF assms(1), of "hs_initShr hs" tn "spk @ rn"]
  by (simp add: handleServerResponse_def Let_def decryptDataSymmetric_def go_slice_def go_copy_def)

end
