(* ===== verification/Tcp_Client.thy ===== *)
theory Tcp_Client
  imports Tcp_Handshake
begin

text \<open>
  The Tox TCP relay client (\<^verbatim>\<open>go-tox-tcpclient/tcpclient.go\<close>).  The record holds the fields of
  \<^verbatim>\<open>TCPClient\<close>; the connection is whether it is open and the bytes written to it, the callbacks are whether
  they are set and the calls made so far.  Times are nanoseconds.  Each loop is one iteration as a
  function; an operation that waits on a channel is an option, None while it is blocked, and where a
  \<^verbatim>\<open>select\<close> has two ready cases the argument \<^verbatim>\<open>pick\<close> says which one runs.
\<close>

section \<open>State\<close>

datatype clientStatus =
    statusNoStatus | statusConnecting | statusUnconfirmed | statusConfirmed | statusDisconnected

datatype connStatus = connFree | connOffline | connOnline

record connSlot =
  slot_status :: connStatus
  slot_pubkey :: bytes

datatype tcp_event =
    RoutingResponseEv byte string
  | ConnectionStatusEv byte bool
  | DataEv byte bytes
  | OOBDataEv string bytes
  | DisconnectedEv

record TCPClient =
  tc_serverPK :: bytes
  tc_selfPK :: bytes
  tc_selfSK :: bytes
  tc_status :: clientStatus
  tc_conn :: bool
  tc_wire :: bytes
  tc_writeCh :: "bytes list"
  tc_done :: bool
  tc_shrkey :: bytes
  tc_sentNonce :: bytes
  tc_recvNonce :: bytes
  tc_pingID :: u64
  tc_lastPinged :: nat
  tc_conns :: "connSlot list"
  tc_OnRoutingResponse :: bool
  tc_OnConnectionStatus :: bool
  tc_OnData :: bool
  tc_OnOOBData :: bool
  tc_OnDisconnected :: bool
  tc_calls :: "tcp_event list"

datatype tcp_error =
    ErrInvalidKey | ErrPeerNotFound | ErrPacket packet_error | ErrHandshake handshake_error
  | ErrDial | ErrConnWrite | ErrConnRead

text \<open>\<^verbatim>\<open>New\<close>: a key that is no hex string panics; \<^verbatim>\<open>base\<close> is \<^verbatim>\<open>curve25519.ScalarBaseMult\<close>.\<close>

definition New :: "(bytes \<Rightarrow> bytes) \<Rightarrow> string \<Rightarrow> string \<Rightarrow> TCPClient option" where
  "New base serverPK selfSK = (case (hex_decode serverPK, hex_decode selfSK) of
      (Some pk, Some sk) \<Rightarrow>
        let sk = go_copy (replicate 32 0) sk in
        Some \<lparr>tc_serverPK = go_copy (replicate 32 0) pk, tc_selfPK = base sk, tc_selfSK = sk,
          tc_status = statusNoStatus, tc_conn = False, tc_wire = [], tc_writeCh = [], tc_done = False,
          tc_shrkey = replicate 32 0, tc_sentNonce = replicate 24 0, tc_recvNonce = replicate 24 0,
          tc_pingID = 0, tc_lastPinged = 0,
          tc_conns = replicate 240 \<lparr>slot_status = connFree, slot_pubkey = replicate 32 0\<rparr>,
          tc_OnRoutingResponse = False, tc_OnConnectionStatus = False, tc_OnData = False,
          tc_OnOOBData = False, tc_OnDisconnected = False, tc_calls = []\<rparr>
    | _ \<Rightarrow> None)"

section \<open>Sending\<close>

definition setStatus :: "clientStatus \<Rightarrow> TCPClient \<Rightarrow> TCPClient" where
  "setStatus s c = c\<lparr>tc_status := s\<rparr>"

definition sendPlaintext :: "bool \<Rightarrow> bytes \<Rightarrow> TCPClient \<Rightarrow> TCPClient option" where
  "sendPlaintext pick plain c =
    (if length (tc_writeCh c) < 64 \<and> (\<not> tc_done c \<or> pick) then Some (c\<lparr>tc_writeCh := tc_writeCh c @ [plain]\<rparr>)
     else if tc_done c then Some c
     else None)"

text \<open>\<^verbatim>\<open>ids\<close> are the random numbers drawn until one is not zero.\<close>

definition sendPing :: "bool \<Rightarrow> u64 list \<Rightarrow> nat \<Rightarrow> TCPClient \<Rightarrow> TCPClient option" where
  "sendPing pick ids now c = (case dropWhile (\<lambda>i. i = 0) ids of
      [] \<Rightarrow> None
    | i # _ \<Rightarrow> sendPlaintext pick (buildPing i) (c\<lparr>tc_pingID := i, tc_lastPinged := now\<rparr>))"

definition findConnID :: "bytes \<Rightarrow> TCPClient \<Rightarrow> byte option" where
  "findConnID pubkey c =
    (case filter (\<lambda>i. slot_status (tc_conns c ! i) \<noteq> connFree \<and> slot_pubkey (tc_conns c ! i) = pubkey)
        [0..<length (tc_conns c)] of
       [] \<Rightarrow> None
     | i # _ \<Rightarrow> Some (of_nat i))"

text \<open>The operations of the API return their error or the new state; \<^verbatim>\<open>Ok None\<close> is a call that is
  blocked on the full write queue.\<close>

definition RoutingRequest :: "bool \<Rightarrow> string \<Rightarrow> TCPClient \<Rightarrow> (tcp_error, TCPClient option) res" where
  "RoutingRequest pick pubkey c = (case hex_decode pubkey of
      None \<Rightarrow> Err ErrInvalidKey
    | Some b \<Rightarrow>
        (case go_slice b 0 PublicKeySize of
           None \<Rightarrow> Panic
         | Some pk \<Rightarrow>
             (case buildRoutingRequest pk of
                None \<Rightarrow> Panic
              | Some pkt \<Rightarrow> Ok (sendPlaintext pick pkt c))))"

definition SendData :: "bool \<Rightarrow> string \<Rightarrow> bytes \<Rightarrow> TCPClient \<Rightarrow> (tcp_error, TCPClient option) res" where
  "SendData pick pubkey data c = (case hex_decode pubkey of
      None \<Rightarrow> Err ErrInvalidKey
    | Some b \<Rightarrow>
        (case findConnID b c of
           None \<Rightarrow> Err ErrPeerNotFound
         | Some connID \<Rightarrow>
             (case buildDataPacket connID data of
                Err e \<Rightarrow> Err (ErrPacket e)
              | Panic \<Rightarrow> Panic
              | Ok pkt \<Rightarrow> Ok (sendPlaintext pick pkt c))))"

definition SendOOB :: "bool \<Rightarrow> string \<Rightarrow> bytes \<Rightarrow> TCPClient \<Rightarrow> (tcp_error, TCPClient option) res" where
  "SendOOB pick pubkey data c = (case hex_decode pubkey of
      None \<Rightarrow> Err ErrInvalidKey
    | Some b \<Rightarrow>
        (case go_slice b 0 PublicKeySize of
           None \<Rightarrow> Panic
         | Some pk \<Rightarrow>
             (case buildOOBSend pk data of
                Err e \<Rightarrow> Err (ErrPacket e)
              | Panic \<Rightarrow> Panic
              | Ok pkt \<Rightarrow> Ok (sendPlaintext pick pkt c))))"

definition SendOnionRequest :: "bool \<Rightarrow> bytes \<Rightarrow> TCPClient \<Rightarrow> TCPClient option" where
  "SendOnionRequest pick data c = sendPlaintext pick (buildOnionRequest data) c"

definition set_slot_status :: "nat \<Rightarrow> connStatus \<Rightarrow> TCPClient \<Rightarrow> TCPClient" where
  "set_slot_status i s c = c\<lparr>tc_conns := (tc_conns c)[i := (tc_conns c ! i)\<lparr>slot_status := s\<rparr>]\<rparr>"

definition DisconnectPeer :: "bool \<Rightarrow> string \<Rightarrow> TCPClient \<Rightarrow> (tcp_error, TCPClient option) res" where
  "DisconnectPeer pick pubkey c = (case hex_decode pubkey of
      None \<Rightarrow> Err ErrInvalidKey
    | Some b \<Rightarrow>
        (case findConnID b c of
           None \<Rightarrow> Err ErrPeerNotFound
         | Some connID \<Rightarrow>
             Ok (sendPlaintext pick (buildDisconnNotification (connID + NumReservedPorts))
                  (set_slot_status (unat connID) connFree c))))"

definition IsConnected :: "TCPClient \<Rightarrow> bool" where
  "IsConnected c \<longleftrightarrow> tc_status c = statusConfirmed"

section \<open>Receiving\<close>

definition handleDisconnect :: "TCPClient \<Rightarrow> TCPClient" where
  "handleDisconnect c =
    (let c1 = c\<lparr>tc_done := True, tc_conn := False, tc_status := statusDisconnected\<rparr>
     in if tc_OnDisconnected c then c1\<lparr>tc_calls := tc_calls c1 @ [DisconnectedEv]\<rparr> else c1)"

definition Close :: "TCPClient \<Rightarrow> TCPClient" where
  "Close c = c\<lparr>tc_done := True, tc_status := statusDisconnected\<rparr>"

definition emit :: "bool \<Rightarrow> tcp_event \<Rightarrow> TCPClient \<Rightarrow> TCPClient" where
  "emit isset e c = (if isset then c\<lparr>tc_calls := tc_calls c @ [e]\<rparr> else c)"

definition dispatchPacket :: "bool \<Rightarrow> bytes \<Rightarrow> TCPClient \<Rightarrow> TCPClient option" where
  "dispatchPacket pick plain c =
    (if length plain = 0 then Some c
     else if plain ! 0 = 4 then
       (case parsePing plain of
          Some i \<Rightarrow> sendPlaintext pick (buildPong i) c
        | None \<Rightarrow> Some c)
     else if plain ! 0 = 5 then
       (case parsePong plain of
          Some i \<Rightarrow> Some (if i \<noteq> 0 \<and> i = tc_pingID c then c\<lparr>tc_pingID := 0\<rparr> else c)
        | None \<Rightarrow> Some c)
     else if plain ! 0 = 1 then
       (case parseRoutingResponse plain of
          Some (connID, pk) \<Rightarrow>
            if NumReservedPorts \<le> connID \<and> unat (connID - NumReservedPorts) < NumClientConnections then
              let i = unat (connID - NumReservedPorts);
                  c1 = c\<lparr>tc_conns := (tc_conns c)[i := \<lparr>slot_status = connOffline,
                          slot_pubkey = go_copy (slot_pubkey (tc_conns c ! i)) pk\<rparr>]\<rparr>
              in Some (emit (tc_OnRoutingResponse c1)
                   (RoutingResponseEv (connID - NumReservedPorts) (hex_encode pk)) c1)
            else Some c
        | None \<Rightarrow> Some c)
     else if plain ! 0 = 2 then
       (case parseConnNotification plain of
          Some connID \<Rightarrow>
            if NumReservedPorts \<le> connID \<and> unat (connID - NumReservedPorts) < NumClientConnections then
              Some (emit (tc_OnConnectionStatus c)
                (ConnectionStatusEv (connID - NumReservedPorts) True)
                (set_slot_status (unat (connID - NumReservedPorts)) connOnline c))
            else Some c
        | None \<Rightarrow> Some c)
     else if plain ! 0 = 3 then
       (case parseDisconnNotification plain of
          Some connID \<Rightarrow>
            if NumReservedPorts \<le> connID \<and> unat (connID - NumReservedPorts) < NumClientConnections then
              let i = unat (connID - NumReservedPorts);
                  c1 = (if slot_status (tc_conns c ! i) = connOnline then set_slot_status i connOffline c else c)
              in Some (emit (tc_OnConnectionStatus c)
                   (ConnectionStatusEv (connID - NumReservedPorts) False) c1)
            else Some c
        | None \<Rightarrow> Some c)
     else if plain ! 0 = 7 then
       (case parseOOBRecv plain of
          Some (pk, data) \<Rightarrow> Some (emit (tc_OnOOBData c) (OOBDataEv (hex_encode pk) data) c)
        | None \<Rightarrow> Some c)
     else if plain ! 0 = 9 then Some c
     else if isDataPacket plain then
       (case parseDataPacket plain of
          Some (connID, data) \<Rightarrow> Some (emit (tc_OnData c) (DataEv connID data) c)
        | None \<Rightarrow> Some c)
     else Some c)"

section \<open>The loops\<close>

text \<open>One iteration each; the flag says whether the loop goes on.\<close>

definition writeLoop_step :: "nacl \<Rightarrow> bool \<Rightarrow> bool \<Rightarrow> TCPClient \<Rightarrow> (bool \<times> TCPClient) option" where
  "writeLoop_step nb pick write_ok c =
    (case tc_writeCh c of
       plain # queue \<Rightarrow>
         if tc_done c \<and> \<not> pick then Some (False, c)
         else
           let c1 = c\<lparr>tc_writeCh := queue\<rparr> in
           (case encodePacket nb (tc_shrkey c1) (tc_sentNonce c1) plain of
              (Ok pkt, nonce) \<Rightarrow>
                let c2 = c1\<lparr>tc_sentNonce := nonce\<rparr> in
                if \<not> tc_conn c2 then Some (False, c2)
                else if \<not> write_ok then Some (False, handleDisconnect c2)
                else Some (True, c2\<lparr>tc_wire := tc_wire c2 @ pkt\<rparr>)
            | (_, nonce) \<Rightarrow> Some (True, c1))
     | [] \<Rightarrow> if tc_done c then Some (False, c) else None)"

definition readLoop_step :: "nacl \<Rightarrow> bool \<Rightarrow> bytes \<Rightarrow> TCPClient \<Rightarrow> (bool \<times> TCPClient \<times> bytes) option" where
  "readLoop_step nb pick inp c = (case ReadPacket inp of
      (Ok data, rest) \<Rightarrow>
        (case decodePacket nb (tc_shrkey c) (tc_recvNonce c) data of
           (Ok plain, nonce) \<Rightarrow>
             map_option (\<lambda>c1. (True, c1, rest)) (dispatchPacket pick plain (c\<lparr>tc_recvNonce := nonce\<rparr>))
         | (_, nonce) \<Rightarrow> Some (True, c, rest))
    | (_, rest) \<Rightarrow> Some (False, handleDisconnect c, rest))"

definition pingLoop_step :: "bool \<Rightarrow> u64 list \<Rightarrow> nat \<Rightarrow> TCPClient \<Rightarrow> (bool \<times> TCPClient) option" where
  "pingLoop_step pick ids now c =
    (if tc_pingID c \<noteq> 0 \<and> 10 * 10 ^ 9 < now - tc_lastPinged c then Some (False, handleDisconnect c)
     else if tc_pingID c = 0 \<and> 30 * 10 ^ 9 < now - tc_lastPinged c then
       map_option (\<lambda>c1. (True, c1)) (sendPing pick ids now c)
     else Some (True, c))"

section \<open>Connecting\<close>

text \<open>The outcomes of the network calls are arguments: whether the dial and the write succeed and the
  bytes that arrive.  The loops start with the returned state.\<close>

definition Connect ::
  "nacl \<Rightarrow> (bytes \<times> bytes) option \<Rightarrow> bytes \<Rightarrow> bytes \<Rightarrow> bool \<Rightarrow> bool \<Rightarrow> bytes
   \<Rightarrow> bool \<Rightarrow> u64 list \<Rightarrow> nat \<Rightarrow> TCPClient \<Rightarrow> (tcp_error, bytes) res \<times> TCPClient option" where
  "Connect nb keys sn inn dial_ok write_ok inp pick ids now c =
    (case generateClientPacket nb keys sn inn (newHandshakeState nb (tc_serverPK c) (tc_selfPK c) (tc_selfSK c)) of
       (Ok clientPkt, hs) \<Rightarrow>
         if \<not> dial_ok then (Err ErrDial, Some (setStatus statusDisconnected c))
         else
           let c1 = c\<lparr>tc_conn := True, tc_status := statusConnecting\<rparr> in
           if \<not> write_ok then (Err ErrConnWrite, Some (setStatus statusDisconnected c1))
           else
             let c2 = setStatus statusUnconfirmed (c1\<lparr>tc_wire := tc_wire c1 @ clientPkt\<rparr>) in
             (case ReadFull 96 inp of
                (Ok resp, rest) \<Rightarrow>
                  (case handleServerResponse nb hs resp of
                     Ok (sk, rn) \<Rightarrow>
                       (Ok rest, sendPing pick ids now
                         (c2\<lparr>tc_shrkey := sk, tc_sentNonce := hs_sentNonce hs, tc_recvNonce := rn,
                             tc_status := statusConfirmed\<rparr>))
                   | Err e \<Rightarrow> (Err (ErrHandshake e), Some (setStatus statusDisconnected c2))
                   | Panic \<Rightarrow> (Panic, Some c2))
              | (_, rest) \<Rightarrow> (Err ErrConnRead, Some (setStatus statusDisconnected c2)))
     | (Err e, hs) \<Rightarrow> (Err (ErrHandshake e), Some c)
     | (Panic, hs) \<Rightarrow> (Panic, Some c))"

section \<open>A session\<close>

text \<open>The steps of a connected client: calls of the API, an iteration of one of the three loops as long
  as that loop runs, and \<^verbatim>\<open>Close\<close>.  The three flags say which of the write, read and ping loops run.\<close>

type_synonym session = "TCPClient \<times> bool \<times> bool \<times> bool"

inductive session_step :: "nacl \<Rightarrow> session \<Rightarrow> session \<Rightarrow> bool" for nb where
  s_routing: "RoutingRequest pick pubkey c = Ok (Some c1) \<Longrightarrow> session_step nb (c, w, r, p) (c1, w, r, p)"
| s_data: "SendData pick pubkey data c = Ok (Some c1) \<Longrightarrow> session_step nb (c, w, r, p) (c1, w, r, p)"
| s_oob: "SendOOB pick pubkey data c = Ok (Some c1) \<Longrightarrow> session_step nb (c, w, r, p) (c1, w, r, p)"
| s_onion: "SendOnionRequest pick data c = Some c1 \<Longrightarrow> session_step nb (c, w, r, p) (c1, w, r, p)"
| s_disconnect: "DisconnectPeer pick pubkey c = Ok (Some c1) \<Longrightarrow> session_step nb (c, w, r, p) (c1, w, r, p)"
| s_write: "writeLoop_step nb pick write_ok c = Some (go, c1) \<Longrightarrow> session_step nb (c, True, r, p) (c1, go, r, p)"
| s_read: "readLoop_step nb pick inp c = Some (go, c1, rest) \<Longrightarrow> session_step nb (c, w, True, p) (c1, w, go, p)"
| s_ping: "pingLoop_step pick ids now c = Some (go, c1) \<Longrightarrow> session_step nb (c, w, r, True) (c1, w, r, go)"
| s_close: "session_step nb (c, w, r, p) (Close c, w, r, p)"

text \<open>What every operation keeps: 240 slots with keys of 32 bytes, a queue within its capacity, nonces
  of 24 bytes, and a client whose channel is closed is disconnected.\<close>

definition client_inv :: "TCPClient \<Rightarrow> bool" where
  "client_inv c \<longleftrightarrow>
    length (tc_conns c) = 240 \<and> list_all (\<lambda>s. length (slot_pubkey s) = 32) (tc_conns c) \<and>
    length (tc_writeCh c) \<le> 64 \<and> length (tc_sentNonce c) = 24 \<and> length (tc_recvNonce c) = 24 \<and>
    (tc_done c \<longrightarrow> tc_status c = statusDisconnected)"

lemma sendPlaintext_cases:
  assumes "sendPlaintext pick plain c = Some c1"
  obtains "c1 = c" "tc_done c"
  | "c1 = c\<lparr>tc_writeCh := tc_writeCh c @ [plain]\<rparr>" "length (tc_writeCh c) < 64"
  using assms by (auto simp: sendPlaintext_def split: if_splits)

lemma sendPlaintext_inv [step_intros]:
  "sendPlaintext pick plain c = Some c1 \<Longrightarrow> client_inv c \<Longrightarrow> client_inv c1"
  by (erule sendPlaintext_cases) (auto simp: client_inv_def)

lemma set_slot_status_inv [step_intros]: "client_inv c \<Longrightarrow> client_inv (set_slot_status i s c)"
  by (cases "i < 240")
    (auto simp: client_inv_def set_slot_status_def list_all_length nth_list_update list_update_beyond)

lemma Close_inv [step_intros]: "client_inv c \<Longrightarrow> client_inv (Close c)"
  by (simp add: client_inv_def Close_def)

lemma handleDisconnect_inv [step_intros]: "client_inv c \<Longrightarrow> client_inv (handleDisconnect c)"
  by (simp add: client_inv_def handleDisconnect_def Let_def)

lemma emit_inv [step_intros]: "client_inv c \<Longrightarrow> client_inv (emit b e c)"
  by (simp add: client_inv_def emit_def)

lemma ping_fields_inv [step_intros]: "client_inv c \<Longrightarrow> client_inv (c\<lparr>tc_pingID := i, tc_lastPinged := t\<rparr>)"
  "client_inv c \<Longrightarrow> client_inv (c\<lparr>tc_pingID := i\<rparr>)"
  by (simp_all add: client_inv_def)

lemma routing_slot_inv [step_intros]:
  "client_inv c \<Longrightarrow> i < 240 \<Longrightarrow> client_inv (c\<lparr>tc_conns := (tc_conns c)[i := \<lparr>slot_status = s,
     slot_pubkey = go_copy (slot_pubkey (tc_conns c ! i)) pk\<rparr>]\<rparr>)"
  by (auto simp: client_inv_def list_all_length nth_list_update)

lemma dispatchPacket_inv [step_intros]:
  "dispatchPacket pick plain c = Some c1 \<Longrightarrow> client_inv c \<Longrightarrow> client_inv c1"
  by (auto simp: dispatchPacket_def Let_def split: if_splits option.splits
      intro: step_intros intro!: emit_inv routing_slot_inv)

lemma sendPing_inv [step_intros]:
  "sendPing pick ids now c = Some c1 \<Longrightarrow> client_inv c \<Longrightarrow> client_inv c1"
  by (auto simp: sendPing_def split: list.splits intro: sendPlaintext_inv ping_fields_inv)

lemma incrNonce_length [simp]: "length n = 24 \<Longrightarrow> length (incrNonce n) = 24"
  by (rule tcp_nonce.incr_length)

lemma encodePacket_nonce: "encodePacket nb k n p = (r, n1) \<Longrightarrow> length n = 24 \<Longrightarrow> length n1 = 24"
  by (auto simp: encodePacket_def Let_def split: if_splits)

lemma decodePacket_nonce: "decodePacket nb k n p = (r, n1) \<Longrightarrow> length n = 24 \<Longrightarrow> length n1 = 24"
  by (auto simp: decodePacket_def split: if_splits option.splits)

lemma writeLoop_step_inv [step_intros]:
  assumes "writeLoop_step nb pick write_ok c = Some (go, c1)" "client_inv c"
  shows "client_inv c1"
proof (cases "tc_writeCh c")
  case (Cons plain queue)
  obtain r nonce where e: "encodePacket nb (tc_shrkey c) (tc_sentNonce c) plain = (r, nonce)" by force
  have inv: "client_inv (c\<lparr>tc_writeCh := queue\<rparr>)" "client_inv (c\<lparr>tc_writeCh := queue, tc_sentNonce := nonce\<rparr>)"
    "client_inv (c\<lparr>tc_writeCh := queue, tc_sentNonce := nonce, tc_wire := w\<rparr>)" for w
    using assms(2) Cons encodePacket_nonce [OF e] by (auto simp: client_inv_def)
  show ?thesis
    using assms Cons e inv
    by (auto simp: writeLoop_step_def Let_def split: if_splits res.splits intro: handleDisconnect_inv)
qed (use assms in \<open>auto simp: writeLoop_step_def split: if_splits\<close>)

lemma readLoop_step_inv [step_intros]:
  assumes "readLoop_step nb pick inp c = Some (go, c1, rest)" "client_inv c"
  shows "client_inv c1"
proof -
  have "decodePacket nb (tc_shrkey c) (tc_recvNonce c) data = (r, nonce) \<Longrightarrow>
      client_inv (c\<lparr>tc_recvNonce := nonce\<rparr>)" for data r nonce
    using assms(2) decodePacket_nonce [of nb "tc_shrkey c" "tc_recvNonce c" data r nonce]
    by (auto simp: client_inv_def)
  then show ?thesis
    using assms by (auto simp: readLoop_step_def split: prod.splits res.splits
        intro: handleDisconnect_inv dispatchPacket_inv)
qed

lemma pingLoop_step_inv [step_intros]:
  "pingLoop_step pick ids now c = Some (go, c1) \<Longrightarrow> client_inv c \<Longrightarrow> client_inv c1"
  by (auto simp: pingLoop_step_def split: if_splits intro: handleDisconnect_inv sendPing_inv)

lemma api_inv [step_intros]:
  "RoutingRequest pick pubkey c = Ok (Some c1) \<Longrightarrow> client_inv c \<Longrightarrow> client_inv c1"
  "SendData pick pubkey data c = Ok (Some c1) \<Longrightarrow> client_inv c \<Longrightarrow> client_inv c1"
  "SendOOB pick pubkey data c = Ok (Some c1) \<Longrightarrow> client_inv c \<Longrightarrow> client_inv c1"
  "SendOnionRequest pick data c = Some c1 \<Longrightarrow> client_inv c \<Longrightarrow> client_inv c1"
  "DisconnectPeer pick pubkey c = Ok (Some c1) \<Longrightarrow> client_inv c \<Longrightarrow> client_inv c1"
  by (auto simp: RoutingRequest_def SendData_def SendOOB_def SendOnionRequest_def DisconnectPeer_def
      split: option.splits res.splits intro: sendPlaintext_inv set_slot_status_inv)

lemma session_step_inv:
  assumes "session_step nb (c, ls) (c1, ls1)" "client_inv c"
  shows "client_inv c1"
  using assms
  by (cases rule: session_step.cases) (auto intro: step_intros api_inv)

lemma New_inv: "New base serverPK selfSK = Some c \<Longrightarrow> client_inv c"
  by (auto simp: New_def client_inv_def Let_def list_all_iff split: option.splits)

lemma session_inv:
  "(session_step nb)\<^sup>*\<^sup>* s s1 \<Longrightarrow> client_inv (fst s) \<Longrightarrow> client_inv (fst s1)"
proof (induction rule: rtranclp_induct)
  case (step y z)
  then show ?case by (metis prod.collapse session_step_inv)
qed

section \<open>What is written to the connection\<close>

text \<open>The frames of a sequence of plain packets under consecutive nonces.\<close>

primrec frames :: "nacl \<Rightarrow> bytes \<Rightarrow> bytes \<Rightarrow> bytes list \<Rightarrow> bytes" where
  "frames nb k n [] = []"
| "frames nb k n (p # ps) = put_u16 (of_nat (length (nb_Seal nb k n p))) @ nb_Seal nb k n p @ frames nb k (incrNonce n) ps"

lemma frames_snoc:
  "frames nb k n (ps @ [p]) = frames nb k n ps @
     put_u16 (of_nat (length (nb_Seal nb k ((incrNonce ^^ length ps) n) p))) @ nb_Seal nb k ((incrNonce ^^ length ps) n) p"
  by (induction ps arbitrary: n) (simp_all add: funpow_swap1)

definition wire_inv :: "nacl \<Rightarrow> bytes \<Rightarrow> bytes \<Rightarrow> bytes \<Rightarrow> session \<Rightarrow> bool" where
  "wire_inv nb w0 k n0 s \<longleftrightarrow> (case s of (c, w, _) \<Rightarrow>
     tc_shrkey c = k \<and>
     (\<exists>ps. tc_wire c = w0 @ frames nb k n0 ps \<and> list_all (\<lambda>p. length p \<le> 2048) ps \<and>
        (w \<longrightarrow> tc_sentNonce c = (incrNonce ^^ length ps) n0)))"

definition same_channel :: "TCPClient \<Rightarrow> TCPClient \<Rightarrow> bool" where
  "same_channel c c1 \<longleftrightarrow>
    tc_wire c1 = tc_wire c \<and> tc_shrkey c1 = tc_shrkey c \<and> tc_sentNonce c1 = tc_sentNonce c"

lemma same_channel_refl: "same_channel c c"
  by (simp add: same_channel_def)

lemma same_channel_wire: "same_channel c c1 \<Longrightarrow> wire_inv nb w0 k n0 (c, w, r, p) \<Longrightarrow> wire_inv nb w0 k n0 (c1, w, r1, p1)"
  by (auto simp: same_channel_def wire_inv_def)

lemma sendPlaintext_channel: "sendPlaintext pick plain c = Some c1 \<Longrightarrow> same_channel c c1"
  by (erule sendPlaintext_cases) (auto simp: same_channel_def)

lemma sendPlaintext_channel':
  "sendPlaintext pick plain d = Some c1 \<Longrightarrow> same_channel c d \<Longrightarrow> same_channel c c1"
  using sendPlaintext_channel [of pick plain d c1] by (simp add: same_channel_def)

lemma handleDisconnect_channel: "same_channel c (handleDisconnect c)"
  by (simp add: same_channel_def handleDisconnect_def Let_def)

lemma dispatchPacket_channel: "dispatchPacket pick plain c = Some c1 \<Longrightarrow> same_channel c c1"
  by (auto simp: dispatchPacket_def Let_def emit_def set_slot_status_def same_channel_def
      split: if_splits option.splits dest!: sendPlaintext_channel)

lemma readLoop_step_channel: "readLoop_step nb pick inp c = Some (go, c1, rest) \<Longrightarrow> same_channel c c1"
  by (auto simp: readLoop_step_def same_channel_def handleDisconnect_def Let_def
      split: prod.splits res.splits if_splits dest!: dispatchPacket_channel)

lemma pingLoop_step_channel: "pingLoop_step pick ids now c = Some (go, c1) \<Longrightarrow> same_channel c c1"
  by (auto simp: pingLoop_step_def sendPing_def same_channel_def handleDisconnect_def Let_def
      split: if_splits list.splits dest!: sendPlaintext_channel)

lemma api_channel:
  "RoutingRequest pick pubkey c = Ok (Some c1) \<Longrightarrow> same_channel c c1"
  "SendData pick pubkey data c = Ok (Some c1) \<Longrightarrow> same_channel c c1"
  "SendOOB pick pubkey data c = Ok (Some c1) \<Longrightarrow> same_channel c c1"
  "SendOnionRequest pick data c = Some c1 \<Longrightarrow> same_channel c c1"
  "DisconnectPeer pick pubkey c = Ok (Some c1) \<Longrightarrow> same_channel c c1"
  by (auto simp: RoutingRequest_def SendData_def SendOOB_def SendOnionRequest_def DisconnectPeer_def
      set_slot_status_def same_channel_def split: option.splits res.splits dest!: sendPlaintext_channel)

lemma writeLoop_step_wire:
  assumes "box_ok nb" "writeLoop_step nb pick write_ok c = Some (go, c1)" "wire_inv nb w0 k n0 (c, True, r, p)"
  shows "wire_inv nb w0 k n0 (c1, go, r, p)"
proof (cases "tc_writeCh c")
  case (Cons plain queue)
  obtain ps where ps: "tc_shrkey c = k" "tc_wire c = w0 @ frames nb k n0 ps"
    "list_all (\<lambda>p. length p \<le> 2048) ps" "tc_sentNonce c = (incrNonce ^^ length ps) n0"
    using assms(3) by (auto simp: wire_inv_def)
  show ?thesis
  proof (cases "length plain \<le> 2048")
    case True
    have e: "encodePacket nb k (tc_sentNonce c) plain =
        (Ok (put_u16 (of_nat (length plain + 16)) @ nb_Seal nb k (tc_sentNonce c) plain), incrNonce (tc_sentNonce c))"
      by (rule encodePacket_Ok [OF assms(1) True])
    have len: "length (nb_Seal nb k (tc_sentNonce c) plain) = length plain + 16"
      by (rule box_okD(2) [OF assms(1)])
    have snoc: "frames nb k n0 (ps @ [plain]) = frames nb k n0 ps @ put_u16 (of_nat (length plain + 16))
        @ nb_Seal nb k (tc_sentNonce c) plain"
      using frames_snoc [of nb k n0 ps plain] ps(4) len by simp
    show ?thesis
      using assms(2) Cons e ps True snoc
      by (auto simp: writeLoop_step_def wire_inv_def handleDisconnect_def Let_def split: if_splits
          intro: exI [of _ "ps @ [plain]"] exI [of _ ps])
  next
    case False
    then have "encodePacket nb k (tc_sentNonce c) plain = (Err PacketTooLarge, tc_sentNonce c)"
      by (simp add: encodePacket_def)
    then show ?thesis
      using assms(2) Cons ps by (auto simp: writeLoop_step_def wire_inv_def Let_def split: if_splits)
  qed
qed (use assms in \<open>auto simp: writeLoop_step_def wire_inv_def split: if_splits\<close>)

lemma session_step_wire:
  assumes "box_ok nb" "session_step nb s s1" "wire_inv nb w0 k n0 s"
  shows "wire_inv nb w0 k n0 s1"
  using assms(2,3)
proof (cases rule: session_step.cases)
  case (s_write pick write_ok c go c1 r p)
  then show ?thesis using writeLoop_step_wire assms by blast
next
  case (s_close c w r p)
  then show ?thesis using assms(3) by (auto simp: wire_inv_def Close_def)
qed (use assms(3) in \<open>auto intro: same_channel_wire dest: api_channel readLoop_step_channel pingLoop_step_channel\<close>)

lemma session_wire:
  "(session_step nb)\<^sup>*\<^sup>* s s1 \<Longrightarrow> box_ok nb \<Longrightarrow> wire_inv nb w0 k n0 s \<Longrightarrow> wire_inv nb w0 k n0 s1"
  by (induction rule: rtranclp_induct) (auto intro: session_step_wire)

section \<open>The read loop\<close>

text \<open>The whole loop on the bytes that arrive before the connection ends; \<^verbatim>\<open>pick\<close> resolves each \<^verbatim>\<open>select\<close>.\<close>

lemma readLoop_step_shrinks:
  "readLoop_step nb pick inp c = Some (True, c1, rest) \<Longrightarrow> length rest < length inp"
  by (auto simp: readLoop_step_def split: prod.splits res.splits dest: ReadPacket_shrinks)

function readLoop :: "nacl \<Rightarrow> (bytes \<Rightarrow> bool) \<Rightarrow> bytes \<Rightarrow> TCPClient \<Rightarrow> TCPClient option" where
  "readLoop nb pick inp c = (case readLoop_step nb (pick inp) inp c of
      None \<Rightarrow> None
    | Some (False, c1, rest) \<Rightarrow> Some c1
    | Some (True, c1, rest) \<Rightarrow> readLoop nb pick rest c1)"
  by pat_completeness auto
termination
  by (relation "measure (\<lambda>(_, _, inp, _). length inp)") (auto dest: readLoop_step_shrinks)

declare readLoop.simps [simp del]

lemma readLoop_end: "readLoop nb pick [] c = Some (handleDisconnect c)"
  by (simp add: readLoop.simps readLoop_step_def ReadPacket_def ReadFull_def read_full_def)

lemma readLoop_frame:
  assumes "box_ok nb" "length plain \<le> 2032" "tc_shrkey c = k" "tc_recvNonce c = n"
    and "\<And>b. dispatchPacket b plain (c\<lparr>tc_recvNonce := incrNonce n\<rparr>) = Some c1"
  shows "readLoop nb pick (frames nb k n (plain # ps)) c = readLoop nb pick (frames nb k (incrNonce n) ps) c1"
proof -
  let ?s = "nb_Seal nb k n plain"
  have "length ?s \<le> 2048" using box_okD(2) [OF assms(1)] assms(2) by simp
  from ReadPacket_frame [OF this, of "frames nb k (incrNonce n) ps"]
  have "ReadPacket (frames nb k n (plain # ps)) = (Ok ?s, frames nb k (incrNonce n) ps)" by simp
  then show ?thesis
    using assms(3-5) decodePacket_Seal [OF assms(1), of k n plain]
    by (subst readLoop.simps) (simp add: readLoop_step_def)
qed

lemma dispatchPacket_data:
  assumes "unat connID < 240"
  shows "dispatchPacket pick ((connID + 16) # data) c = Some (emit (tc_OnData c) (DataEv connID data) c)"
proof -
  have ge: "16 \<le> connID + 16" using data_conn_ids(1) [OF assms] .
  define t where "t = connID + 16"
  have "16 \<le> t" using ge by (simp add: t_def)
  then have ne: "t \<noteq> 4" "t \<noteq> 5" "t \<noteq> 1" "t \<noteq> 2" "t \<noteq> 3" "t \<noteq> 7" "t \<noteq> 9" "\<not> t < 16"
    by (auto simp: word_le_nat_alt word_less_nat_alt)
  have "t - 16 = connID" by (simp add: t_def)
  then show ?thesis
    using ne ge unfolding t_def [symmetric]
    by (simp add: dispatchPacket_def isDataPacket_def parseDataPacket_def)
qed

lemma readLoop_data:
  assumes "box_ok nb" "list_all (\<lambda>(i, d). unat i < 240 \<and> length d < 2032) xs"
    and "tc_shrkey c = k" "tc_recvNonce c = n" "tc_OnData c"
  shows "readLoop nb pick (frames nb k n (map (\<lambda>(i, d). (i + 16) # d) xs)) c =
    Some (handleDisconnect (c\<lparr>tc_recvNonce := (incrNonce ^^ length xs) n,
      tc_calls := tc_calls c @ map (\<lambda>(i, d). DataEv i d) xs\<rparr>))"
  using assms(2-)
proof (induction xs arbitrary: c n)
  case Nil
  then show ?case by (cases c) (simp add: readLoop_end)
next
  case (Cons x xs)
  obtain i d where x: "x = (i, d)" by force
  let ?c1 = "c\<lparr>tc_recvNonce := incrNonce n, tc_calls := tc_calls c @ [DataEv i d]\<rparr>"
  have "dispatchPacket b ((i + 16) # d) (c\<lparr>tc_recvNonce := incrNonce n\<rparr>) = Some ?c1" for b
    using dispatchPacket_data [of i b d] Cons.prems x by (simp add: emit_def)
  then have "readLoop nb pick (frames nb k n (map (\<lambda>(i, d). (i + 16) # d) (x # xs))) c =
      readLoop nb pick (frames nb k (incrNonce n) (map (\<lambda>(i, d). (i + 16) # d) xs)) ?c1"
    using readLoop_frame [OF assms(1), of "(i + 16) # d" c k n ?c1 pick] Cons.prems x by simp
  then show ?case
    using Cons.IH [of ?c1 "incrNonce n"] Cons.prems x by (simp add: funpow_swap1)
qed

section \<open>The table of peers\<close>

text \<open>What the slots mean: for each connection number the key of the peer and whether it is online.\<close>

definition peer_table :: "TCPClient \<Rightarrow> nat \<rightharpoonup> bytes \<times> bool" where
  "peer_table c i = (if i < length (tc_conns c) \<and> slot_status (tc_conns c ! i) \<noteq> connFree
     then Some (slot_pubkey (tc_conns c ! i), slot_status (tc_conns c ! i) = connOnline) else None)"

lemma shifted_id:
  assumes "unat i < 240"
  shows "(16 :: byte) \<le> i + 16" "i + 16 - 16 = i"
  using data_conn_ids [OF assms] by simp_all

lemma emit_conns [simp]: "tc_conns (emit b e c) = tc_conns c"
  by (simp add: emit_def)

lemma dispatch_routing:
  assumes "client_inv c" "unat i < 240" "length pk = 32"
  shows "\<exists>c1. dispatchPacket pick (1 # (i + 16) # pk) c = Some c1 \<and>
    peer_table c1 = (peer_table c)(unat i \<mapsto> (pk, False))"
proof -
  have len: "length (tc_conns c) = 240" "length (slot_pubkey (tc_conns c ! unat i)) = 32"
    using assms by (auto simp: client_inv_def list_all_length)
  have p: "parseRoutingResponse (1 # (i + 16) # pk) = Some (i + 16, pk)"
    using assms(3) by (simp add: parseRoutingResponse_def)
  show ?thesis
    using len assms(2,3) shifted_id [OF assms(2)]
    by (auto simp: dispatchPacket_def p Let_def peer_table_def go_copy_def fun_eq_iff nth_list_update)
qed

lemma dispatch_online:
  assumes "client_inv c" "unat i < 240"
  shows "\<exists>c1. dispatchPacket pick (buildConnNotification (i + 16)) c = Some c1 \<and>
    peer_table c1 = (peer_table c)(unat i \<mapsto> (slot_pubkey (tc_conns c ! unat i), True))"
proof -
  have len: "length (tc_conns c) = 240" using assms by (simp add: client_inv_def)
  show ?thesis
    using len assms(2) shifted_id [OF assms(2)]
    by (auto simp: dispatchPacket_def buildConnNotification_def parseConnNotification_def set_slot_status_def
        peer_table_def fun_eq_iff nth_list_update)
qed

lemma dispatch_offline:
  assumes "client_inv c" "unat i < 240"
  shows "\<exists>c1. dispatchPacket pick (buildDisconnNotification (i + 16)) c = Some c1 \<and>
    peer_table c1 = (case peer_table c (unat i) of
       Some (pk, True) \<Rightarrow> (peer_table c)(unat i \<mapsto> (pk, False)) | _ \<Rightarrow> peer_table c)"
proof -
  have len: "length (tc_conns c) = 240" using assms by (simp add: client_inv_def)
  show ?thesis
    using len assms(2) shifted_id [OF assms(2)]
    by (auto simp: dispatchPacket_def buildDisconnNotification_def parseDisconnNotification_def
        set_slot_status_def peer_table_def fun_eq_iff nth_list_update Let_def)
qed

lemma findConnID_first:
  assumes "client_inv c" "i < 240" "peer_table c i = Some (pk, on)"
    and "\<And>j on'. j < i \<Longrightarrow> peer_table c j \<noteq> Some (pk, on')"
  shows "findConnID pk c = Some (of_nat i)"
proof -
  let ?P = "\<lambda>j. slot_status (tc_conns c ! j) \<noteq> connFree \<and> slot_pubkey (tc_conns c ! j) = pk"
  have len: "length (tc_conns c) = 240" using assms(1) by (simp add: client_inv_def)
  have "\<not> ?P j" if "j < i" for j
    using assms(4) [OF that, of "slot_status (tc_conns c ! j) = connOnline"] that assms(2) len
    by (auto simp: peer_table_def)
  then have "filter ?P [0..<i] = []" by (auto simp: filter_empty_conv)
  moreover have "?P i" using assms(3) by (auto simp: peer_table_def split: if_splits)
  moreover have "[0..<240] = [0..<i] @ i # [Suc i..<240]"
    using upt_add_eq_append [of 0 i "240 - i"] upt_conv_Cons [of i 240] assms(2) by simp
  ultimately show ?thesis by (simp add: findConnID_def len)
qed

section \<open>Connecting\<close>

lemma generateClientPacket_Ok:
  assumes "generateClientPacket nb keys sn inn hs = (Ok pkt, hs1)"
  shows "length pkt = 128" "hs_sentNonce hs1 = sn"
  using assms by (auto simp: generateClientPacket_def Let_def split: option.splits)

lemma handleServerResponse_nonce:
  "handleServerResponse nb hs resp = Ok (sk, rn) \<Longrightarrow> length rn = 24"
  by (auto simp: handleServerResponse_def Let_def split: if_splits option.splits)

lemma sendPing_channel: "sendPing pick ids now c = Some c1 \<Longrightarrow> same_channel c c1"
  by (auto simp: sendPing_def same_channel_def split: list.splits dest!: sendPlaintext_channel)

lemma Connect_OkD:
  assumes "Connect nb keys sn inn d w inp pick ids now c = (Ok rest, Some c1)" "client_inv c"
    and "\<not> tc_done c" "length sn = 24"
  shows "client_inv c1 \<and> (\<exists>pkt. length pkt = 128 \<and> tc_wire c1 = tc_wire c @ pkt) \<and> tc_sentNonce c1 = sn"
proof -
  obtain pkt hs where g: "generateClientPacket nb keys sn inn
      (newHandshakeState nb (tc_serverPK c) (tc_selfPK c) (tc_selfSK c)) = (Ok pkt, hs)"
    using assms(1) by (auto simp: Connect_def split: prod.splits res.splits)
  obtain resp rest' sk rn where r: "handleServerResponse nb hs resp = Ok (sk, rn)"
    and ping: "sendPing pick ids now (c\<lparr>tc_conn := True, tc_wire := tc_wire c @ pkt, tc_shrkey := sk,
        tc_sentNonce := hs_sentNonce hs, tc_recvNonce := rn, tc_status := statusConfirmed\<rparr>)
      = Some c1" (is "sendPing _ _ _ ?c = _")
    using assms(1) g
    by (auto simp: Connect_def setStatus_def Let_def split: prod.splits res.splits if_splits)
  have "client_inv ?c"
    using assms(2-4) handleServerResponse_nonce [OF r] generateClientPacket_Ok(2) [OF g]
    by (auto simp: client_inv_def)
  then show ?thesis
    using sendPing_inv [OF ping] sendPing_channel [OF ping] generateClientPacket_Ok [OF g]
    by (auto simp: same_channel_def)
qed

lemma New_fresh: "New base serverPK selfSK = Some c \<Longrightarrow> \<not> tc_done c \<and> tc_wire c = []"
  by (auto simp: New_def Let_def split: option.splits)

section \<open>Example states\<close>

definition demo_client :: TCPClient where
  "demo_client = the (New (\<lambda>a. a) [] [])"

definition demo_peers :: TCPClient where
  "demo_peers = demo_client\<lparr>tc_conns := (tc_conns demo_client)[0 := \<lparr>slot_status = connOffline, slot_pubkey = replicate 32 5\<rparr>]\<rparr>"

lemma demo_New: "New (\<lambda>a. a) [] [] = Some demo_client"
  by (simp add: demo_client_def New_def Let_def)

lemma demo_client_inv: "client_inv demo_client"
  by (rule New_inv [OF demo_New])

lemma demo_client_fields:
  "tc_writeCh demo_client = []" "\<not> tc_done demo_client" "tc_calls demo_client = []"
  "tc_conns demo_client = replicate 240 \<lparr>slot_status = connFree, slot_pubkey = replicate 32 0\<rparr>"
  "tc_serverPK demo_client = replicate 32 0" "tc_selfPK demo_client = replicate 32 0"
  "tc_selfSK demo_client = replicate 32 0"
  by (simp_all add: demo_client_def New_def Let_def go_copy_def)

lemma demo_peers_inv: "client_inv demo_peers" "tc_writeCh demo_peers = []" "\<not> tc_done demo_peers"
  using demo_client_inv
  by (auto simp: client_inv_def demo_peers_def demo_client_fields list_all_length nth_list_update)

lemma demo_peers_table: "peer_table demo_peers 0 = Some (replicate 32 5, False)"
  by (simp add: peer_table_def demo_peers_def demo_client_fields)

lemma demo_connect:
  "\<exists>c1. Connect demo_box (Some (replicate 32 1, replicate 32 2)) (replicate 24 3) (replicate 24 4)
     True True (replicate 96 0) True [7] 0 demo_client = (Ok [], Some c1)"
  by (simp add: Connect_def generateClientPacket_def newHandshakeState_def handleServerResponse_def
      decryptDataSymmetric_def beforeNm_def demo_box_def demo_tag_def Let_def go_slice_def ReadFull_def
      read_full_def sendPing_def sendPlaintext_def setStatus_def demo_client_fields zip_replicate)

section \<open>Properties\<close>



text \<open>C2: On the connection there is the 128-byte handshake packet and then nothing but frames: the
  encryptions of packets of at most 2048 bytes under the session key and consecutive nonces that
  start with the one the handshake announced, however calls, loops and disconnects interleave.\<close>

theorem tcp_client_wire:
  assumes "box_ok nb" "New base serverPK selfSK = Some c0"
    and "Connect nb keys sn inn d w inp pick ids now c0 = (Ok rest, Some c1)" "length sn = 24"
    and "(session_step nb)\<^sup>*\<^sup>* (c1, True, True, True) (c2, ls)"
  shows "\<exists>pkt ps. length pkt = 128 \<and> tc_wire c2 = pkt @ frames nb (tc_shrkey c2) sn ps \<and>
    list_all (\<lambda>p. length p \<le> 2048) ps"
proof -
  obtain pkt where c1: "length pkt = 128" "tc_wire c1 = pkt" "tc_sentNonce c1 = sn"
    using Connect_OkD [OF assms(3) New_inv [OF assms(2)] _ assms(4)] New_fresh [OF assms(2)] by auto
  have "wire_inv nb pkt (tc_shrkey c1) sn (c1, True, True, True)"
    using c1 by (auto simp: wire_inv_def intro!: exI [of _ "[]"])
  from session_wire [OF assms(5,1) this] show ?thesis
    using c1(1) by (auto simp: wire_inv_def split: prod.splits)
qed

theorem tcp_client_wire_witness:
  "\<exists>c0 c1 pkt ps. New (\<lambda>a. a) [] [] = Some c0 \<and>
    Connect demo_box (Some (replicate 32 1, replicate 32 2)) (replicate 24 3) (replicate 24 4)
      True True (replicate 96 0) True [7] 0 c0 = (Ok [], Some c1) \<and>
    tc_wire (Close c1) = pkt @ frames demo_box (tc_shrkey (Close c1)) (replicate 24 3) ps"
proof -
  obtain c1 where c1: "Connect demo_box (Some (replicate 32 1, replicate 32 2)) (replicate 24 3) (replicate 24 4)
      True True (replicate 96 0) True [7] 0 demo_client = (Ok [], Some c1)" using demo_connect by blast
  have "(session_step demo_box)\<^sup>*\<^sup>* (c1, True, True, True) (Close c1, True, True, True)"
    by (blast intro: s_close)
  from tcp_client_wire [OF demo_box_ok demo_New c1 _ this] c1 demo_New show ?thesis by auto
qed

text \<open>Data packets that arrive in frames under the receiver's nonces are handed to \<^verbatim>\<open>OnData\<close>, each
  with its connection number and bytes, in order and completely; when the stream ends the client is
  disconnected.\<close>

theorem data_delivered:
  assumes "box_ok nb" "list_all (\<lambda>(i, d). unat i < 240 \<and> length d < 2032) xs" "tc_OnData c"
  shows "readLoop nb pick (frames nb (tc_shrkey c) (tc_recvNonce c) (map (\<lambda>(i, d). (i + 16) # d) xs)) c =
    Some (handleDisconnect (c\<lparr>tc_recvNonce := (incrNonce ^^ length xs) (tc_recvNonce c),
      tc_calls := tc_calls c @ map (\<lambda>(i, d). DataEv i d) xs\<rparr>))"
  by (rule readLoop_data [OF assms(1,2) refl refl assms(3)])

theorem data_delivered_witness:
  "map_option tc_calls (readLoop demo_box (\<lambda>_. True)
     (frames demo_box (tc_shrkey demo_client) (tc_recvNonce demo_client) [[17, 5], [18, 6, 7]])
     (demo_client\<lparr>tc_OnData := True\<rparr>)) = Some [DataEv 1 [5], DataEv 2 [6, 7]]"
  using data_delivered [OF demo_box_ok, of "[(1, [5]), (2, [6, 7])]" "demo_client\<lparr>tc_OnData := True\<rparr>" "\<lambda>_. True"]
  by (simp add: handleDisconnect_def Let_def demo_client_def New_def)

text \<open>C29: The slots implement a table from connection numbers to peers: a routing response enters the
  peer as offline, a connect notice marks the number online, a disconnect notice marks an online peer
  offline, and nothing else in the table changes.\<close>

theorem dispatch_updates_table:
  assumes "client_inv c" "unat i < 240" "length pk = 32"
  shows "\<exists>c1 c2 c3.
    dispatchPacket b1 (1 # (i + 16) # pk) c = Some c1 \<and>
      peer_table c1 = (peer_table c)(unat i \<mapsto> (pk, False)) \<and>
    dispatchPacket b2 (buildConnNotification (i + 16)) c = Some c2 \<and>
      peer_table c2 = (peer_table c)(unat i \<mapsto> (slot_pubkey (tc_conns c ! unat i), True)) \<and>
    dispatchPacket b3 (buildDisconnNotification (i + 16)) c = Some c3 \<and>
      peer_table c3 = (case peer_table c (unat i) of
        Some (q, True) \<Rightarrow> (peer_table c)(unat i \<mapsto> (q, False)) | _ \<Rightarrow> peer_table c)"
  using dispatch_routing [OF assms] dispatch_online [OF assms(1,2)] dispatch_offline [OF assms(1,2)] by blast

theorem dispatch_updates_table_witness:
  "\<exists>c1. dispatchPacket True (1 # 19 # replicate 32 5) demo_client = Some c1 \<and>
    peer_table c1 3 = Some (replicate 32 5, False)"
  using dispatch_updates_table [OF demo_client_inv, of 3 "replicate 32 5" True True True] by auto

text \<open>Data for a peer goes out under the lowest connection number the table has for its key, as a
  data packet the other side parses back to that number and those bytes.\<close>

theorem SendData_addresses_peer:
  assumes "client_inv c" "i < 240" "peer_table c i = Some (pk, on)"
    and "\<And>j on'. j < i \<Longrightarrow> peer_table c j \<noteq> Some (pk, on')"
    and "length (tc_writeCh c) < 64" "\<not> tc_done c"
  shows "\<exists>pkt. SendData pick (hex_encode pk) data c = Ok (Some (c\<lparr>tc_writeCh := tc_writeCh c @ [pkt]\<rparr>)) \<and>
    parseDataPacket pkt = Some (of_nat i, data)"
proof -
  have i: "unat (of_nat i :: byte) = i" "unat (of_nat i :: byte) < 240" using assms(2) by (simp_all add: unat_of_nat)
  have "buildDataPacket (of_nat i) data = Ok ((of_nat i + 16) # data)"
    using i by (simp add: buildDataPacket_def)
  moreover have "parseDataPacket ((of_nat i + 16) # data) = Some (of_nat i, data)"
    using shifted_id [OF i(2)] by (simp add: parseDataPacket_def not_less)
  ultimately show ?thesis
    using findConnID_first [OF assms(1-4)] assms(5,6)
    by (intro exI [of _ "(of_nat i + 16) # data"]) (simp add: SendData_def sendPlaintext_def)
qed

theorem SendData_addresses_peer_witness:
  "\<exists>pkt. SendData True (hex_encode (replicate 32 5)) [9] (demo_peers) =
      Ok (Some (demo_peers\<lparr>tc_writeCh := [pkt]\<rparr>)) \<and> parseDataPacket pkt = Some (0, [9])"
  using SendData_addresses_peer [of demo_peers 0 "replicate 32 5" False True "[9]"] demo_peers_inv demo_peers_table
  by simp

end
