(* ===== verification/Relay_Socket.thy ===== *)
theory Relay_Socket
  imports Circuit_Messages Byte_Source
begin

text \<open>
  The rotating socket of \<^verbatim>\<open>relayhub/socket.go\<close>: one logical byte stream over a sequence of relayed
  connections, each of which the relay cuts off after a number of bytes.  A relayed connection is the
  bytes written to it and the bytes it still delivers; the connections a socket no longer uses are kept as
  its history.  What the network does (whether a connect or a write succeeds) is an argument.
\<close>

section \<open>State\<close>

text \<open>\<^verbatim>\<open>rc_eager\<close>: whether the last bytes come together with the end of the stream; \<^verbatim>\<open>rc_reset\<close>: whether the
  connection breaks after its last byte instead of ending.\<close>

record RelayedConn =
  rc_written :: bytes
  rc_input :: bytes
  rc_eager :: bool
  rc_reset :: bool

record RelaySocket =
  rs_id :: bytes
  rs_ch :: "RelayedConn list"
  rs_client :: bool
  rs_dstPeer :: bytes
  rs_limitBytes :: int
  rs_cur :: "RelayedConn option"
  rs_writeOnCur :: int
  rs_cancelled :: bool
  rs_closed :: bool
  rs_readTotal :: int
  rs_writeTotal :: int
  rs_rotCount :: int
  rs_closeSignal :: bool
  rs_past :: "RelayedConn list"

datatype socket_error =
    ClosedPipe | NoClient | ConnectFailed | SendIDFailed | ConnWriteError nat | ConnReadError | SocketEOF | WouldBlock

text \<open>The socket identifiers: \<^verbatim>\<open>sock0.\<close> and a time stamp, which is drawn again, with another prefix,
  while it repeats the last identifier.  The list holds the time stamps the clock gives; None is a
  clock that has not moved yet.\<close>

fun connID_retry :: "bytes \<Rightarrow> bytes \<Rightarrow> bytes list \<Rightarrow> bytes option" where
  "connID_retry lastID cid stamps =
    (if cid \<noteq> lastID then Some cid
     else case stamps of [] \<Rightarrow> None | ts # stamps1 \<Rightarrow> connID_retry lastID (ascii ''sock.'' @ ts) stamps1)"

declare connID_retry.simps [simp del]

definition generateConnID :: "bytes \<Rightarrow> bytes \<Rightarrow> bytes list \<Rightarrow> bytes option" where
  "generateConnID lastID ts stamps = connID_retry lastID (ascii ''sock0.'' @ ts) stamps"

text \<open>\<^verbatim>\<open>limit\<close> is the limit the relay granted, if any; \<^verbatim>\<open>int64(limit.Data)\<close> is signed.\<close>

definition newRelaySocketWithID :: "bytes \<Rightarrow> Limit option option \<Rightarrow> RelaySocket" where
  "newRelaySocketWithID i client =
    \<lparr>rs_id = i, rs_ch = [], rs_client = (client \<noteq> None), rs_dstPeer = [],
     rs_limitBytes = (case client of Some (Some limit) \<Rightarrow> sint (Limit_Data limit) | _ \<Rightarrow> 0),
     rs_cur = None, rs_writeOnCur = 0, rs_cancelled = False, rs_closed = False,
     rs_readTotal = 0, rs_writeTotal = 0, rs_rotCount = 0, rs_closeSignal = False, rs_past = []\<rparr>"

section \<open>Writing\<close>

text \<open>A new relayed connection on which the socket identifier has been sent.  \<^verbatim>\<open>None\<close> is a failed
  \<^verbatim>\<open>ConnectThroughRelay\<close>; the flag says whether sending the identifier succeeds.\<close>

type_synonym dial = "(RelayedConn \<times> bool) option"

definition send_id :: "bytes \<Rightarrow> RelayedConn \<Rightarrow> RelayedConn" where
  "send_id i rc = rc\<lparr>rc_written := rc_written rc @ writePbMessage i\<rparr>"

text \<open>An assignment to \<^verbatim>\<open>s.cur\<close>; the connection it drops goes into the history.\<close>

definition set_cur :: "RelayedConn option \<Rightarrow> RelaySocket \<Rightarrow> RelaySocket" where
  "set_cur new s =
    s\<lparr>rs_past := rs_past s @ (case rs_cur s of None \<Rightarrow> [] | Some rc \<Rightarrow> [rc]), rs_cur := new\<rparr>"

definition RelaySocket_Connect :: "bytes \<Rightarrow> dial \<Rightarrow> RelaySocket \<Rightarrow> (socket_error, unit) res \<times> RelaySocket" where
  "RelaySocket_Connect dst d s =
    (let s1 = s\<lparr>rs_dstPeer := dst\<rparr> in
     if \<not> rs_client s1 then (Panic, s1)
     else case d of
       None \<Rightarrow> (Err ConnectFailed, s1)
     | Some (rc, ok) \<Rightarrow>
         if \<not> ok then (Err SendIDFailed, s1)
         else (Ok (), (set_cur (Some (send_id (rs_id s1) rc)) s1)\<lparr>rs_writeOnCur := int (length (rs_id s1)) + 1\<rparr>))"

definition rotateWrite :: "dial \<Rightarrow> RelaySocket \<Rightarrow> (socket_error, unit) res \<times> RelaySocket" where
  "rotateWrite d s =
    (let s1 = (if rs_cur s \<noteq> None then s\<lparr>rs_rotCount := rs_rotCount s + 1\<rparr> else s) in
     if \<not> rs_client s1 then (Err NoClient, s1)
     else case d of
       None \<Rightarrow> (Err ConnectFailed, s1)
     | Some (rc, ok) \<Rightarrow>
         if \<not> ok then (Err SendIDFailed, s1)
         else (Ok (), (set_cur (Some (send_id (rs_id s1) rc)) s1)\<lparr>rs_writeOnCur := int (length (rs_id s1)) + 1\<rparr>))"

text \<open>The write on the current connection: \<^verbatim>\<open>acc\<close> is the number of bytes the connection takes and
  \<^verbatim>\<open>fails\<close> whether it returns an error.\<close>

definition write_cur :: "nat \<Rightarrow> bool \<Rightarrow> bytes \<Rightarrow> RelaySocket \<Rightarrow> (socket_error, nat) res \<times> RelaySocket" where
  "write_cur acc fails p s =
    (let avail = (let len = int (length p); rem = rs_limitBytes s - rs_writeOnCur s in
                  if 0 < rs_limitBytes s \<and> rem < len then rem else len) in
     if avail < 0 then (Panic, s)
     else case rs_cur s of
       None \<Rightarrow> (Panic, s)
     | Some rc \<Rightarrow>
         let n = min acc (nat avail);
             rc1 = rc\<lparr>rc_written := rc_written rc @ take n p\<rparr>;
             s1 = s\<lparr>rs_cur := Some rc1, rs_writeOnCur := rs_writeOnCur s + int n,
                    rs_writeTotal := rs_writeTotal s + int n\<rparr>
         in if fails
            then (Err (ConnWriteError n), (set_cur None s1)\<lparr>rs_rotCount := rs_rotCount s1 + 1\<rparr>)
            else (Ok n, s1))"

definition RelaySocket_Write ::
  "dial \<Rightarrow> nat \<Rightarrow> bool \<Rightarrow> bytes \<Rightarrow> RelaySocket \<Rightarrow> (socket_error, nat) res \<times> RelaySocket" where
  "RelaySocket_Write d acc fails p s =
    (if rs_closed s then (Err ClosedPipe, s)
     else if rs_cur s = None \<or> (0 < rs_limitBytes s \<and> rs_limitBytes s \<le> rs_writeOnCur s) then
       (case rotateWrite d s of
          (Ok _, s1) \<Rightarrow> write_cur acc fails p s1
        | (Err e, s1) \<Rightarrow> (Err e, s1)
        | (Panic, s1) \<Rightarrow> (Panic, s1))
     else write_cur acc fails p s)"

definition Remaining :: "RelaySocket \<Rightarrow> int" where
  "Remaining s = (if rs_limitBytes s \<le> 0 then 2 ^ 62 else rs_limitBytes s - rs_writeOnCur s)"

section \<open>Reading\<close>

text \<open>A read of the connection: the bytes, and whether the stream has ended or broken.\<close>

datatype conn_state = ConnOpen | ConnEOF | ConnBroken

definition conn_Read :: "nat \<Rightarrow> RelayedConn \<Rightarrow> bytes \<times> conn_state \<times> RelayedConn" where
  "conn_Read len rc =
    (let xs = take len (rc_input rc); rest = drop len (rc_input rc)
     in (xs,
         if rc_input rc = [] \<or> (rc_eager rc \<and> rest = []) then (if rc_reset rc then ConnBroken else ConnEOF)
         else ConnOpen,
         rc\<lparr>rc_input := rest\<rparr>))"

text \<open>The \<^verbatim>\<open>select\<close> of \<^verbatim>\<open>acceptNext\<close> takes any case that is ready: \<^verbatim>\<open>pick\<close> is the choice of the scheduler, with
  the order of the source where the case it names is not ready.\<close>

datatype accept_case = CaseConn | CaseClose | CaseDone

definition ready_case :: "accept_case \<Rightarrow> RelaySocket \<Rightarrow> bool" where
  "ready_case c s = (case c of
     CaseConn \<Rightarrow> rs_ch s \<noteq> [] | CaseClose \<Rightarrow> rs_closeSignal s | CaseDone \<Rightarrow> rs_cancelled s)"

definition select_case :: "accept_case \<Rightarrow> RelaySocket \<Rightarrow> accept_case option" where
  "select_case pick s = find (\<lambda>c. ready_case c s) [pick, CaseConn, CaseClose, CaseDone]"

definition acceptNext :: "accept_case \<Rightarrow> RelaySocket \<Rightarrow> (socket_error, unit) res \<times> RelaySocket" where
  "acceptNext pick s =
    (if \<not> rs_client s then (Err NoClient, s)
     else case select_case pick s of
       None \<Rightarrow> (Err WouldBlock, s)
     | Some CaseConn \<Rightarrow> (Ok (), s\<lparr>rs_cur := Some (hd (rs_ch s)), rs_ch := tl (rs_ch s)\<rparr>)
     | Some CaseClose \<Rightarrow> (Err SocketEOF, s\<lparr>rs_closeSignal := False\<rparr>)
     | Some CaseDone \<Rightarrow> (Err SocketEOF, s))"

lemma acceptNext_cases:
  assumes "acceptNext pick s = (r, s1)"
  shows "(\<exists>conn ch. r = Ok () \<and> rs_client s \<and> rs_ch s = conn # ch \<and> s1 = s\<lparr>rs_cur := Some conn, rs_ch := ch\<rparr>) \<or>
    (\<exists>e. r = Err e \<and> (s1 = s \<or> s1 = s\<lparr>rs_closeSignal := False\<rparr>))"
  using assms
  by (cases "rs_ch s"; cases pick)
    (auto simp: acceptNext_def select_case_def ready_case_def split: if_splits)

text \<open>The loop of \<^verbatim>\<open>Read\<close>; each turn that does not return has used up a connection of the queue.\<close>

definition read_measure :: "RelaySocket \<Rightarrow> nat" where
  "read_measure s = 2 * length (rs_ch s) + (case rs_cur s of None \<Rightarrow> 0 | Some _ \<Rightarrow> 1)"

definition read_cur :: "nat \<Rightarrow> RelayedConn \<Rightarrow> RelaySocket \<Rightarrow> bytes \<times> conn_state \<times> RelaySocket" where
  "read_cur len rc s = (case conn_Read len rc of (xs, st, rc1) \<Rightarrow>
     let s1 = s\<lparr>rs_cur := Some rc1, rs_readTotal := rs_readTotal s + int (length xs)\<rparr>
     in (xs, st, if st = ConnEOF then (set_cur None s1)\<lparr>rs_rotCount := rs_rotCount s + 1\<rparr> else s1))"

lemma read_cur_measure:
  "(xs, ConnEOF, s1) = read_cur len rc s \<Longrightarrow> rs_cur s = Some rc \<Longrightarrow> read_measure s1 < read_measure s"
  by (auto simp: read_cur_def read_measure_def set_cur_def Let_def split: prod.splits if_splits)

lemma accept_measure:
  assumes "acceptNext pick s = (Ok u, s1)" "rs_cur s = None"
  shows "read_measure s1 < read_measure s"
  using acceptNext_cases [OF assms(1)] assms(2) by (auto simp: read_measure_def)

function Read_loop :: "(RelaySocket \<Rightarrow> accept_case) \<Rightarrow> nat \<Rightarrow> RelaySocket \<Rightarrow> (socket_error, bytes) res \<times> RelaySocket" where
  "Read_loop pick len s = (case rs_cur s of
      None \<Rightarrow>
        (case acceptNext (pick s) s of
           (Ok _, s1) \<Rightarrow> Read_loop pick len s1
         | (Err e, s1) \<Rightarrow> (Err e, s1)
         | (Panic, s1) \<Rightarrow> (Panic, s1))
    | Some rc \<Rightarrow>
        (case read_cur len rc s of (xs, st, s1) \<Rightarrow>
           if st = ConnEOF \<and> xs = [] then Read_loop pick len s1
           else if st = ConnBroken then (Err ConnReadError, s1)
           else (Ok xs, s1)))"
  by pat_completeness auto
termination
  by (relation "measure (\<lambda>(pick, len, s). read_measure s)")
    (auto dest: read_cur_measure accept_measure [OF sym])

declare Read_loop.simps [simp del]

definition RelaySocket_Read ::
  "(RelaySocket \<Rightarrow> accept_case) \<Rightarrow> nat \<Rightarrow> RelaySocket \<Rightarrow> (socket_error, bytes) res \<times> RelaySocket" where
  "RelaySocket_Read pick len s = (if rs_closed s then (Err ClosedPipe, s) else Read_loop pick len s)"

section \<open>Closing and dispatch\<close>

definition closeID :: "bytes \<Rightarrow> bytes option" where
  "closeID i = (if length i < 6 then None else Some (ascii ''close.'' @ drop 6 i))"

text \<open>\<^verbatim>\<open>Close\<close>: the message it sends (if the connect for it succeeds), and the state.  Removing the socket
  from the client's map is part of the client.\<close>

definition RelaySocket_Close :: "bool \<Rightarrow> RelaySocket \<Rightarrow> (bytes option \<times> RelaySocket) option" where
  "RelaySocket_Close connect_ok s =
    (if rs_closed s then Some (None, s)
     else
       let s1 = s\<lparr>rs_closed := True\<rparr>;
           fin = (\<lambda>s. set_cur None (s\<lparr>rs_cancelled := True\<rparr>)) in
       if 0 < length (rs_dstPeer s1) \<and> rs_client s1 then
         (case closeID (rs_id s1) of
            None \<Rightarrow> None
          | Some m \<Rightarrow> Some (if connect_ok then Some (writePbMessage m) else None, fin s1))
       else Some (None, fin s1))"

definition signalClose :: "RelaySocket \<Rightarrow> RelaySocket" where
  "signalClose s = s\<lparr>rs_closeSignal := True\<rparr>"

definition dispatchIncoming :: "RelayedConn \<Rightarrow> RelaySocket \<Rightarrow> RelaySocket" where
  "dispatchIncoming conn s = (if length (rs_ch s) < 8 then s\<lparr>rs_ch := rs_ch s @ [conn]\<rparr> else s)"

section \<open>The budget of a connection\<close>

text \<open>The identifier costs its length and one length byte, as \<^verbatim>\<open>writeOnCur\<close> assumes, when it is shorter
  than 128 bytes.\<close>

lemma writePbMessage_short:
  assumes "length i < 128"
  shows "length (writePbMessage i) = length i + 1"
proof -
  have "(of_nat (length i) :: u64) < 0x80" using assms by (simp add: word_less_nat_alt unat_of_nat)
  then show ?thesis by (simp add: writePbMessage_def encodeVarint_small)
qed

text \<open>What \<^verbatim>\<open>writeOnCur\<close> means: a bound on the bytes written on the current connection.  It is not reset
  when a connection is taken from the queue, so it need not be exact.  No connection carries more than
  the limit.\<close>

definition within :: "int \<Rightarrow> RelayedConn \<Rightarrow> bool" where
  "within lim rc \<longleftrightarrow> lim \<le> 0 \<or> int (length (rc_written rc)) \<le> lim"

definition budget_inv :: "int \<Rightarrow> RelaySocket \<Rightarrow> bool" where
  "budget_inv lim s \<longleftrightarrow>
    rs_limitBytes s = lim \<and> length (rs_id s) < 128 \<and> 0 \<le> rs_writeOnCur s \<and>
    (0 < rs_limitBytes s \<longrightarrow> int (length (rs_id s)) + 1 \<le> rs_limitBytes s) \<and>
    list_all (within (rs_limitBytes s)) (rs_past s) \<and>
    list_all (\<lambda>rc. rc_written rc = []) (rs_ch s) \<and>
    (case rs_cur s of None \<Rightarrow> True
     | Some rc \<Rightarrow> within (rs_limitBytes s) rc \<and> int (length (rc_written rc)) \<le> rs_writeOnCur s)"

definition fresh_dial :: "dial \<Rightarrow> bool" where
  "fresh_dial d \<longleftrightarrow> (case d of None \<Rightarrow> True | Some (rc, _) \<Rightarrow> rc_written rc = [])"

lemma budget_set_cur:
  assumes "budget_inv lim s" "rc_written rc = []"
  shows "budget_inv lim ((set_cur (Some (send_id (rs_id s) rc)) s)\<lparr>rs_writeOnCur := int (length (rs_id s)) + 1\<rparr>)"
  using assms writePbMessage_short [of "rs_id s"]
  by (auto simp: budget_inv_def set_cur_def send_id_def within_def split: option.splits)

lemma budget_irrelevant:
  assumes "budget_inv lim s"
  shows "budget_inv lim (s\<lparr>rs_dstPeer := dst\<rparr>)" "budget_inv lim (s\<lparr>rs_rotCount := n\<rparr>)"
    "budget_inv lim (s\<lparr>rs_closeSignal := b\<rparr>)" "budget_inv lim (set_cur None s)"
  using assms by (auto simp: budget_inv_def set_cur_def split: option.splits)

lemma RelaySocket_Connect_budget [step_intros]:
  assumes "budget_inv lim s" "fresh_dial d" "RelaySocket_Connect dst d s = (r, s1)"
  shows "budget_inv lim s1"
  using assms(2,3) budget_set_cur [of lim "s\<lparr>rs_dstPeer := dst\<rparr>"] budget_irrelevant [OF assms(1)]
  by (auto simp: RelaySocket_Connect_def Let_def fresh_dial_def split: option.splits if_splits)

lemma rotateWrite_budget [step_intros]:
  assumes "budget_inv lim s" "fresh_dial d" "rotateWrite d s = (r, s1)"
  shows "budget_inv lim s1"
  using assms budget_set_cur [of lim s] budget_set_cur [of lim "s\<lparr>rs_rotCount := rs_rotCount s + 1\<rparr>"]
    budget_irrelevant [OF assms(1)]
  by (auto simp: rotateWrite_def Let_def fresh_dial_def split: option.splits if_splits)

text \<open>How many bytes of \<^verbatim>\<open>p\<close> a write may put on the current connection.\<close>

definition avail_of :: "bytes \<Rightarrow> RelaySocket \<Rightarrow> int" where
  "avail_of p s = (let len = int (length p); rem = rs_limitBytes s - rs_writeOnCur s in
     if 0 < rs_limitBytes s \<and> rem < len then rem else len)"

lemma write_cur_eq:
  "write_cur acc fails p s =
    (if avail_of p s < 0 then (Panic, s)
     else case rs_cur s of
       None \<Rightarrow> (Panic, s)
     | Some rc \<Rightarrow>
         let n = min acc (nat (avail_of p s));
             s1 = s\<lparr>rs_cur := Some (rc\<lparr>rc_written := rc_written rc @ take n p\<rparr>),
                    rs_writeOnCur := rs_writeOnCur s + int n, rs_writeTotal := rs_writeTotal s + int n\<rparr>
         in if fails then (Err (ConnWriteError n), (set_cur None s1)\<lparr>rs_rotCount := rs_rotCount s1 + 1\<rparr>)
            else (Ok n, s1))"
  unfolding write_cur_def avail_of_def Let_def by (simp split: option.split)

lemma avail_bounds:
  "avail_of p s \<le> int (length p)" "0 < rs_limitBytes s \<Longrightarrow> avail_of p s \<le> rs_limitBytes s - rs_writeOnCur s"
  by (auto simp: avail_of_def Let_def)

lemma write_cur_budget [step_intros]:
  assumes "budget_inv lim s" "write_cur acc fails p s = (r, s1)"
  shows "budget_inv lim s1"
proof (cases "avail_of p s < 0 \<or> rs_cur s = None")
  case False
  then obtain rc where rc: "rs_cur s = Some rc" "0 \<le> avail_of p s" by auto
  define n where "n = min acc (nat (avail_of p s))"
  define s2 where "s2 = s\<lparr>rs_cur := Some (rc\<lparr>rc_written := rc_written rc @ take n p\<rparr>),
    rs_writeOnCur := rs_writeOnCur s + int n, rs_writeTotal := rs_writeTotal s + int n\<rparr>"
  have "int n \<le> avail_of p s" "n \<le> length p" using rc(2) avail_bounds(1) [of p s] by (auto simp: n_def)
  then have "budget_inv lim s2"
    using assms(1) rc avail_bounds(2) [of s p] by (auto simp: budget_inv_def within_def s2_def)
  then show ?thesis
    using assms(2) rc budget_irrelevant [of lim s2] budget_irrelevant(2) [of lim "set_cur None s2"]
    by (auto simp: write_cur_eq Let_def n_def [symmetric] s2_def [symmetric] split: if_splits)
qed (use assms in \<open>auto simp: write_cur_eq split: if_splits\<close>)

lemma RelaySocket_Write_budget [step_intros]:
  assumes "budget_inv lim s" "fresh_dial d" "RelaySocket_Write d acc fails p s = (r, s1)"
  shows "budget_inv lim s1"
  using assms
  by (auto simp: RelaySocket_Write_def split: if_splits prod.splits res.splits
      intro: write_cur_budget rotateWrite_budget)

lemma acceptNext_budget [step_intros]:
  assumes "acceptNext pick s = (r, s1)" "rs_cur s = None" "budget_inv lim s"
  shows "budget_inv lim s1"
  using acceptNext_cases [OF assms(1)] assms(2,3) by (auto simp: budget_inv_def within_def)

lemma read_cur_budget [step_intros]:
  "read_cur len rc s = (xs, st, s1) \<Longrightarrow> rs_cur s = Some rc \<Longrightarrow> budget_inv lim s \<Longrightarrow> budget_inv lim s1"
  by (auto simp: read_cur_def conn_Read_def Let_def budget_inv_def set_cur_def within_def split: if_splits)

lemma Read_loop_budget [step_intros]: "Read_loop pick len s = (r, s1) \<Longrightarrow> budget_inv lim s \<Longrightarrow> budget_inv lim s1"
proof (induction pick len s arbitrary: r s1 rule: Read_loop.induct)
  case (1 pick len s)
  show ?case
  proof (cases "rs_cur s")
    case None
    obtain a s2 where "acceptNext (pick s) s = (a, s2)" by force
    then show ?thesis using 1 None acceptNext_budget
      by (subst (asm) Read_loop.simps) (auto split: res.splits)
  next
    case (Some rc)
    obtain xs st s2 where "read_cur len rc s = (xs, st, s2)" using prod_cases3 by blast
    then show ?thesis using 1 Some read_cur_budget
      by (subst (asm) Read_loop.simps) (auto split: if_splits)
  qed
qed

lemma RelaySocket_Close_budget [step_intros]:
  "RelaySocket_Close ok s = Some (m, s1) \<Longrightarrow> budget_inv lim s \<Longrightarrow> budget_inv lim s1"
  by (auto simp: RelaySocket_Close_def Let_def budget_inv_def set_cur_def split: if_splits option.splits)

text \<open>What can happen to a socket.  A connection that the dispatcher hands over has had nothing written
  on it by the socket.\<close>

inductive socket_step :: "RelaySocket \<Rightarrow> RelaySocket \<Rightarrow> bool" where
  step_Connect: "fresh_dial d \<Longrightarrow> RelaySocket_Connect dst d s = (r, s1) \<Longrightarrow> socket_step s s1"
| step_Write: "fresh_dial d \<Longrightarrow> RelaySocket_Write d acc fails p s = (r, s1) \<Longrightarrow> socket_step s s1"
| step_Read: "RelaySocket_Read pick len s = (r, s1) \<Longrightarrow> socket_step s s1"
| step_Close: "RelaySocket_Close ok s = Some (m, s1) \<Longrightarrow> socket_step s s1"
| step_signalClose: "socket_step s (signalClose s)"
| step_dispatch: "rc_written conn = [] \<Longrightarrow> socket_step s (dispatchIncoming conn s)"
| step_cancel: "socket_step s (s\<lparr>rs_cancelled := True\<rparr>)"

lemma budget_events:
  assumes "budget_inv lim s"
  shows "budget_inv lim (signalClose s)" "rc_written conn = [] \<Longrightarrow> budget_inv lim (dispatchIncoming conn s)"
    "budget_inv lim (s\<lparr>rs_cancelled := True\<rparr>)"
  using assms by (auto simp: signalClose_def dispatchIncoming_def budget_inv_def split: option.splits)

lemma socket_step_budget: "socket_step s t \<Longrightarrow> budget_inv lim s \<Longrightarrow> budget_inv lim t"
proof (induction rule: socket_step.induct)
  case (step_Read pick len s r s1)
  then show ?case by (auto simp: RelaySocket_Read_def split: if_splits intro: Read_loop_budget)
qed (blast intro: budget_events RelaySocket_Connect_budget RelaySocket_Write_budget RelaySocket_Close_budget)+

lemma socket_steps_budget: "socket_step\<^sup>*\<^sup>* s t \<Longrightarrow> budget_inv lim s \<Longrightarrow> budget_inv lim t"
  by (induction rule: rtranclp_induct) (auto intro: socket_step_budget)

text \<open>The connections a socket has used, the current one last.\<close>

definition conns :: "RelaySocket \<Rightarrow> RelayedConn list" where
  "conns s = rs_past s @ (case rs_cur s of None \<Rightarrow> [] | Some rc \<Rightarrow> [rc])"


section \<open>The stream across connections\<close>

text \<open>What a write reports as written.\<close>

definition accepted :: "bytes \<Rightarrow> (socket_error, nat) res \<Rightarrow> bytes" where
  "accepted p r = (case r of Ok n \<Rightarrow> take n p | Err (ConnWriteError n) \<Rightarrow> take n p | _ \<Rightarrow> [])"

text \<open>A socket that only writes: each of its connections starts with the identifier, and what follows on
  them is the stream.\<close>

definition dialed :: "RelaySocket \<Rightarrow> bool" where
  "dialed s \<longleftrightarrow> list_all (\<lambda>rc. \<exists>q. rc_written rc = writePbMessage (rs_id s) @ q) (conns s)"

definition sent :: "RelaySocket \<Rightarrow> bytes" where
  "sent s = concat (map (\<lambda>rc. drop (length (writePbMessage (rs_id s))) (rc_written rc)) (conns s))"

lemma conns_set_cur: "conns (set_cur new s) = conns s @ (case new of None \<Rightarrow> [] | Some rc \<Rightarrow> [rc])"
  by (simp add: conns_def set_cur_def split: option.split)

lemma conns_irrelevant [simp]:
  "conns (s\<lparr>rs_writeOnCur := k\<rparr>) = conns s" "conns (s\<lparr>rs_rotCount := k\<rparr>) = conns s"
  "conns (s\<lparr>rs_dstPeer := dst\<rparr>) = conns s" "conns (s\<lparr>rs_writeTotal := k\<rparr>) = conns s"
  by (simp_all add: conns_def)

lemma set_cur_fields [simp]: "rs_id (set_cur new s) = rs_id s" "rs_rotCount (set_cur new s) = rs_rotCount s"
  by (simp_all add: set_cur_def)

lemma rotateWrite_stream:
  assumes "dialed s" "fresh_dial d" "rotateWrite d s = (r, s1)"
  shows "dialed s1 \<and> rs_id s1 = rs_id s \<and> sent s1 = sent s \<and> (r = Ok () \<longrightarrow> rs_cur s1 \<noteq> None)"
  using assms
  by (auto simp: rotateWrite_def Let_def fresh_dial_def dialed_def sent_def conns_set_cur send_id_def
      split: option.splits if_splits) (simp_all add: set_cur_def)

lemma write_cur_stream:
  assumes "dialed s" "write_cur acc fails p s = (r, s1)"
  shows "dialed s1 \<and> rs_id s1 = rs_id s \<and> sent s1 = sent s @ accepted p r"
proof (cases "avail_of p s < 0 \<or> rs_cur s = None")
  case False
  then obtain rc where rc: "rs_cur s = Some rc" "0 \<le> avail_of p s" by auto
  define n where "n = min acc (nat (avail_of p s))"
  define s2 where "s2 = s\<lparr>rs_cur := Some (rc\<lparr>rc_written := rc_written rc @ take n p\<rparr>),
    rs_writeOnCur := rs_writeOnCur s + int n, rs_writeTotal := rs_writeTotal s + int n\<rparr>"
  have s2: "dialed s2" "rs_id s2 = rs_id s" "sent s2 = sent s @ take n p"
    using assms(1) rc by (auto simp: s2_def dialed_def sent_def conns_def)
  then have "dialed (set_cur None s2)" "sent (set_cur None s2) = sent s @ take n p"
    by (auto simp: dialed_def sent_def conns_set_cur)
  then show ?thesis
    using assms(2) rc s2
    by (auto simp: write_cur_eq Let_def n_def [symmetric] s2_def [symmetric] accepted_def dialed_def sent_def
        split: if_splits)
qed (use assms in \<open>auto simp: write_cur_eq accepted_def split: if_splits\<close>)

lemma RelaySocket_Write_stream:
  assumes "dialed s" "fresh_dial d" "RelaySocket_Write d acc fails p s = (r, s1)"
  shows "dialed s1 \<and> rs_id s1 = rs_id s \<and> sent s1 = sent s @ accepted p r"
proof (cases "rotateWrite d s")
  case (Pair a s2)
  have rot: "dialed s2" "rs_id s2 = rs_id s" "sent s2 = sent s" "\<And>e. a = Err e \<Longrightarrow> accepted p (Err e) = []"
    using rotateWrite_stream [OF assms(1,2) Pair] Pair
    by (auto simp: rotateWrite_def accepted_def Let_def split: option.splits if_splits)
  show ?thesis
    using assms(3) Pair rot write_cur_stream [OF assms(1)] write_cur_stream [OF rot(1)] assms(1)
    by (auto simp: RelaySocket_Write_def accepted_def split: if_splits res.splits)
qed

text \<open>A client that writes one buffer after another, and what it was told has been written.\<close>

type_synonym write_call = "dial \<times> nat \<times> bool \<times> bytes"

fun write_calls :: "write_call list \<Rightarrow> RelaySocket \<Rightarrow> bytes \<times> RelaySocket" where
  "write_calls [] s = ([], s)"
| "write_calls ((d, acc, fails, p) # calls) s =
    (case RelaySocket_Write d acc fails p s of (r, s1) \<Rightarrow>
       case write_calls calls s1 of (bs, s2) \<Rightarrow> (accepted p r @ bs, s2))"

lemma write_calls_stream:
  "dialed s \<Longrightarrow> list_all (\<lambda>(d, _). fresh_dial d) calls \<Longrightarrow> write_calls calls s = (bs, s1) \<Longrightarrow>
   dialed s1 \<and> rs_id s1 = rs_id s \<and> sent s1 = sent s @ bs"
proof (induction calls s arbitrary: bs s1 rule: write_calls.induct)
  case (2 d acc fails p calls s)
  obtain r s2 where w: "RelaySocket_Write d acc fails p s = (r, s2)" by force
  obtain bs2 s3 where c: "write_calls calls s2 = (bs2, s3)" by force
  have "dialed s2" "rs_id s2 = rs_id s" "sent s2 = sent s @ accepted p r"
    using RelaySocket_Write_stream [OF 2(2) _ w] 2(3) by simp_all
  moreover have "dialed s3 \<and> rs_id s3 = rs_id s2 \<and> sent s3 = sent s2 @ bs2"
    using 2(1) [OF w [symmetric]] calculation(1) 2(3) c by simp
  ultimately show ?case using 2(4) w c by simp
qed simp


text \<open>The bytes an open socket will read: what is left of the current connection and of those in the
  queue.\<close>

definition to_read :: "RelaySocket \<Rightarrow> RelayedConn list" where
  "to_read s = (case rs_cur s of None \<Rightarrow> [] | Some rc \<Rightarrow> [rc]) @ rs_ch s"

definition delivers :: "RelaySocket \<Rightarrow> bytes \<Rightarrow> bool" where
  "delivers s bs \<longleftrightarrow> \<not> rs_closed s \<and> rs_client s \<and> \<not> rs_closeSignal s \<and> \<not> rs_cancelled s \<and>
     list_all (\<lambda>rc. \<not> rc_reset rc) (to_read s) \<and> bs = concat (map rc_input (to_read s))"

lemma acceptNext_delivers:
  assumes "delivers s bs" "rs_cur s = None" "rs_ch s \<noteq> []"
  shows "\<exists>s1. acceptNext pick s = (Ok (), s1) \<and> delivers s1 bs"
  using assms
  by (cases pick; cases "rs_ch s")
    (auto simp: acceptNext_def select_case_def ready_case_def delivers_def to_read_def)

lemma read_cur_delivers:
  assumes "delivers s bs" "rs_cur s = Some rc" "read_cur len rc s = (xs, st, s1)" "0 < len"
  shows "st \<noteq> ConnBroken \<and> length xs \<le> len \<and> (\<exists>bs1. bs = xs @ bs1 \<and> delivers s1 bs1) \<and>
    (xs = [] \<longrightarrow> st = ConnEOF)"
proof -
  have "length xs \<le> len" using assms(3) by (auto simp: read_cur_def conn_Read_def Let_def)
  then show ?thesis
    using assms by (cases "rc_input rc")
     (auto simp: read_cur_def conn_Read_def Let_def delivers_def to_read_def set_cur_def split: if_splits)
qed

lemma Read_loop_delivers:
  "delivers s bs \<Longrightarrow> bs \<noteq> [] \<Longrightarrow> 0 < len \<Longrightarrow>
   \<exists>xs s1 bs1. Read_loop pick len s = (Ok xs, s1) \<and> xs \<noteq> [] \<and> length xs \<le> len \<and> bs = xs @ bs1 \<and> delivers s1 bs1"
proof (induction pick len s arbitrary: bs rule: Read_loop.induct)
  case (1 pick len s)
  show ?case
  proof (cases "rs_cur s")
    case None
    then have "rs_ch s \<noteq> []" using 1(3,4) by (auto simp: delivers_def to_read_def)
    then obtain s1 where "acceptNext (pick s) s = (Ok (), s1)" "delivers s1 bs"
      using acceptNext_delivers [OF 1(3) None] by blast
    then show ?thesis using 1(1) [OF None] 1(4,5) None by (subst Read_loop.simps) simp
  next
    case (Some rc)
    obtain xs st s1 where r: "read_cur len rc s = (xs, st, s1)" using prod_cases3 by blast
    note rd = read_cur_delivers [OF 1(3) Some r 1(5)]
    show ?thesis
    proof (cases "xs = []")
      case True
      then have "st = ConnEOF" "delivers s1 bs" using rd by auto
      then show ?thesis using 1(2) [OF Some r [symmetric]] 1(4,5) Some r True
        by (subst Read_loop.simps) simp
    next
      case False
      then show ?thesis using rd Some r by (subst Read_loop.simps) auto
    qed
  qed
qed

interpretation socket_source: byte_source "RelaySocket_Read pick" delivers
proof unfold_locales
  fix s :: RelaySocket and bs :: bytes and n :: nat
  assume h: "delivers s bs" "bs \<noteq> []" "0 < n"
  then have "RelaySocket_Read pick n s = Read_loop pick n s" by (simp add: RelaySocket_Read_def delivers_def)
  then show "\<exists>xs s1 bs1. RelaySocket_Read pick n s = (Ok xs, s1) \<and> xs \<noteq> [] \<and> length xs \<le> n \<and>
      bs = xs @ bs1 \<and> delivers s1 bs1"
    using Read_loop_delivers [OF h] by simp
qed

text \<open>What the other side makes of a connection: the dispatcher reads the identifier off it and hands
  the rest to the socket of that identifier.\<close>

definition arrives :: "RelayedConn \<Rightarrow> RelayedConn" where
  "arrives rc = \<lparr>rc_written = [], rc_input = snd (readOnePb (rc_written rc)), rc_eager = rc_eager rc, rc_reset = False\<rparr>"

lemma fold_dispatch:
  "length (rs_ch s) + length cs \<le> 8 \<Longrightarrow> fold dispatchIncoming cs s = s\<lparr>rs_ch := rs_ch s @ cs\<rparr>"
  by (induction cs arbitrary: s) (auto simp: dispatchIncoming_def)

lemma dialed_arrives:
  assumes "dialed s" "length (rs_id s) \<le> 4096"
  shows "concat (map (rc_input \<circ> arrives) (conns s)) = sent s"
proof -
  have "(rc_input \<circ> arrives) rc = drop (length (writePbMessage (rs_id s))) (rc_written rc)"
    if "rc \<in> set (conns s)" for rc
    using that assms by (auto simp: dialed_def list_all_iff arrives_def readOnePb_writePbMessage)
  then show ?thesis unfolding sent_def by (metis (no_types, lifting) map_cong)
qed

lemma new_socket_dialed: "dialed (newRelaySocketWithID i cl)" "sent (newRelaySocketWithID i cl) = []"
  "rs_id (newRelaySocketWithID i cl) = i"
  by (simp_all add: dialed_def sent_def conns_def newRelaySocketWithID_def)


section \<open>Properties\<close>


definition demo_conn :: RelayedConn where
  "demo_conn = \<lparr>rc_written = [], rc_input = [], rc_eager = False, rc_reset = False\<rparr>"

definition demo_client :: "Limit option option" where
  "demo_client = Some (Some \<lparr>Limit_Duration = 0, Limit_Data = 10\<rparr>)"


definition demo_calls :: "write_call list" where
  "demo_calls = [(Some (demo_conn, True), 9, False, [1, 2, 3]), (Some (demo_conn, True), 9, False, [3, 4, 5, 6]),
     (Some (demo_conn, True), 1, True, [5, 6])]"

definition demo_written :: "bytes \<times> RelaySocket" where
  "demo_written = write_calls demo_calls (newRelaySocketWithID (ascii ''sock0.7'') demo_client)"

text \<open>a limit that is positive but leaves no room for the identifier makes every write that rotates
  fail with a slice bound out of range.\<close>

theorem Write_panics_below_header:
  assumes "\<not> rs_closed s" "rs_client s" "rs_cur s = None" "0 < rs_limitBytes s"
    and "rs_limitBytes s \<le> int (length (rs_id s))"
  shows "fst (RelaySocket_Write (Some (rc, True)) acc fails p s) = Panic"
  using assms
  by (simp add: RelaySocket_Write_def rotateWrite_def write_cur_eq avail_of_def set_cur_def Let_def)

theorem Write_panics_below_header_witness:
  "fst (RelaySocket_Write (Some (demo_conn, True)) 9 False [1, 2, 3]
     (newRelaySocketWithID (ascii ''sock0.20260101'') demo_client)) = Panic"
  by (rule Write_panics_below_header) (simp_all add: newRelaySocketWithID_def demo_client_def ascii_def)

text \<open>when the close message overtakes connections that still wait in the queue, a read may report
  the end of the stream although bytes are left.\<close>

theorem Read_may_end_early:
  assumes "\<not> rs_closed s" "rs_client s" "rs_cur s = None" "rs_closeSignal s"
  shows "RelaySocket_Read (\<lambda>_. CaseClose) len s = (Err SocketEOF, s\<lparr>rs_closeSignal := False\<rparr>)"
  using assms
  by (simp add: RelaySocket_Read_def Read_loop.simps [of _ len s] acceptNext_def select_case_def ready_case_def)

theorem Read_may_end_early_witness:
  "let s = signalClose (dispatchIncoming (demo_conn\<lparr>rc_input := [1, 2]\<rparr>) (newRelaySocketWithID [7] (Some None)))
   in RelaySocket_Read (\<lambda>_. CaseClose) 5 s = (Err SocketEOF, s\<lparr>rs_closeSignal := False\<rparr>) \<and> rs_ch s \<noteq> []"
  using Read_may_end_early [of "signalClose (dispatchIncoming (demo_conn\<lparr>rc_input := [1, 2]\<rparr>) (newRelaySocketWithID [7] (Some None)))" 5]
  by (simp add: signalClose_def dispatchIncoming_def newRelaySocketWithID_def Let_def)

end
