(* ===== verification/Relay_Streams.thy ===== *)
theory Relay_Streams
  imports Multistream Relay_Socket
begin

text \<open>
  What the relay client does on one multiplexed stream (\<^verbatim>\<open>relayhub/relay.go\<close>): the requests it sends to
  the relay (\<^verbatim>\<open>connectV2Hop\<close>, \<^verbatim>\<open>connectV1Hop\<close>), and how it answers the streams the relay opens
  (\<^verbatim>\<open>handleIncoming\<close> and the handlers it calls).  The multiplexer is a library: a stream is the bytes it
  will deliver, the bytes written to it, and the number of writes that succeed before it fails.
\<close>

section \<open>Streams\<close>

record yamux_stream =
  st_in :: bytes
  st_eager :: bool
  st_reset :: bool
  st_out :: bytes
  st_left :: nat
  st_closed :: bool

definition st_write :: "bytes \<Rightarrow> yamux_stream \<Rightarrow> bool \<times> yamux_stream" where
  "st_write m s = (if st_left s = 0 then (False, s)
     else (True, s\<lparr>st_out := st_out s @ m, st_left := st_left s - 1\<rparr>))"

definition st_close :: "yamux_stream \<Rightarrow> yamux_stream" where
  "st_close s = s\<lparr>st_closed := True\<rparr>"

definition st_readOnePb :: "yamux_stream \<Rightarrow> (read_error, bytes) res \<times> yamux_stream" where
  "st_readOnePb s = (case readOnePb (st_in s) of (r, rest) \<Rightarrow> (r, s\<lparr>st_in := rest\<rparr>))"

text \<open>A negotiation on a stream.\<close>

primrec st_run :: "'a io \<Rightarrow> yamux_stream \<Rightarrow> 'a \<times> yamux_stream" where
  "st_run (Ret a) s = (a, s)"
| "st_run (WriteMsg m k) s = (case st_write (writeMsg m) s of (ok, s1) \<Rightarrow> st_run (k ok) s1)"
| "st_run (ReadMsg k) s = (case readMsg (st_in s) of (r, rest) \<Rightarrow> st_run (k r) (s\<lparr>st_in := rest\<rparr>))"

definition newRelayedConn :: "yamux_stream \<Rightarrow> RelayedConn" where
  "newRelayedConn s = \<lparr>rc_written = [], rc_input = st_in s, rc_eager = st_eager s, rc_reset = st_reset s\<rparr>"

section \<open>Requests\<close>

datatype relay_error =
    NotConnected
  | OpenStream
  | Negotiate ms_error
  | SendRequest
  | ReadResponse read_error
  | DecodeResponse pb_error
  | UnexpectedType int
  | RelayStatus string
  | RefreshRefused
  | BothFailed relay_error relay_error

text \<open>The part all requests share: select the protocol, send one message, read and decode one.\<close>

definition request ::
  "bytes \<Rightarrow> bytes \<Rightarrow> (bytes \<Rightarrow> (pb_error, 'm) res) \<Rightarrow> yamux_stream \<Rightarrow> (relay_error, 'm) res \<times> yamux_stream" where
  "request proto data dec s = (case st_run (msSelect proto) s of
      (Err e, s1) \<Rightarrow> (Err (Negotiate e), s1)
    | (Panic, s1) \<Rightarrow> (Panic, s1)
    | (Ok _, s1) \<Rightarrow>
        (case st_write (writePbMessage data) s1 of (ok, s2) \<Rightarrow>
           if \<not> ok then (Err SendRequest, s2)
           else (case st_readOnePb s2 of
               (Err e, s3) \<Rightarrow> (Err (ReadResponse e), s3)
             | (Panic, s3) \<Rightarrow> (Panic, s3)
             | (Ok respData, s3) \<Rightarrow>
                 (case dec respData of
                    Err e \<Rightarrow> (Err (DecodeResponse e), s3)
                  | Panic \<Rightarrow> (Panic, s3)
                  | Ok resp \<Rightarrow> (Ok resp, s3)))))"

definition hopProtoID :: bytes where
  "hopProtoID = ascii ''/libp2p/circuit/relay/0.2.0/hop''"

definition stopProtoID :: bytes where
  "stopProtoID = ascii ''/libp2p/circuit/relay/0.2.0/stop''"

definition CircuitV1ProtoID :: bytes where
  "CircuitV1ProtoID = ascii ''/libp2p/circuit/relay/0.1.0''"

definition HopTypeReserve :: u32 where "HopTypeReserve = 0"
definition HopTypeConnect :: u32 where "HopTypeConnect = 1"
definition HopTypeStatus :: u32 where "HopTypeStatus = 2"
definition StopTypeConnect :: u32 where "StopTypeConnect = 0"
definition StopTypeStatus :: u32 where "StopTypeStatus = 1"
definition StatusOK :: u32 where "StatusOK = 100"
definition CircuitV1TypeHop :: u64 where "CircuitV1TypeHop = 1"
definition CircuitV1TypeStop :: u64 where "CircuitV1TypeStop = 2"
definition CircuitV1TypeStatus :: u64 where "CircuitV1TypeStatus = 3"
definition CircuitV1TypeCanHop :: u64 where "CircuitV1TypeCanHop = 4"
definition CircuitV1StatusSuccess :: u64 where "CircuitV1StatusSuccess = 100"

definition hop_connect :: "bytes \<Rightarrow> HopMessage" where
  "hop_connect dst = \<lparr>Hop_Type = HopTypeConnect, Hop_Peer = Some \<lparr>Peer_ID = Some dst, Peer_Addrs = []\<rparr>,
     Hop_Reservation = None, Hop_Limit = None, Hop_Status = 0\<rparr>"

definition hop_reserve :: HopMessage where
  "hop_reserve = \<lparr>Hop_Type = HopTypeReserve, Hop_Peer = None, Hop_Reservation = None, Hop_Limit = None,
     Hop_Status = 0\<rparr>"

definition v1_hop :: "bytes \<Rightarrow> bytes \<Rightarrow> CircuitV1Message" where
  "v1_hop src dst = \<lparr>V1_Type = CircuitV1TypeHop, V1_SrcPeer = Some \<lparr>Peer_ID = Some src, Peer_Addrs = []\<rparr>,
     V1_DstPeer = Some \<lparr>Peer_ID = Some dst, Peer_Addrs = []\<rparr>, V1_Code = 0\<rparr>"

text \<open>\<^verbatim>\<open>resp.Type != HopTypeStatus\<close> and \<^verbatim>\<open>resp.Status != StatusOK\<close>.\<close>

definition hop_status :: "HopMessage \<Rightarrow> relay_error option" where
  "hop_status resp =
    (if Hop_Type resp \<noteq> HopTypeStatus then Some (UnexpectedType (sint (Hop_Type resp)))
     else if Hop_Status resp \<noteq> StatusOK then Some (RelayStatus (statusString (Hop_Status resp)))
     else None)"

definition v1_status :: "CircuitV1Message \<Rightarrow> relay_error option" where
  "v1_status resp =
    (if V1_Type resp \<noteq> CircuitV1TypeStatus then Some (UnexpectedType (sint (V1_Type resp)))
     else if V1_Code resp \<noteq> CircuitV1StatusSuccess then Some (RelayStatus (circuitV1StatusString (V1_Code resp)))
     else None)"

text \<open>\<^verbatim>\<open>None\<close> is a session that cannot open a stream.  On every error the stream is closed.\<close>

definition connectV2Hop ::
  "bytes \<Rightarrow> yamux_stream option \<Rightarrow> (relay_error, RelayedConn) res \<times> yamux_stream option" where
  "connectV2Hop dst opened = (case opened of
      None \<Rightarrow> (Err OpenStream, None)
    | Some s \<Rightarrow>
        (case request hopProtoID (encodeHopMessage (hop_connect dst)) decodeHopMessage s of
           (Err e, s1) \<Rightarrow> (Err e, Some (st_close s1))
         | (Panic, s1) \<Rightarrow> (Panic, Some s1)
         | (Ok resp, s1) \<Rightarrow>
             (case hop_status resp of
                Some e \<Rightarrow> (Err e, Some (st_close s1))
              | None \<Rightarrow> (Ok (newRelayedConn s1), Some s1))))"

definition connectV1Hop ::
  "bytes \<Rightarrow> bytes \<Rightarrow> yamux_stream option \<Rightarrow> (relay_error, RelayedConn) res \<times> yamux_stream option" where
  "connectV1Hop self dst opened = (case opened of
      None \<Rightarrow> (Err OpenStream, None)
    | Some s \<Rightarrow>
        (case request CircuitV1ProtoID (encodeCircuitV1 (v1_hop self dst)) decodeCircuitV1 s of
           (Err e, s1) \<Rightarrow> (Err e, Some (st_close s1))
         | (Panic, s1) \<Rightarrow> (Panic, Some s1)
         | (Ok resp, s1) \<Rightarrow>
             (case v1_status resp of
                Some e \<Rightarrow> (Err e, Some (st_close s1))
              | None \<Rightarrow> (Ok (newRelayedConn s1), Some s1))))"

text \<open>The function \<^verbatim>\<open>ConnectThroughRelay\<close> of the package: the same request on a plain connection to the relay.\<close>

definition ConnectThroughRelay_direct ::
  "bytes \<Rightarrow> yamux_stream option \<Rightarrow> (relay_error, RelayedConn) res \<times> yamux_stream option" where
  "ConnectThroughRelay_direct dst raw = connectV2Hop dst raw"

section \<open>Streams the relay opens\<close>

definition trimRight :: "bytes \<Rightarrow> bytes" where
  "trimRight s = rev (dropWhile (\<lambda>b. b \<in> {10, 13, 9, 32}) (rev s))"

definition acceptV1Hop :: "yamux_stream \<Rightarrow> (relay_error, RelayedConn option) res \<times> yamux_stream" where
  "acceptV1Hop s = (case st_readOnePb s of
      (Err e, s1) \<Rightarrow> (Err (ReadResponse e), s1)
    | (Panic, s1) \<Rightarrow> (Panic, s1)
    | (Ok data, s1) \<Rightarrow>
        (case decodeCircuitV1 data of
           Err e \<Rightarrow> (Err (DecodeResponse e), s1)
         | Panic \<Rightarrow> (Panic, s1)
         | Ok msg \<Rightarrow>
             let resp = writePbMessage (encodeCircuitV1 \<lparr>V1_Type = CircuitV1TypeStatus, V1_SrcPeer = None,
                          V1_DstPeer = None, V1_Code = CircuitV1StatusSuccess\<rparr>) in
             if V1_Type msg = CircuitV1TypeStop then
               (case st_write resp s1 of (ok, s2) \<Rightarrow>
                  if \<not> ok then (Err SendRequest, s2) else (Ok (Some (newRelayedConn s2)), s2))
             else if V1_Type msg = CircuitV1TypeCanHop then
               (case st_write resp s1 of (ok, s2) \<Rightarrow> (Ok None, st_close s2))
             else (Err (UnexpectedType (sint (V1_Type msg))), s1)))"

definition acceptV2Stop :: "yamux_stream \<Rightarrow> (relay_error, RelayedConn option) res \<times> yamux_stream" where
  "acceptV2Stop s = (case st_readOnePb s of
      (Err e, s1) \<Rightarrow> (Err (ReadResponse e), st_close s1)
    | (Panic, s1) \<Rightarrow> (Panic, s1)
    | (Ok data, s1) \<Rightarrow>
        (case decodeStopMessage data of
           Err e \<Rightarrow> (Err (DecodeResponse e), st_close s1)
         | Panic \<Rightarrow> (Panic, s1)
         | Ok msg \<Rightarrow>
             if Stop_Type msg \<noteq> StopTypeConnect then (Err (UnexpectedType (sint (Stop_Type msg))), st_close s1)
             else
               (case st_write (writePbMessage (encodeStopMessage \<lparr>Stop_Type = StopTypeStatus, Stop_Peer = None,
                       Stop_Limit = None, Stop_Status = StatusOK\<rparr>)) s1 of (ok, s2) \<Rightarrow>
                  if \<not> ok then (Err SendRequest, st_close s2) else (Ok (Some (newRelayedConn s2)), s2))))"

definition rejectStream :: "yamux_stream \<Rightarrow> yamux_stream" where
  "rejectStream s = st_close (snd (st_readOnePb s))"

text \<open>Each message of a ping stream is sent back, until a read or a write fails.\<close>

lemma readUvarint_consumes: "ReadUvarint_loop i x sh r = (Ok v, r1) \<Longrightarrow> length r1 < length r"
proof (induction r arbitrary: x sh i)
  case (Cons b r)
  then show ?case
    by (subst (asm) ReadUvarint_loop.simps)
      (auto simp: byteReader_ReadByte_def Let_def less_Suc_eq split: if_splits)
qed (simp add: ReadUvarint_loop.simps byteReader_ReadByte_def split: if_splits)

lemma readOnePb_consumes: "readOnePb r = (Ok d, r1) \<Longrightarrow> length r1 < length r"
  by (auto simp: readOnePb_def readVarint_def ReadFull_def read_full_def split: if_splits prod.splits res.splits
      dest!: readUvarint_consumes)

function handlePing :: "yamux_stream \<Rightarrow> yamux_stream" where
  "handlePing s = (case st_readOnePb s of
      (Ok data, s1) \<Rightarrow>
        (case st_write (writePbMessage data) s1 of (ok, s2) \<Rightarrow> if ok then handlePing s2 else st_close s2)
    | (_, s1) \<Rightarrow> st_close s1)"
  by pat_completeness auto
termination
  by (relation "measure (\<lambda>s. length (st_in s))")
    (auto simp: st_readOnePb_def st_write_def readOnePb_consumes split: prod.splits if_splits)

declare handlePing.simps [simp del]

text \<open>The identity of the client: its peer id, its public key and the signing function of its private key
  (\<^verbatim>\<open>crypto/ed25519\<close>).\<close>

record identity =
  me_id :: bytes
  me_pub :: bytes
  me_sign :: "bytes \<Rightarrow> bytes"

definition marshalEd25519PubKey :: "bytes \<Rightarrow> bytes" where
  "marshalEd25519PubKey pub = [0x08, 0x01, 0x12] @ encodeVarint (of_nat (length pub)) @ pub"

definition buildIdentifyResponse :: "identity \<Rightarrow> u64 \<Rightarrow> bytes \<Rightarrow> bytes list \<Rightarrow> bytes" where
  "buildIdentifyResponse me seq pubKey protocols =
    (let b = pbEncodeLengthDelimField 1 pubKey
           @ concat (map (\<lambda>p. pbEncodeLengthDelimField 3 p) protocols)
           @ pbEncodeLengthDelimField 6 (ascii ''relayhub/0.1.0'');
         pr = encodePeerRecord seq (me_id me) [];
         payloadType = [0x81, 0x06];
         sigInput = ascii ''libp2p-envelope'' @ pubKey @ payloadType @ pr;
         sig = me_sign me sigInput;
         env = encodeEnvelope pubKey payloadType pr sig
     in b @ pbEncodeLengthDelimField 8 env)"

definition rejected_protos :: "bytes list" where
  "rejected_protos = map ascii [''/libp2p/autonat/1.0.0'', ''/libp2p/autonat/2/dial-back'',
     ''/libp2p/autonat/2/dial-request'', ''/libp2p/dcutr'', ''/ipfs/kad/1.0.0'']"

definition identifyProtoID :: bytes where
  "identifyProtoID = ascii ''/ipfs/id/1.0.0''"

text \<open>\<^verbatim>\<open>handleIncoming\<close>: an error, a relayed connection, or nothing (the stream was dealt with).  \<^verbatim>\<open>seq\<close> is the time
  stamp of an identify answer.  The ping handler runs beside the caller, on its own stream.\<close>

definition handleIncoming ::
  "identity \<Rightarrow> u64 \<Rightarrow> yamux_stream \<Rightarrow> (relay_error, RelayedConn option) res \<times> yamux_stream" where
  "handleIncoming me seq s = (case st_run MSRespond s of
      (Err e, s1) \<Rightarrow> (Err (Negotiate e), s1)
    | (Panic, s1) \<Rightarrow> (Panic, s1)
    | (Ok proto0, s1) \<Rightarrow>
        let proto = trimRight proto0 in
        if proto = CircuitV1ProtoID then acceptV1Hop s1
        else if proto = stopProtoID then acceptV2Stop s1
        else if proto = identifyProtoID then
          (Ok None, snd (st_write (writePbMessage (buildIdentifyResponse me seq (marshalEd25519PubKey (me_pub me))
             [CircuitV1ProtoID, identifyProtoID])) s1))
        else if proto = ascii ''/ipfs/id/push/1.0.0'' then (Ok None, snd (st_readOnePb s1))
        else if proto \<in> set rejected_protos then (Ok None, rejectStream s1)
        else if proto = ascii ''/ipfs/ping/1.0.0'' then (Ok None, handlePing s1)
        else (Ok None, s1))"

text \<open>\<^verbatim>\<open>pullIdentify\<close> and the probe of \<^verbatim>\<open>setupSession\<close> only log what they read.\<close>

definition pullIdentify :: "yamux_stream \<Rightarrow> yamux_stream" where
  "pullIdentify s = (case st_run (msSelect identifyProtoID) s of
      (Ok _, s1) \<Rightarrow> st_close (snd (st_readOnePb s1))
    | (_, s1) \<Rightarrow> st_close s1)"

definition probeCanHop :: "yamux_stream \<Rightarrow> yamux_stream" where
  "probeCanHop s = (case st_run (msSelect CircuitV1ProtoID) s of
      (Ok _, s1) \<Rightarrow>
        (case st_write (writePbMessage (encodeCircuitV1 \<lparr>V1_Type = CircuitV1TypeCanHop, V1_SrcPeer = None,
                V1_DstPeer = None, V1_Code = 0\<rparr>)) s1 of (_, s2) \<Rightarrow> st_close (snd (st_readOnePb s2)))
    | (_, s1) \<Rightarrow> st_close s1)"

section \<open>Lemmas\<close>

text \<open>The answer of a relay to a negotiation, and a stream that starts with it.\<close>

definition ms_answer :: "bytes \<Rightarrow> bytes" where
  "ms_answer p = writeMsg (hd msProtoIDs) @ writeMsg (p @ [newline])"

lemma st_run_msSelect:
  assumes "st_in s = ms_answer p @ rest" "2 \<le> st_left s" "p \<noteq> ascii ''na''" "length p < max_alloc"
  shows "st_run (msSelect p) s = (Ok (), s\<lparr>st_in := rest, st_out := st_out s @ ms_answer p, st_left := st_left s - 2\<rparr>)"
proof -
  obtain m m' where ids: "msProtoIDs = [m, m']" by (simp add: msProtoIDs_def)
  then have "length m \<le> max_alloc" by (metis header_short list.sel(1))
  then show ?thesis
    using assms by (simp add: ids msSelect_def msSelect_proto_def ms_answer_def st_write_def)
qed

lemma st_run_MSRespond:
  assumes "st_in s = ms_answer p @ rest" "2 \<le> st_left s" "p \<noteq> ascii ''na''" "length p < max_alloc"
  shows "st_run MSRespond s = (Ok p, s\<lparr>st_in := rest, st_out := st_out s @ ms_answer p, st_left := st_left s - 2\<rparr>)"
proof -
  obtain m m' where ids: "msProtoIDs = [m, m']" by (simp add: msProtoIDs_def)
  then have "length m \<le> max_alloc" by (metis header_short list.sel(1))
  then show ?thesis
    using assms by (simp add: ids MSRespond_def MSRespond_proto_def ms_answer_def st_write_def)
qed

text \<open>Requests and their answers, for any of the message types.\<close>

context pb_message
begin

lemma request_answered:
  assumes "st_in s = ms_answer p @ writePbMessage (enc m) @ rest" "3 \<le> st_left s"
    and "p \<noteq> ascii ''na''" "length p < max_alloc" "length (enc m) \<le> 4096"
  shows "request p data dec s = (Ok (norm m), s\<lparr>st_in := rest,
    st_out := st_out s @ ms_answer p @ writePbMessage data, st_left := st_left s - 3\<rparr>)"
  using assms st_run_msSelect [of s p "writePbMessage (enc m) @ rest"] dec_enc [of m]
  by (simp add: request_def st_write_def st_readOnePb_def readOnePb_writePbMessage max_alloc_def)

end

lemma proto_names:
  "hopProtoID \<noteq> ascii ''na''" "length hopProtoID < max_alloc" "CircuitV1ProtoID \<noteq> ascii ''na''"
  "length CircuitV1ProtoID < max_alloc" "stopProtoID \<noteq> ascii ''na''" "length stopProtoID < max_alloc"
  "trimRight stopProtoID = stopProtoID" "trimRight CircuitV1ProtoID = CircuitV1ProtoID"
  "stopProtoID \<noteq> CircuitV1ProtoID"
  by (simp_all add: hopProtoID_def CircuitV1ProtoID_def stopProtoID_def ascii_def max_alloc_def trimRight_def)

lemma newRelayedConn_fresh: "connectV2Hop dst st = (Ok rc, st1) \<Longrightarrow> rc_written rc = []"
  "connectV1Hop self dst st = (Ok rc, st2) \<Longrightarrow> rc_written rc = []"
  by (auto simp: connectV2Hop_def connectV1Hop_def newRelayedConn_def split: option.splits prod.splits res.splits)

text \<open>What arrives at the accepting side: a stream with the negotiation, the relay's message and the
  bytes of the dialing side.\<close>

lemma handleIncoming_stop:
  assumes "st_in s = ms_answer stopProtoID @ writePbMessage (encodeStopMessage m) @ rest" "3 \<le> st_left s"
    and "length (encodeStopMessage m) \<le> 4096" "Stop_Type m = StopTypeConnect"
  shows "\<exists>s1. handleIncoming me seq s = (Ok (Some (newRelayedConn s1)), s1) \<and> st_in s1 = rest \<and>
    st_eager s1 = st_eager s \<and> st_reset s1 = st_reset s \<and>
    st_out s1 = st_out s @ ms_answer stopProtoID @ writePbMessage (encodeStopMessage
      \<lparr>Stop_Type = StopTypeStatus, Stop_Peer = None, Stop_Limit = None, Stop_Status = StatusOK\<rparr>)"
  using assms st_run_MSRespond [of s stopProtoID "writePbMessage (encodeStopMessage m) @ rest"] proto_names
    stop_msg.dec_enc [of m]
  by (simp add: handleIncoming_def acceptV2Stop_def st_readOnePb_def st_write_def readOnePb_writePbMessage
      max_alloc_def stop_sent_def)

lemma handleIncoming_v1_stop:
  assumes "st_in s = ms_answer CircuitV1ProtoID @ writePbMessage (encodeCircuitV1 m) @ rest" "3 \<le> st_left s"
    and "length (encodeCircuitV1 m) \<le> 4096" "V1_Type m = CircuitV1TypeStop"
  shows "\<exists>s1. handleIncoming me seq s = (Ok (Some (newRelayedConn s1)), s1) \<and> st_in s1 = rest \<and>
    st_eager s1 = st_eager s \<and> st_reset s1 = st_reset s \<and>
    st_out s1 = st_out s @ ms_answer CircuitV1ProtoID @ writePbMessage (encodeCircuitV1
      \<lparr>V1_Type = CircuitV1TypeStatus, V1_SrcPeer = None, V1_DstPeer = None, V1_Code = CircuitV1StatusSuccess\<rparr>)"
  using assms st_run_MSRespond [of s CircuitV1ProtoID "writePbMessage (encodeCircuitV1 m) @ rest"] proto_names
    v1_msg.dec_enc [of m]
  by (simp add: handleIncoming_def acceptV1Hop_def st_readOnePb_def st_write_def readOnePb_writePbMessage
      max_alloc_def v1_sent_def)

lemma handlePing_message:
  assumes "st_in s = writePbMessage d @ rest" "length d \<le> 4096" "0 < st_left s"
  shows "handlePing s = handlePing (s\<lparr>st_in := rest, st_out := st_out s @ writePbMessage d, st_left := st_left s - 1\<rparr>)"
  using assms by (subst handlePing.simps) (simp add: st_readOnePb_def st_write_def readOnePb_writePbMessage)

lemma handlePing_end: "st_in s = [] \<Longrightarrow> handlePing s = st_close s"
  by (cases s, subst handlePing.simps)
    (simp add: st_readOnePb_def readOnePb_def readVarint_def ReadUvarint_loop.simps byteReader_ReadByte_def)

text \<open>The ping handler returns every message it is sent, unchanged and in order, and then closes.\<close>

lemma ping_echo:
  assumes "st_in s = concat (map writePbMessage ms)" "list_all (\<lambda>d. length d \<le> 4096) ms" "length ms \<le> st_left s"
  shows "handlePing s = s\<lparr>st_in := [], st_out := st_out s @ concat (map writePbMessage ms),
    st_left := st_left s - length ms, st_closed := True\<rparr>"
  using assms
proof (induction ms arbitrary: s)
  case (Cons d ms)
  then show ?case using handlePing_message [of s d "concat (map writePbMessage ms)"] by simp
qed (simp add: handlePing_end st_close_def)

section \<open>Properties\<close>

text \<open>C35: A hop request that the relay answers: the relay is sent the negotiation and a CONNECT for the
  destination, nothing else.  A STATUS of OK gives a connection that delivers exactly the bytes behind the
  answer; another status gives its name, another message type an error, and the stream is closed.\<close>

theorem connectV2Hop_outcome:
  assumes "st_in s = ms_answer hopProtoID @ writePbMessage (encodeHopMessage m) @ rest" "3 \<le> st_left s"
    and "length (encodeHopMessage m) \<le> 4096" "st_out s = []"
  shows "\<exists>s1. connectV2Hop dst (Some s) =
      (if Hop_Type m \<noteq> HopTypeStatus then Err (UnexpectedType (sint (Hop_Type m)))
       else if Hop_Status m \<noteq> StatusOK then Err (RelayStatus (statusString (Hop_Status (hop_sent m))))
       else Ok \<lparr>rc_written = [], rc_input = rest, rc_eager = st_eager s, rc_reset = st_reset s\<rparr>, Some s1) \<and>
    st_out s1 = ms_answer hopProtoID @ writePbMessage (encodeHopMessage (hop_connect dst)) \<and>
    (st_closed s1 \<longleftrightarrow> st_closed s \<or> Hop_Type m \<noteq> HopTypeStatus \<or> Hop_Status m \<noteq> StatusOK)"
proof -
  have "Hop_Status (hop_sent m) = StatusOK \<longleftrightarrow> Hop_Status m = StatusOK"
    by (auto simp: hop_sent_def StatusOK_def)
  then show ?thesis
    using hop_msg.request_answered [OF assms(1,2) _ _ assms(3)] proto_names assms(4)
    by (auto simp: connectV2Hop_def hop_status_def newRelayedConn_def st_close_def hop_sent_def)
qed

definition demo_stream :: "bytes \<Rightarrow> yamux_stream" where
  "demo_stream inp = \<lparr>st_in = inp, st_eager = False, st_reset = False, st_out = [], st_left = 5, st_closed = False\<rparr>"

definition demo_status :: HopMessage where
  "demo_status = \<lparr>Hop_Type = 2, Hop_Peer = None, Hop_Reservation = None, Hop_Limit = None, Hop_Status = 100\<rparr>"

lemma demo_status_short: "length (encodeHopMessage demo_status) \<le> 4096"
  by (simp add: demo_status_def encodeHopMessage_def pbEncodeVarintField_def encodeTag_def encodeVarint_small)

theorem connectV2Hop_outcome_witness:
  "\<exists>s1. connectV2Hop [7] (Some (demo_stream (ms_answer hopProtoID @ writePbMessage (encodeHopMessage demo_status) @ [1, 2])))
    = (Ok \<lparr>rc_written = [], rc_input = [1, 2], rc_eager = False, rc_reset = False\<rparr>, Some s1)"
  using connectV2Hop_outcome [OF _ _ demo_status_short, of "demo_stream (ms_answer hopProtoID @ writePbMessage (encodeHopMessage demo_status) @ [1, 2])" "[1, 2]" "[7]"]
  by (auto simp: demo_stream_def demo_status_def HopTypeStatus_def StatusOK_def)

text \<open>An incoming stop request is accepted: the handler gives the connection with the bytes behind the
  request, and what it has sent is the echo of the negotiation and a message that the relay decodes as
  STATUS with code OK.\<close>

theorem stop_request_accepted:
  assumes "st_in s = ms_answer stopProtoID @ writePbMessage (encodeStopMessage m) @ rest" "3 \<le> st_left s"
    and "length (encodeStopMessage m) \<le> 4096" "Stop_Type m = StopTypeConnect" "st_out s = []"
  shows "\<exists>s1 reply. handleIncoming me seq s =
      (Ok (Some \<lparr>rc_written = [], rc_input = rest, rc_eager = st_eager s, rc_reset = st_reset s\<rparr>), s1) \<and>
    st_out s1 = ms_answer stopProtoID @ reply \<and>
    (\<exists>d. readOnePb reply = (Ok d, []) \<and> decodeStopMessage d =
       Ok \<lparr>Stop_Type = StopTypeStatus, Stop_Peer = None, Stop_Limit = None, Stop_Status = StatusOK\<rparr>)"
proof -
  let ?ok = "\<lparr>Stop_Type = StopTypeStatus, Stop_Peer = None, Stop_Limit = None, Stop_Status = StatusOK\<rparr>"
  have len: "length (encodeStopMessage ?ok) \<le> 4096"
    by (simp add: encodeStopMessage_def pbEncodeVarintField_def encodeTag_def encodeVarint_small StatusOK_def
        StopTypeStatus_def)
  have "stop_sent ?ok = ?ok" by (simp add: stop_sent_def StatusOK_def)
  then have "\<exists>d. readOnePb (writePbMessage (encodeStopMessage ?ok)) = (Ok d, []) \<and> decodeStopMessage d = Ok ?ok"
    using stop_msg.dec_enc [of ?ok] readOnePb_writePbMessage [OF len, of "[]"] len by (auto simp: max_alloc_def)
  then show ?thesis
    using handleIncoming_stop [OF assms(1-4), of me seq] assms(5) by (auto simp: newRelayedConn_def)
qed

definition demo_connect :: StopMessage where
  "demo_connect = \<lparr>Stop_Type = 0, Stop_Peer = None, Stop_Limit = None, Stop_Status = 0\<rparr>"

definition demo_me :: identity where
  "demo_me = \<lparr>me_id = [1], me_pub = [2], me_sign = (\<lambda>m. [3])\<rparr>"

theorem stop_request_accepted_witness:
  "\<exists>s1. handleIncoming demo_me 0
      (demo_stream (ms_answer stopProtoID @ writePbMessage (encodeStopMessage demo_connect) @ [1, 2]))
    = (Ok (Some \<lparr>rc_written = [], rc_input = [1, 2], rc_eager = False, rc_reset = False\<rparr>), s1)"
proof -
  have "length (encodeStopMessage demo_connect) \<le> 4096"
    by (simp add: demo_connect_def encodeStopMessage_def pbEncodeVarintField_def encodeTag_def encodeVarint_small)
  then show ?thesis
    using stop_request_accepted [of "demo_stream (ms_answer stopProtoID @ writePbMessage (encodeStopMessage demo_connect) @ [1, 2])" demo_connect "[1, 2]" demo_me 0]
    by (auto simp: demo_stream_def demo_connect_def StopTypeConnect_def)
qed

end
