(* ===== verification/Relay_Client.thy ===== *)
theory Relay_Client
  imports Relay_Streams
begin

text \<open>
  The relay client (\<^verbatim>\<open>RelayClient\<close> of \<^verbatim>\<open>relayhub/relay.go\<close>): its reservation, the registry of its sockets, the
  dispatcher that gives incoming connections to them, and its shutdown.  The two mutexes are fields, because
  \<^verbatim>\<open>Close\<close> calls back into code that takes them again.
\<close>

section \<open>State\<close>

record RelayClient =
  cl_me :: identity
  cl_session :: bool
  cl_mu :: bool
  cl_reservationExpiry :: "int option"
  cl_reservationAddrs :: "bytes list"
  cl_voucher :: "bytes option"
  cl_limit :: "Limit option"
  cl_watchdog :: bool
  cl_acceptChan :: "bytes list"
  cl_connSockets :: "bytes \<rightharpoonup> RelaySocket"
  cl_connSocketsMu :: bool
  cl_listener :: "bytes option"
  cl_dispatchRunning :: bool
  cl_sessionDone :: bool

text \<open>A call returns, waits for a lock or a channel that nobody will serve, or panics.\<close>

datatype 'a outcome = Returns 'a | Blocks | Crashes

definition NewRelayClient :: "identity \<Rightarrow> RelayClient" where
  "NewRelayClient me = \<lparr>cl_me = me, cl_session = False, cl_mu = False, cl_reservationExpiry = None,
     cl_reservationAddrs = [], cl_voucher = None, cl_limit = None, cl_watchdog = False, cl_acceptChan = [],
     cl_connSockets = Map.empty, cl_connSocketsMu = False, cl_listener = None, cl_dispatchRunning = False,
     cl_sessionDone = False\<rparr>"

section \<open>Connecting\<close>

datatype connect_error = AlreadyConnected | ConnectFailedBoth | YamuxNegotiate ms_error | YamuxClient

text \<open>\<^verbatim>\<open>setupSession\<close>: \<^verbatim>\<open>yamux_ok\<close> is the result of the multiplexer's constructor.\<close>

definition setupSession :: "yamux_stream \<Rightarrow> bool \<Rightarrow> RelayClient \<Rightarrow> (connect_error, unit) res \<times> RelayClient" where
  "setupSession secure yamux_ok c = (case st_run (msSelect (ascii ''/yamux/1.0.0'')) secure of
      (Err e, _) \<Rightarrow> (Err (YamuxNegotiate e), c)
    | (Panic, _) \<Rightarrow> (Panic, c)
    | (Ok _, _) \<Rightarrow> if yamux_ok then (Ok (), c\<lparr>cl_session := True\<rparr>) else (Err YamuxClient, c))"

definition startWatchdog :: "RelayClient \<Rightarrow> RelayClient" where
  "startWatchdog c = (if cl_watchdog c then c else c\<lparr>cl_watchdog := True\<rparr>)"

text \<open>The connections that \<^verbatim>\<open>dialNoise\<close> and \<^verbatim>\<open>ConnectTLS\<close> give, if they do.\<close>

definition RelayClient_Connect ::
  "yamux_stream option \<Rightarrow> yamux_stream option \<Rightarrow> bool \<Rightarrow> RelayClient \<Rightarrow> (connect_error, unit) res \<times> RelayClient" where
  "RelayClient_Connect noise tls yamux_ok c =
    (if cl_session c then (Err AlreadyConnected, c)
     else case (case noise of Some s \<Rightarrow> Some s | None \<Rightarrow> tls) of
       None \<Rightarrow> (Err ConnectFailedBoth, c)
     | Some secure \<Rightarrow>
         (case setupSession secure yamux_ok c of
            (Ok u, c1) \<Rightarrow> (Ok u, startWatchdog c1)
          | (Err e, c1) \<Rightarrow> (Err e, c1)
          | (Panic, c1) \<Rightarrow> (Panic, c1)))"

definition notifySessionDone :: "RelayClient \<Rightarrow> RelayClient" where
  "notifySessionDone c = c\<lparr>cl_sessionDone := True\<rparr>"

text \<open>One tick of the watchdog: whether it goes on, and the client.\<close>

definition watchdog_tick :: "bool \<Rightarrow> yamux_stream option \<Rightarrow> RelayClient \<Rightarrow> bool \<times> RelayClient \<times> yamux_stream option" where
  "watchdog_tick closed opened c =
    (if \<not> cl_session c \<or> closed then (False, notifySessionDone c, None)
     else case opened of
       None \<Rightarrow> (True, c, None)
     | Some s \<Rightarrow>
         (case st_run (msSelect (ascii ''/ipfs/ping/1.0.0'')) s of
            (Ok _, s1) \<Rightarrow>
              (True, c, Some (st_close (snd (st_readOnePb (snd (st_write (writePbMessage (ascii ''ping'')) s1))))))
          | (_, s1) \<Rightarrow> (True, c, Some (st_close s1))))"

text \<open>\<^verbatim>\<open>ConnectThroughRelay\<close> takes the client's mutex to read the session.\<close>

definition ConnectThroughRelay ::
  "bytes \<Rightarrow> yamux_stream option \<Rightarrow> yamux_stream option \<Rightarrow> RelayClient \<Rightarrow> (relay_error, RelayedConn) res outcome" where
  "ConnectThroughRelay dst v2 v1 c =
    (if cl_mu c then Blocks
     else if \<not> cl_session c then Returns (Err NotConnected)
     else case fst (connectV2Hop dst v2) of
       Ok conn \<Rightarrow> Returns (Ok conn)
     | Panic \<Rightarrow> Crashes
     | Err v2Err \<Rightarrow>
         (case fst (connectV1Hop (me_id (cl_me c)) dst v1) of
            Ok conn \<Rightarrow> Returns (Ok conn)
          | Panic \<Rightarrow> Crashes
          | Err v1Err \<Rightarrow> Returns (Err (BothFailed v2Err v1Err))))"

section \<open>Reservations\<close>

definition hop_request_reserve :: "yamux_stream option \<Rightarrow> RelayClient \<Rightarrow> (relay_error, HopMessage) res" where
  "hop_request_reserve opened c =
    (if \<not> cl_session c then Err NotConnected
     else case opened of
       None \<Rightarrow> Err OpenStream
     | Some s \<Rightarrow> fst (request hopProtoID (encodeHopMessage hop_reserve) decodeHopMessage s))"

text \<open>\<^verbatim>\<open>time.Unix(int64(resp.Reservation.Expire), 0)\<close>, in seconds.\<close>

definition Reserve :: "yamux_stream option \<Rightarrow> RelayClient \<Rightarrow> (relay_error, unit) res \<times> RelayClient" where
  "Reserve opened c = (case hop_request_reserve opened c of
      Err e \<Rightarrow> (Err e, c)
    | Panic \<Rightarrow> (Panic, c)
    | Ok resp \<Rightarrow>
        (case hop_status resp of
           Some e \<Rightarrow> (Err e, c)
         | None \<Rightarrow>
             let c1 = (case Hop_Reservation resp of None \<Rightarrow> c
                       | Some r \<Rightarrow> c\<lparr>cl_reservationExpiry := Some (sint (Resv_Expire r)),
                                     cl_reservationAddrs := Resv_Addrs r, cl_voucher := Resv_Voucher r\<rparr>)
             in (Ok (), case Hop_Limit resp of None \<Rightarrow> c1 | Some l \<Rightarrow> c1\<lparr>cl_limit := Some l\<rparr>)))"

definition RefreshReservation :: "yamux_stream option \<Rightarrow> RelayClient \<Rightarrow> (relay_error, unit) res \<times> RelayClient" where
  "RefreshReservation opened c = (case hop_request_reserve opened c of
      Err e \<Rightarrow> (Err e, c)
    | Panic \<Rightarrow> (Panic, c)
    | Ok resp \<Rightarrow>
        if Hop_Type resp \<noteq> HopTypeStatus \<or> Hop_Status resp \<noteq> StatusOK then (Err RefreshRefused, c)
        else (Ok (), case Hop_Reservation resp of None \<Rightarrow> c
                | Some r \<Rightarrow> c\<lparr>cl_reservationExpiry := Some (sint (Resv_Expire r))\<rparr>))"

text \<open>\<^verbatim>\<open>now\<close> is the clock in seconds; None is the zero time.\<close>

definition HasReservation :: "int \<Rightarrow> RelayClient \<Rightarrow> bool" where
  "HasReservation now c = (case cl_reservationExpiry c of None \<Rightarrow> False | Some t \<Rightarrow> now < t)"

section \<open>Sockets\<close>

text \<open>\<^verbatim>\<open>i\<close> is the identifier \<^verbatim>\<open>generateConnID\<close> gives.\<close>

definition NewSocket :: "bytes \<Rightarrow> RelayClient \<Rightarrow> RelayClient" where
  "NewSocket i c = c\<lparr>cl_connSockets := (cl_connSockets c)(i \<mapsto> newRelaySocketWithID i (Some (cl_limit c)))\<rparr>"

definition RelaySocket_Listen :: "RelaySocket \<Rightarrow> RelayClient \<Rightarrow> RelayClient" where
  "RelaySocket_Listen s c =
    (if rs_client s \<and> cl_listener c = None then c\<lparr>cl_listener := Some (rs_id s)\<rparr> else c)"

definition RelaySocket_Accept :: "RelayClient \<Rightarrow> (bytes \<times> RelayClient) outcome" where
  "RelaySocket_Accept c = (case cl_acceptChan c of
      [] \<Rightarrow> Blocks
    | i # rest \<Rightarrow> Returns (i, c\<lparr>cl_acceptChan := rest\<rparr>))"

text \<open>\<^verbatim>\<open>Close\<close> of a socket, with what it does to its client.\<close>

definition closeSocket ::
  "yamux_stream option \<Rightarrow> yamux_stream option \<Rightarrow> RelaySocket \<Rightarrow> RelayClient \<Rightarrow> (RelaySocket \<times> RelayClient) outcome" where
  "closeSocket v2 v1 s c =
    (if rs_closed s then Returns (s, c)
     else
       let sends = (0 < length (rs_dstPeer s) \<and> rs_client s);
           dialled = (if sends then ConnectThroughRelay (rs_dstPeer s) v2 v1 c else Returns (Err NotConnected)) in
       if sends \<and> length (rs_id s) < 6 then Crashes
       else case dialled of
         Blocks \<Rightarrow> Blocks
       | Crashes \<Rightarrow> Crashes
       | Returns r \<Rightarrow>
           if rs_client s \<and> cl_connSocketsMu c then Blocks
           else (case RelaySocket_Close (case r of Ok _ \<Rightarrow> True | _ \<Rightarrow> False) s of
               None \<Rightarrow> Crashes
             | Some (_, s1) \<Rightarrow>
                 Returns (s1, if rs_client s then c\<lparr>cl_connSockets := (cl_connSockets c)(rs_id s := None)\<rparr> else c)))"

section \<open>The dispatcher\<close>

definition RelayClient_Start :: "RelayClient \<Rightarrow> RelayClient" where
  "RelayClient_Start c = (if cl_dispatchRunning c then c else c\<lparr>cl_dispatchRunning := cl_session c\<rparr>)"

definition stopDispatch :: "RelayClient \<Rightarrow> RelayClient" where
  "stopDispatch c = c\<lparr>cl_dispatchRunning := False\<rparr>"

text \<open>Ways in which \<^verbatim>\<open>acceptStreamWithCtx\<close> ends the loop.\<close>

definition dispatch_accept_failed :: "bool \<Rightarrow> RelayClient \<Rightarrow> RelayClient" where
  "dispatch_accept_failed cancelled c =
    (let c1 = (if cancelled then c else notifySessionDone c) in c1\<lparr>cl_dispatchRunning := False\<rparr>)"

text \<open>A connection for a socket the client does not know: the socket is registered and offered to
  \<^verbatim>\<open>Accept\<close>.  The channel holds eight; \<^verbatim>\<open>done\<close> says whether the context is cancelled and \<^verbatim>\<open>pick\<close> whether the
  scheduler prefers the channel when both cases are ready.\<close>

definition dispatch_new :: "bool \<Rightarrow> bool \<Rightarrow> bytes \<Rightarrow> RelayedConn \<Rightarrow> RelayClient \<Rightarrow> RelayClient outcome" where
  "dispatch_new done pick sockID conn c =
    (let sock = newRelaySocketWithID sockID (Some (cl_limit c));
         c1 = c\<lparr>cl_connSockets := (cl_connSockets c)(sockID \<mapsto> sock)\<rparr>;
         room = (length (cl_acceptChan c1) < 8) in
     if room \<and> (\<not> done \<or> pick) then
       Returns (c1\<lparr>cl_acceptChan := cl_acceptChan c1 @ [sockID],
                   cl_connSockets := (cl_connSockets c1)(sockID \<mapsto> dispatchIncoming conn sock)\<rparr>)
     else if done then
       (case closeSocket None None sock c1 of
          Returns (_, c2) \<Rightarrow> Returns (c2\<lparr>cl_dispatchRunning := False\<rparr>)
        | Blocks \<Rightarrow> Blocks
        | Crashes \<Rightarrow> Crashes)
     else Blocks)"

definition dispatch_conn :: "bool \<Rightarrow> bool \<Rightarrow> RelayedConn \<Rightarrow> RelayClient \<Rightarrow> RelayClient outcome" where
  "dispatch_conn done pick conn c = (case readOnePb (rc_input conn) of
      (Ok data, rest) \<Rightarrow>
        let conn1 = conn\<lparr>rc_input := rest\<rparr>; sockID = trimRight data in
        if take 6 sockID = ascii ''close.'' then
          let origID = ascii ''sock0.'' @ drop 6 sockID in
          Returns (case cl_connSockets c origID of
              Some sock \<Rightarrow> c\<lparr>cl_connSockets := (cl_connSockets c)(origID \<mapsto> signalClose sock)\<rparr>
            | None \<Rightarrow> c)
        else
          (case cl_connSockets c sockID of
             Some sock \<Rightarrow>
               Returns (c\<lparr>cl_connSockets := (cl_connSockets c)(sockID \<mapsto> dispatchIncoming conn1 sock)\<rparr>)
           | None \<Rightarrow> dispatch_new done pick sockID conn1 c)
    | _ \<Rightarrow> Returns c)"

text \<open>One turn of \<^verbatim>\<open>dispatchLoop\<close>, on a stream the relay opened.\<close>

definition dispatch_turn :: "u64 \<Rightarrow> bool \<Rightarrow> bool \<Rightarrow> yamux_stream \<Rightarrow> RelayClient \<Rightarrow> RelayClient outcome" where
  "dispatch_turn seq done pick stream c = (case fst (handleIncoming (cl_me c) seq stream) of
      Err e \<Rightarrow> Returns c
    | Panic \<Rightarrow> Crashes
    | Ok None \<Rightarrow> Returns c
    | Ok (Some conn) \<Rightarrow> dispatch_conn done pick conn c)"

text \<open>\<^verbatim>\<open>AcceptRelay\<close>: the first stream of those the relay opens that is a relayed connection.\<close>

fun AcceptRelay :: "u64 \<Rightarrow> yamux_stream list \<Rightarrow> RelayClient \<Rightarrow> (relay_error, RelayedConn) res outcome" where
  "AcceptRelay seq streams c =
    (if \<not> cl_session c then Returns (Err NotConnected)
     else case streams of
       [] \<Rightarrow> Blocks
     | s # rest \<Rightarrow>
         (case fst (handleIncoming (cl_me c) seq s) of
            Ok (Some conn) \<Rightarrow> Returns (Ok conn)
          | Panic \<Rightarrow> Crashes
          | _ \<Rightarrow> AcceptRelay seq rest c))"

declare AcceptRelay.simps [simp del]

section \<open>Shutdown\<close>

text \<open>The loop of \<^verbatim>\<open>Close\<close> over the sockets, in the order the map gives them.\<close>

fun close_sockets :: "bytes list \<Rightarrow> RelayClient \<Rightarrow> RelayClient outcome" where
  "close_sockets [] c = Returns c"
| "close_sockets (i # is) c = (case cl_connSockets c i of
      None \<Rightarrow> close_sockets is c
    | Some sock \<Rightarrow>
        (case closeSocket None None sock c of
           Returns (_, c1) \<Rightarrow> close_sockets is (c1\<lparr>cl_connSockets := (cl_connSockets c1)(i := None)\<rparr>)
         | Blocks \<Rightarrow> Blocks
         | Crashes \<Rightarrow> Crashes))"

definition RelayClient_Close :: "bytes list \<Rightarrow> RelayClient \<Rightarrow> RelayClient outcome" where
  "RelayClient_Close order c =
    (let c1 = notifySessionDone (stopDispatch c) in
     if cl_mu c1 then Blocks
     else
       let c2 = c1\<lparr>cl_mu := True, cl_watchdog := False\<rparr> in
       if cl_connSocketsMu c2 then Blocks
       else
         (case close_sockets order (c2\<lparr>cl_connSocketsMu := True\<rparr>) of
            Returns c3 \<Rightarrow>
              Returns (c3\<lparr>cl_connSocketsMu := False, cl_listener := None, cl_session := False, cl_mu := False\<rparr>)
          | Blocks \<Rightarrow> Blocks
          | Crashes \<Rightarrow> Crashes))"

section \<open>The registry\<close>

text \<open>A registered socket is open, belongs to the client, and is found under its own identifier.\<close>

definition registered_ok :: "bytes \<Rightarrow> RelaySocket \<Rightarrow> bool" where
  "registered_ok i s \<longleftrightarrow> rs_id s = i \<and> rs_client s \<and> \<not> rs_closed s"

definition registry_inv :: "RelayClient \<Rightarrow> bool" where
  "registry_inv c \<longleftrightarrow> \<not> cl_mu c \<and> \<not> cl_connSocketsMu c \<and> length (cl_acceptChan c) \<le> 8 \<and>
     (\<forall>i s. cl_connSockets c i = Some s \<longrightarrow> registered_ok i s)"

lemma new_socket_ok [simp]: "registered_ok i (newRelaySocketWithID i (Some lim))"
  by (simp add: registered_ok_def newRelaySocketWithID_def)

lemma dispatchIncoming_ok [simp]: "registered_ok i (dispatchIncoming conn s) \<longleftrightarrow> registered_ok i s"
  "registered_ok i (signalClose s) \<longleftrightarrow> registered_ok i s"
  by (simp_all add: registered_ok_def dispatchIncoming_def signalClose_def)

lemma registry_update:
  "registry_inv c \<Longrightarrow> registered_ok i s \<Longrightarrow> registry_inv (c\<lparr>cl_connSockets := (cl_connSockets c)(i \<mapsto> s)\<rparr>)"
  "registry_inv c \<Longrightarrow> registry_inv (c\<lparr>cl_connSockets := (cl_connSockets c)(i := None)\<rparr>)"
  by (simp_all add: registry_inv_def)

lemma registry_irrelevant:
  "registry_inv (c\<lparr>cl_dispatchRunning := b\<rparr>) \<longleftrightarrow> registry_inv c" "registry_inv (c\<lparr>cl_limit := l\<rparr>) \<longleftrightarrow> registry_inv c"
  "registry_inv (c\<lparr>cl_sessionDone := b\<rparr>) \<longleftrightarrow> registry_inv c" "registry_inv (c\<lparr>cl_watchdog := b\<rparr>) \<longleftrightarrow> registry_inv c"
  "registry_inv (c\<lparr>cl_reservationExpiry := e\<rparr>) \<longleftrightarrow> registry_inv c" "registry_inv (c\<lparr>cl_session := b\<rparr>) \<longleftrightarrow> registry_inv c"
  "registry_inv (c\<lparr>cl_reservationAddrs := a\<rparr>) \<longleftrightarrow> registry_inv c" "registry_inv (c\<lparr>cl_voucher := v\<rparr>) \<longleftrightarrow> registry_inv c"
  "registry_inv (c\<lparr>cl_listener := o1\<rparr>) \<longleftrightarrow> registry_inv c"
  by (simp_all add: registry_inv_def)

lemma closeSocket_registry:
  "closeSocket v2 v1 s c = Returns (s1, c1) \<Longrightarrow> registry_inv c \<Longrightarrow> registry_inv c1"
  by (auto simp: closeSocket_def Let_def registry_update(2) split: if_splits outcome.splits option.splits prod.splits)

lemma dispatch_new_registry:
  "dispatch_new done pick i conn c = Returns c1 \<Longrightarrow> registry_inv c \<Longrightarrow> registry_inv c1"
  using closeSocket_registry [OF _ registry_update(1) [OF _ new_socket_ok]]
  by (auto simp: dispatch_new_def Let_def registry_irrelevant registry_inv_def [of "_\<lparr>cl_acceptChan := _\<rparr>"]
      split: if_splits outcome.splits prod.splits) (auto simp: registry_inv_def)

lemma dispatch_turn_registry:
  "dispatch_turn seq done pick st c = Returns c1 \<Longrightarrow> registry_inv c \<Longrightarrow> registry_inv c1"
  by (auto simp: dispatch_turn_def dispatch_conn_def Let_def intro: dispatch_new_registry
      intro!: registry_update split: if_splits res.splits option.splits prod.splits)
    (auto simp: registry_inv_def)

text \<open>What no operation of a socket changes.\<close>

definition same_socket :: "RelaySocket \<Rightarrow> RelaySocket \<Rightarrow> bool" where
  "same_socket s t \<longleftrightarrow> rs_id t = rs_id s \<and> rs_client t = rs_client s \<and> rs_limitBytes t = rs_limitBytes s"

lemma same_socket_trans: "same_socket s t \<Longrightarrow> same_socket t u \<Longrightarrow> same_socket s u"
  by (simp add: same_socket_def)

lemma same_Read_loop: "Read_loop pick len s = (r, s1) \<Longrightarrow> same_socket s s1"
proof (induction pick len s arbitrary: r s1 rule: Read_loop.induct)
  case (1 pick len s)
  show ?case
  proof (cases "rs_cur s")
    case None
    obtain a s2 where a: "acceptNext (pick s) s = (a, s2)" by force
    then have "same_socket s s2" using acceptNext_cases [OF a] by (auto simp: same_socket_def)
    then show ?thesis using 1 None a
      by (subst (asm) Read_loop.simps) (auto split: res.splits intro: same_socket_trans)
  next
    case (Some rc)
    obtain xs st s2 where r: "read_cur len rc s = (xs, st, s2)" using prod_cases3 by blast
    then have "same_socket s s2"
      by (auto simp: read_cur_def same_socket_def set_cur_def Let_def split: prod.splits if_splits)
    then show ?thesis using 1 Some r
      by (subst (asm) Read_loop.simps) (auto split: if_splits intro: same_socket_trans)
  qed
qed

lemma same_rotateWrite: "rotateWrite d s = (r, s1) \<Longrightarrow> same_socket s s1"
  by (auto simp: rotateWrite_def same_socket_def set_cur_def Let_def split: option.splits if_splits)

lemma same_write_cur: "write_cur acc fails p s = (r, s1) \<Longrightarrow> same_socket s s1"
  by (auto simp: write_cur_eq same_socket_def set_cur_def Let_def split: option.splits if_splits)

lemma same_Write: "RelaySocket_Write d acc fails p s = (r, s1) \<Longrightarrow> same_socket s s1"
  using same_rotateWrite [of d s] same_write_cur [of acc fails p]
  by (auto simp: RelaySocket_Write_def same_socket_def split: if_splits prod.splits res.splits)

lemma same_Close: "RelaySocket_Close ok s = Some (m, s1) \<Longrightarrow> same_socket s s1"
  by (auto simp: RelaySocket_Close_def same_socket_def set_cur_def Let_def split: if_splits option.splits)

lemma same_Connect: "RelaySocket_Connect dst d s = (r, s1) \<Longrightarrow> same_socket s s1"
  by (auto simp: RelaySocket_Connect_def same_socket_def set_cur_def Let_def split: option.splits if_splits)

lemma socket_step_same: "socket_step s t \<Longrightarrow> same_socket s t"
proof (induction rule: socket_step.induct)
  case (step_Read pick len s r s1)
  then show ?case by (auto simp: RelaySocket_Read_def same_socket_def split: if_splits dest!: same_Read_loop)
qed (auto simp: same_Write same_Close same_Connect, auto simp: same_socket_def signalClose_def dispatchIncoming_def)

text \<open>What happens to a client that is not being shut down.  A socket that stays open keeps its place in the
  registry; one that is closed gives it up.\<close>

inductive client_step :: "RelayClient \<Rightarrow> RelayClient \<Rightarrow> bool" where
  do_connect: "RelayClient_Connect noise tls ok c = (r, c1) \<Longrightarrow> client_step c c1"
| do_watchdog: "watchdog_tick closed opened c = (b, c1, st) \<Longrightarrow> client_step c c1"
| do_start: "client_step c (RelayClient_Start c)"
| do_reserve: "Reserve opened c = (r, c1) \<Longrightarrow> client_step c c1"
| do_refresh: "RefreshReservation opened c = (r, c1) \<Longrightarrow> client_step c c1"
| do_socket: "client_step c (NewSocket i c)"
| do_listen: "client_step c (RelaySocket_Listen s c)"
| do_accept: "RelaySocket_Accept c = Returns (i, c1) \<Longrightarrow> client_step c c1"
| do_dispatch: "dispatch_turn seq dn pick st c = Returns c1 \<Longrightarrow> client_step c c1"
| do_end: "client_step c (dispatch_accept_failed cancelled c)"
| do_use: "cl_connSockets c i = Some s \<Longrightarrow> socket_step s s1 \<Longrightarrow> \<not> rs_closed s1 \<Longrightarrow>
    client_step c (c\<lparr>cl_connSockets := (cl_connSockets c)(i \<mapsto> s1)\<rparr>)"
| do_close: "closeSocket v2 v1 s c = Returns (s1, c1) \<Longrightarrow> client_step c c1"

lemma client_step_registry: "client_step c c1 \<Longrightarrow> registry_inv c \<Longrightarrow> registry_inv c1"
proof (induction rule: client_step.induct)
  case (do_use c i s s1)
  then have "registered_ok i s1"
    using socket_step_same [OF do_use(2)] by (auto simp: registry_inv_def registered_ok_def same_socket_def)
  then show ?case using do_use registry_update by blast
next
  case (do_connect noise tls ok c r c1)
  then show ?case
    by (auto simp: RelayClient_Connect_def setupSession_def startWatchdog_def registry_irrelevant
        split: if_splits option.splits prod.splits res.splits)
next
  case (do_reserve opened c r c1)
  then show ?case
    by (auto simp: Reserve_def Let_def registry_irrelevant split: res.splits option.splits)
next
  case (do_accept c i c1)
  then show ?case by (auto simp: RelaySocket_Accept_def registry_inv_def split: list.splits)
qed (auto simp: watchdog_tick_def RelayClient_Start_def RefreshReservation_def NewSocket_def RelaySocket_Listen_def
    dispatch_accept_failed_def notifySessionDone_def Let_def registry_irrelevant registry_update
    intro: dispatch_turn_registry closeSocket_registry split: if_splits option.splits prod.splits res.splits)

lemma client_steps_registry: "client_step\<^sup>*\<^sup>* (NewRelayClient me) c \<Longrightarrow> registry_inv c"
proof (induction rule: rtranclp_induct)
  case base
  show ?case by (simp add: NewRelayClient_def registry_inv_def)
qed (rule client_step_registry)

section \<open>Connections that reach a socket\<close>

lemma closeID_message:
  assumes "6 \<le> length i" "closeID i = Some m"
  shows "m = ascii ''close.'' @ drop 6 i"
  using assms by (auto simp: closeID_def split: if_splits)

lemma dispatch_conn_message:
  assumes "rc_input conn = writePbMessage data @ rest" "length data \<le> 4096" "trimRight data = data"
  shows "dispatch_conn dn pick conn c =
    (if take 6 data = ascii ''close.'' then
       (let origID = ascii ''sock0.'' @ drop 6 data in
        Returns (case cl_connSockets c origID of
              Some sock \<Rightarrow> c\<lparr>cl_connSockets := (cl_connSockets c)(origID \<mapsto> signalClose sock)\<rparr>
            | None \<Rightarrow> c))
     else (case cl_connSockets c data of
             Some sock \<Rightarrow> Returns (c\<lparr>cl_connSockets := (cl_connSockets c)
                             (data \<mapsto> dispatchIncoming (conn\<lparr>rc_input := rest\<rparr>) sock)\<rparr>)
           | None \<Rightarrow> dispatch_new dn pick data (conn\<lparr>rc_input := rest\<rparr>) c))"
  using assms by (simp add: dispatch_conn_def readOnePb_writePbMessage Let_def)

text \<open>The stream on which the relay delivers what a dialing socket wrote.\<close>

definition stop_stream :: "StopMessage \<Rightarrow> RelayedConn \<Rightarrow> yamux_stream" where
  "stop_stream m rc = \<lparr>st_in = ms_answer stopProtoID @ writePbMessage (encodeStopMessage m) @ rc_written rc,
     st_eager = rc_eager rc, st_reset = False, st_out = [], st_left = 3, st_closed = False\<rparr>"

lemma dispatch_turn_stop:
  assumes "length (encodeStopMessage m) \<le> 4096" "Stop_Type m = StopTypeConnect"
  shows "dispatch_turn seq dn pick (stop_stream m rc) c =
    dispatch_conn dn pick \<lparr>rc_written = [], rc_input = rc_written rc, rc_eager = rc_eager rc, rc_reset = False\<rparr> c"
  using handleIncoming_stop [OF _ _ assms, of "stop_stream m rc" "rc_written rc" "cl_me c" seq]
  by (auto simp: dispatch_turn_def stop_stream_def newRelayedConn_def)

lemma dialed_reads_id:
  assumes "rc_written rc = writePbMessage i @ q" "length i \<le> 4096"
  shows "arrives rc = \<lparr>rc_written = [], rc_input = q, rc_eager = rc_eager rc, rc_reset = False\<rparr>"
  using assms by (simp add: arrives_def readOnePb_writePbMessage)

text \<open>Names under which a socket can be reached.\<close>

definition socket_name :: "bytes \<Rightarrow> bool" where
  "socket_name i \<longleftrightarrow> length i \<le> 4096 \<and> trimRight i = i \<and> take 6 i \<noteq> ascii ''close.''"

lemma dispatch_turn_dialed:
  assumes "length (encodeStopMessage m) \<le> 4096" "Stop_Type m = StopTypeConnect" "socket_name i"
    and "rc_written rc = writePbMessage i @ q"
  shows "dispatch_turn seq dn pick (stop_stream m rc) c = (case cl_connSockets c i of
      Some sock \<Rightarrow> Returns (c\<lparr>cl_connSockets := (cl_connSockets c)(i \<mapsto> dispatchIncoming (arrives rc) sock)\<rparr>)
    | None \<Rightarrow> dispatch_new dn pick i (arrives rc) c)"
  using assms dialed_reads_id [OF assms(4)]
  by (simp add: dispatch_turn_stop dispatch_conn_message socket_name_def split: option.split)

text \<open>A client that takes the streams of a socket's connections one after the other.\<close>

fun dispatch_all :: "u64 \<Rightarrow> yamux_stream list \<Rightarrow> RelayClient \<Rightarrow> RelayClient outcome" where
  "dispatch_all seq [] c = Returns c"
| "dispatch_all seq (st # sts) c = (case dispatch_turn seq False True st c of
      Returns c1 \<Rightarrow> dispatch_all seq sts c1
    | Blocks \<Rightarrow> Blocks
    | Crashes \<Rightarrow> Crashes)"

lemma dispatch_all_known:
  assumes "length (encodeStopMessage m) \<le> 4096" "Stop_Type m = StopTypeConnect" "socket_name i"
  shows "list_all (\<lambda>rc. \<exists>q. rc_written rc = writePbMessage i @ q) rcs \<Longrightarrow> cl_connSockets c i = Some sock \<Longrightarrow>
    dispatch_all seq (map (stop_stream m) rcs) c =
      Returns (c\<lparr>cl_connSockets := (cl_connSockets c)(i \<mapsto> fold dispatchIncoming (map arrives rcs) sock)\<rparr>)"
proof (induction rcs arbitrary: c sock)
  case Nil
  then have "(cl_connSockets c)(i \<mapsto> sock) = cl_connSockets c" by (simp add: fun_upd_idem)
  then show ?case by simp
next
  case (Cons rc rcs)
  then obtain q where q: "rc_written rc = writePbMessage i @ q" by auto
  define sock1 where "sock1 = dispatchIncoming (arrives rc) sock"
  define c1 where "c1 = c\<lparr>cl_connSockets := (cl_connSockets c)(i \<mapsto> sock1)\<rparr>"
  have "dispatch_turn seq False True (stop_stream m rc) c = Returns c1"
    using dispatch_turn_dialed [OF assms q] Cons.prems(2) by (simp add: c1_def sock1_def)
  moreover have "dispatch_all seq (map (stop_stream m) rcs) c1 =
      Returns (c1\<lparr>cl_connSockets := (cl_connSockets c1)(i \<mapsto> fold dispatchIncoming (map arrives rcs) sock1)\<rparr>)"
    by (rule Cons.IH) (use Cons.prems(1) in \<open>simp_all add: c1_def\<close>)
  ultimately show ?case by (simp add: c1_def sock1_def del: fun_upd_apply)
qed

lemma dispatch_all_new:
  assumes "length (encodeStopMessage m) \<le> 4096" "Stop_Type m = StopTypeConnect" "socket_name i"
    and "list_all (\<lambda>rc. \<exists>q. rc_written rc = writePbMessage i @ q) rcs" "rcs \<noteq> []"
    and "cl_connSockets c i = None" "length (cl_acceptChan c) < 8"
  shows "\<exists>c1. dispatch_all seq (map (stop_stream m) rcs) c = Returns c1 \<and> cl_acceptChan c1 = cl_acceptChan c @ [i] \<and>
    cl_connSockets c1 i = Some (fold dispatchIncoming (map arrives rcs) (newRelaySocketWithID i (Some (cl_limit c)))) \<and>
    (\<forall>j. j \<noteq> i \<longrightarrow> cl_connSockets c1 j = cl_connSockets c j)"
proof -
  obtain rc rest where rcs: "rcs = rc # rest" using assms(5) by (cases rcs) auto
  then obtain q where q: "rc_written rc = writePbMessage i @ q" using assms(4) by auto
  let ?sock = "dispatchIncoming (arrives rc) (newRelaySocketWithID i (Some (cl_limit c)))"
  let ?c1 = "c\<lparr>cl_connSockets := (cl_connSockets c)(i \<mapsto> ?sock), cl_acceptChan := cl_acceptChan c @ [i]\<rparr>"
  have "dispatch_turn seq False True (stop_stream m rc) c = Returns ?c1"
    using dispatch_turn_dialed [OF assms(1-3) q] assms(6,7) by (simp add: dispatch_new_def)
  then show ?thesis
    using dispatch_all_known [OF assms(1-3), of rest ?c1 ?sock seq] assms(4) rcs by simp
qed

lemma closeSocket_blocks:
  "registered_ok i s \<Longrightarrow> cl_mu c \<Longrightarrow> cl_connSocketsMu c \<Longrightarrow> closeSocket v2 v1 s c \<noteq> Returns p"
  by (auto simp: closeSocket_def registered_ok_def ConnectThroughRelay_def Let_def)

lemma close_sockets_locked:
  assumes "cl_mu c" "cl_connSocketsMu c" "\<forall>i s. cl_connSockets c i = Some s \<longrightarrow> registered_ok i s"
  shows "close_sockets order c = Returns c1 \<longleftrightarrow> (\<forall>i \<in> set order. cl_connSockets c i = None) \<and> c1 = c"
proof (induction order)
  case (Cons i order)
  then show ?case
    using closeSocket_blocks [OF _ assms(1,2), of i] assms(3)
    by (auto split: option.splits outcome.splits)
qed auto

section \<open>Properties\<close>


lemma demo_name: "socket_name (ascii ''sock0.7'')"
  by (simp add: socket_name_def ascii_def trimRight_def)

lemma demo_connect_short: "length (encodeStopMessage demo_connect) \<le> 4096" "Stop_Type demo_connect = StopTypeConnect"
  by (simp_all add: demo_connect_def encodeStopMessage_def pbEncodeVarintField_def encodeTag_def encodeVarint_small
      StopTypeConnect_def)

lemma demo_calls_written:
  "write_calls demo_calls (newRelaySocketWithID (ascii ''sock0.7'') demo_client) = ([1, 2, 3, 4, 5], snd demo_written)"
  "length (conns (snd demo_written)) = 3" "list_all (\<lambda>(d, _). fresh_dial d) demo_calls"
proof -
  have "fst demo_written = [1, 2, 3, 4, 5]" by code_simp
  then show "write_calls demo_calls (newRelaySocketWithID (ascii ''sock0.7'') demo_client) =
      ([1, 2, 3, 4, 5], snd demo_written)"
    by (metis demo_written_def prod.collapse)
  show "length (conns (snd demo_written)) = 3" by code_simp
  show "list_all (\<lambda>(d, _). fresh_dial d) demo_calls" by (simp add: demo_calls_def fresh_dial_def demo_conn_def)
qed




text \<open>The close message of a socket reaches the socket of the same identifier on the other side only if
  the identifier starts with \<^verbatim>\<open>sock0.\<close>; an identifier that was drawn again starts with \<^verbatim>\<open>sock.\<close> and its
  socket is never told.\<close>

theorem close_message_signals:
  assumes "length (encodeStopMessage m) \<le> 4096" "Stop_Type m = StopTypeConnect" "cl_connSockets c i = Some s"
    and "closeID i = Some msg" "length i \<le> 4096" "trimRight msg = msg" "rc_written rc = writePbMessage msg"
  shows "\<exists>c1. dispatch_turn seq dn pick (stop_stream m rc) c = Returns c1 \<and>
    cl_connSockets c1 i = Some (if take 6 i = ascii ''sock0.'' then signalClose s else s)"
proof -
  have msg: "msg = ascii ''close.'' @ drop 6 i" "6 \<le> length i"
    using assms(4) by (auto simp: closeID_def split: if_splits)
  have "take 6 i = ascii ''sock0.'' \<longleftrightarrow> i = ascii ''sock0.'' @ drop 6 i"
    by (metis append_take_drop_id append_same_eq)
  moreover have "length (ascii ''close.'') = 6" by (simp add: ascii_def)
  ultimately show ?thesis
    using dispatch_turn_stop [OF assms(1,2), of seq dn pick rc c] assms(3,5-7) msg
      dispatch_conn_message [of _ msg "[]" dn pick c]
    by (auto simp: Let_def split: option.splits)
qed

definition demo_registered :: "bytes \<Rightarrow> RelayClient" where
  "demo_registered i = NewSocket i (NewRelayClient demo_me)"

theorem close_message_signals_witness:
  "\<exists>c1. dispatch_turn 0 False True (stop_stream demo_connect
      (demo_conn\<lparr>rc_written := writePbMessage (ascii ''close.0260101'')\<rparr>)) (demo_registered (ascii ''sock.20260101'')) = Returns c1 \<and>
    cl_connSockets c1 (ascii ''sock.20260101'') = Some (newRelaySocketWithID (ascii ''sock.20260101'') (Some None))"
proof -
  have "closeID (ascii ''sock.20260101'') = Some (ascii ''close.0260101'')" by code_simp
  moreover have "trimRight (ascii ''close.0260101'') = ascii ''close.0260101''" by code_simp
  ultimately show ?thesis
    using close_message_signals [OF demo_connect_short, of "demo_registered (ascii ''sock.20260101'')"
        "ascii ''sock.20260101''" _ "ascii ''close.0260101''"
        "demo_conn\<lparr>rc_written := writePbMessage (ascii ''close.0260101'')\<rparr>" 0 False True]
    by (simp add: demo_registered_def NewSocket_def NewRelayClient_def ascii_def)
qed

text \<open>C31: Closing a client that still has a socket never returns: the loop over the sockets holds both mutexes, and
  closing a socket takes one of them again.  Only a client without sockets can be closed.\<close>

theorem RelayClient_Close_returns_iff:
  assumes "registry_inv c" "set order = dom (cl_connSockets c)"
  shows "(\<exists>c1. RelayClient_Close order c = Returns c1) \<longleftrightarrow> cl_connSockets c = Map.empty"
proof -
  let ?c2 = "(notifySessionDone (stopDispatch c))\<lparr>cl_mu := True, cl_watchdog := False, cl_connSocketsMu := True\<rparr>"
  have "close_sockets order ?c2 = Returns c1 \<longleftrightarrow> (\<forall>i \<in> set order. cl_connSockets ?c2 i = None) \<and> c1 = ?c2" for c1
    using assms(1)
    by (intro close_sockets_locked) (simp_all add: registry_inv_def notifySessionDone_def stopDispatch_def)
  moreover have "(\<forall>i \<in> set order. cl_connSockets ?c2 i = None) \<longleftrightarrow> cl_connSockets c = Map.empty"
    using assms(2) by (auto simp: notifySessionDone_def stopDispatch_def)
  ultimately show ?thesis
    using assms(1)
    by (auto simp: RelayClient_Close_def registry_inv_def notifySessionDone_def stopDispatch_def split: outcome.splits)
      blast+
qed

theorem RelayClient_Close_returns_iff_witness:
  "\<nexists>c1. RelayClient_Close [ascii ''sock0.7''] (demo_registered (ascii ''sock0.7'')) = Returns c1"
  using RelayClient_Close_returns_iff [of "demo_registered (ascii ''sock0.7'')" "[ascii ''sock0.7'']"]
  by (simp add: demo_registered_def NewSocket_def NewRelayClient_def registry_inv_def)

text \<open>A reservation that the relay grants is recorded as the relay sent it: the client holds it exactly
  until its expiry, and its addresses, voucher and limit are those of the answer.  A refusal changes nothing.\<close>

theorem Reserve_outcome:
  assumes "cl_session c" "st_in s = ms_answer hopProtoID @ writePbMessage (encodeHopMessage m) @ rest"
    and "3 \<le> st_left s" "length (encodeHopMessage m) \<le> 4096" "Hop_Reservation m = Some r"
  shows "\<exists>res c1. Reserve (Some s) c = (res, c1) \<and>
    (if Hop_Type m = HopTypeStatus \<and> Hop_Status m = StatusOK
     then res = Ok () \<and> HasReservation now c1 = (now < sint (Resv_Expire r)) \<and>
       cl_reservationAddrs c1 = Resv_Addrs r \<and> cl_voucher c1 = Resv_Voucher r \<and>
       cl_limit c1 = (case Hop_Limit m of None \<Rightarrow> cl_limit c | l \<Rightarrow> l)
     else (\<exists>e. res = Err e) \<and> c1 = c)"
proof -
  have "Hop_Status (hop_sent m) = StatusOK \<longleftrightarrow> Hop_Status m = StatusOK"
    by (auto simp: hop_sent_def StatusOK_def)
  moreover have "hop_request_reserve (Some s) c = Ok (hop_sent m)"
    using hop_msg.request_answered [OF assms(2,3) _ _ assms(4)] proto_names assms(1)
    by (simp add: hop_request_reserve_def)
  ultimately show ?thesis
    using assms(5) by (auto simp: Reserve_def hop_status_def HasReservation_def hop_sent_def split: option.splits)
qed

definition demo_granted :: HopMessage where
  "demo_granted = demo_status\<lparr>Hop_Reservation := Some \<lparr>Resv_Expire = 100, Resv_Addrs = [], Resv_Voucher = None\<rparr>\<rparr>"

theorem Reserve_outcome_witness:
  "\<exists>c1. Reserve (Some (demo_stream (ms_answer hopProtoID @ writePbMessage (encodeHopMessage demo_granted) @ [])))
      ((NewRelayClient demo_me)\<lparr>cl_session := True\<rparr>) = (Ok (), c1) \<and> HasReservation 99 c1"
proof -
  have "length (encodeHopMessage demo_granted) \<le> 4096"
    by (simp add: demo_granted_def demo_status_def encodeHopMessage_def pbEncodeVarintField_def encodeTag_def
        pbEncodeLengthDelimField_def encodeReservation_def encodeVarint_small)
  then show ?thesis
    using Reserve_outcome [of "(NewRelayClient demo_me)\<lparr>cl_session := True\<rparr>" "demo_stream (ms_answer hopProtoID
      @ writePbMessage (encodeHopMessage demo_granted) @ [])" demo_granted "[]"
      "\<lparr>Resv_Expire = 100, Resv_Addrs = [], Resv_Voucher = None\<rparr>" 99]
    by (auto simp: demo_stream_def demo_granted_def demo_status_def HopTypeStatus_def StatusOK_def)
qed

end
