(* ===== verification/Mintox_Crypto.thy ===== *)
theory Mintox_Crypto
  imports Tcp_Packet
begin

text \<open>
  The key and box operations of \<^verbatim>\<open>mintox\<close> (\<^verbatim>\<open>crypto_core0.go\<close> with its switch on the pure Go library,
  \<^verbatim>\<open>crypto_core2.go\<close>).  An assertion (\<^verbatim>\<open>gopp.Assert\<close>) that fails does not return and is a panic.
\<close>

datatype mintox_error = OpenFailed

definition NewCryptoKey :: "bytes \<Rightarrow> (mintox_error, bytes) res" where
  "NewCryptoKey b = (if length b = 32 then Ok b else Panic)"

definition NewCBNonce :: "bytes \<Rightarrow> (mintox_error, bytes) res" where
  "NewCBNonce nonce = (if length nonce = 24 then Ok nonce else Panic)"

definition CBBeforeNm :: "nacl \<Rightarrow> bytes \<Rightarrow> bytes \<Rightarrow> bytes" where
  "CBBeforeNm nb pk sk = nb_Precompute nb pk sk"

definition EncryptDataSymmetric :: "nacl \<Rightarrow> bytes \<Rightarrow> bytes \<Rightarrow> bytes \<Rightarrow> (mintox_error, bytes) res" where
  "EncryptDataSymmetric nb k n plain =
    (let encrypted = nb_Seal nb k n plain in
     if length encrypted = length plain + 16 then Ok encrypted else Panic)"

text \<open>When the box does not open, the plain text is empty; the assertion on its length comes before the
  error is looked at.\<close>

definition DecryptDataSymmetric :: "nacl \<Rightarrow> bytes \<Rightarrow> bytes \<Rightarrow> bytes \<Rightarrow> (mintox_error, bytes) res" where
  "DecryptDataSymmetric nb k n encrypted =
    (case nb_Open nb k n encrypted of
       Some plain \<Rightarrow> if int (length plain) = int (length encrypted) - 16 then Ok plain else Panic
     | None \<Rightarrow> if 0 = int (length encrypted) - 16 then Err OpenFailed else Panic)"

lemma EncryptDataSymmetric_ok: "box_ok nb \<Longrightarrow> EncryptDataSymmetric nb k n p = Ok (nb_Seal nb k n p)"
  by (simp add: EncryptDataSymmetric_def box_okD)

lemma DecryptDataSymmetric_ok:
  assumes "box_ok nb"
  shows "DecryptDataSymmetric nb k n (nb_Seal nb k n p) = Ok p"
  using box_okD [OF assms] by (simp add: DecryptDataSymmetric_def)

lemma DecryptDataSymmetric_forged:
  "nb_Open nb k n c = None \<Longrightarrow> length c \<noteq> 16 \<Longrightarrow> DecryptDataSymmetric nb k n c = Panic"
  by (simp add: DecryptDataSymmetric_def)

end
