(* ===== verification/Tcp_Server.thy ===== *)
theory Tcp_Server
  imports Mintox_Crypto
begin

text \<open>
  The TCP relay server of \<^verbatim>\<open>mintox/tcp_server.go\<close>.  Connections live in a store and are named by their
  socket; the server's tables hold these names, as the Go maps hold pointers.  A routing entry
  (\<^verbatim>\<open>PeerConnInfo\<close>) is shared by the two tables of a connection; it is named by its connection number, which
  is never given twice.  Random values, the order in which a Go map is walked and the clock are arguments.
\<close>

section \<open>State\<close>

record PeerConnInfo =
  pci_Pubkey :: bytes
  pci_Status :: nat
  pci_Otherid :: byte
  pci_Connid :: byte

datatype tcp_status = TCP_STATUS_NO_STATUS | TCP_STATUS_UNCONFIRMED | TCP_STATUS_CONFIRMED

record TCPSecureConn =
  sc_Pubkey :: "bytes option"
  sc_Seckey :: bytes
  sc_Shrkey :: bytes
  sc_RecvNonce :: bytes
  sc_SentNonce :: bytes
  sc_ConnInfos :: "bytes \<rightharpoonup> byte"
  sc_ConnInfos2 :: "byte \<rightharpoonup> PeerConnInfo"
  sc_ConnIds :: "byte \<Rightarrow> bool"
  sc_Status :: tcp_status
  sc_crbuf :: bytes
  sc_nxtpktlen :: nat
  sc_cwctrlq :: "bytes list"
  sc_cwdataq :: "bytes list"
  sc_wrote :: bytes
  sc_onClosed :: bool
  sc_sockClosed :: bool

record TCPServer =
  ts_Seckey :: bytes
  ts_store :: "nat \<rightharpoonup> TCPSecureConn"
  ts_Conns :: "bytes \<rightharpoonup> nat"
  ts_HSConns :: "nat set"

definition initConnids :: "byte \<Rightarrow> bool" where
  "initConnids = (\<lambda>_. False)"

definition NewTCPSecureConn :: "bytes \<Rightarrow> TCPSecureConn" where
  "NewTCPSecureConn seckey = \<lparr>sc_Pubkey = None, sc_Seckey = seckey, sc_Shrkey = [], sc_RecvNonce = [],
     sc_SentNonce = [], sc_ConnInfos = Map.empty, sc_ConnInfos2 = Map.empty, sc_ConnIds = initConnids,
     sc_Status = TCP_STATUS_NO_STATUS, sc_crbuf = [], sc_nxtpktlen = 0, sc_cwctrlq = [], sc_cwdataq = [],
     sc_wrote = [], sc_onClosed = True, sc_sockClosed = False\<rparr>"

definition NewTCPServer :: "bytes \<Rightarrow> TCPServer" where
  "NewTCPServer seckey = \<lparr>ts_Seckey = seckey, ts_store = Map.empty, ts_Conns = Map.empty, ts_HSConns = {}\<rparr>"

definition startHandshake :: "nat \<Rightarrow> TCPServer \<Rightarrow> TCPServer" where
  "startHandshake c srv = srv\<lparr>ts_store := (ts_store srv)(c \<mapsto> NewTCPSecureConn (ts_Seckey srv)),
     ts_HSConns := insert c (ts_HSConns srv)\<rparr>"

text \<open>A change to one connection.\<close>

definition upd_conn :: "nat \<Rightarrow> (TCPSecureConn \<Rightarrow> TCPSecureConn) \<Rightarrow> TCPServer \<Rightarrow> TCPServer" where
  "upd_conn i f srv = srv\<lparr>ts_store := (ts_store srv)(i := map_option f (ts_store srv i))\<rparr>"

section \<open>Packets\<close>

text \<open>The queues hold 64 and 128 packets; a packet that does not fit is dropped.\<close>

definition SendCtrlPacket :: "bytes \<Rightarrow> TCPSecureConn \<Rightarrow> TCPSecureConn" where
  "SendCtrlPacket data c =
    (if 2048 < length data then c
     else if 64 \<le> length (sc_cwctrlq c) then c
     else c\<lparr>sc_cwctrlq := sc_cwctrlq c @ [data]\<rparr>)"

definition SendDataPacket :: "byte \<Rightarrow> bytes \<Rightarrow> TCPSecureConn \<Rightarrow> TCPSecureConn" where
  "SendDataPacket connid data c =
    (if 2048 < length data then c
     else if 128 \<le> length (sc_cwdataq c) then c
     else c\<lparr>sc_cwdataq := sc_cwdataq c @ [connid # data]\<rparr>)"

definition CreatePacket :: "nacl \<Rightarrow> bytes \<Rightarrow> TCPSecureConn \<Rightarrow> (mintox_error, bytes) res" where
  "CreatePacket nb plain c = (case EncryptDataSymmetric nb (sc_Shrkey c) (sc_SentNonce c) plain of
      Ok encdat \<Rightarrow> Ok (put_u16 (of_nat (length encdat)) @ encdat)
    | Err e \<Rightarrow> Err e
    | Panic \<Rightarrow> Panic)"

definition Unpacket :: "nacl \<Rightarrow> bytes \<Rightarrow> TCPSecureConn \<Rightarrow> (mintox_error, bytes) res \<times> TCPSecureConn" where
  "Unpacket nb encpkt c =
    (DecryptDataSymmetric nb (sc_Shrkey c) (sc_RecvNonce c) (drop 2 encpkt),
     c\<lparr>sc_RecvNonce := Incr2 (sc_RecvNonce c)\<rparr>)"

text \<open>\<^verbatim>\<open>ok\<close> is the result of the socket write.\<close>

definition WritePacket :: "nacl \<Rightarrow> bool \<Rightarrow> bytes \<Rightarrow> TCPSecureConn \<Rightarrow> (mintox_error, bool) res \<times> TCPSecureConn" where
  "WritePacket nb ok data c = (case CreatePacket nb data c of
      Ok encpkt \<Rightarrow>
        if ok then (Ok True, c\<lparr>sc_wrote := sc_wrote c @ encpkt, sc_SentNonce := Incr2 (sc_SentNonce c)\<rparr>)
        else (Ok False, c)
    | Err e \<Rightarrow> (Err e, c)
    | Panic \<Rightarrow> (Panic, c))"

text \<open>One turn of \<^verbatim>\<open>runWriteLoop\<close>: \<^verbatim>\<open>ctrl\<close> is the case its \<^verbatim>\<open>select\<close> takes when both queues have a packet, \<^verbatim>\<open>ok\<close>
  whether the socket takes the writes of this turn.  A data packet is followed by all waiting control
  packets.  The flag says whether the loop goes on.\<close>

fun flushCtrl :: "nacl \<Rightarrow> bool \<Rightarrow> bytes list \<Rightarrow> TCPSecureConn \<Rightarrow> (mintox_error, bool) res \<times> TCPSecureConn" where
  "flushCtrl nb ok [] c = (Ok True, c)"
| "flushCtrl nb ok (d # ds) c = (case WritePacket nb ok d (c\<lparr>sc_cwctrlq := ds\<rparr>) of
      (Ok True, c1) \<Rightarrow> flushCtrl nb ok ds c1
    | r \<Rightarrow> r)"

definition writeLoop_turn ::
  "nacl \<Rightarrow> bool \<Rightarrow> bool \<Rightarrow> TCPSecureConn \<Rightarrow> (mintox_error, bool) res \<times> TCPSecureConn" where
  "writeLoop_turn nb ok ctrl c = (case (sc_cwctrlq c, sc_cwdataq c) of
      ([], []) \<Rightarrow> (Ok True, c)
    | (d # ds, []) \<Rightarrow> WritePacket nb ok d (c\<lparr>sc_cwctrlq := ds\<rparr>)
    | (cs, d # ds) \<Rightarrow>
        if ctrl \<and> cs \<noteq> [] then WritePacket nb ok (hd cs) (c\<lparr>sc_cwctrlq := tl cs\<rparr>)
        else (case WritePacket nb ok d (c\<lparr>sc_cwdataq := ds\<rparr>) of
            (Ok True, c1) \<Rightarrow> flushCtrl nb ok (sc_cwctrlq c1) c1
          | r \<Rightarrow> r))"

section \<open>Handshake\<close>

text \<open>\<^verbatim>\<open>sn\<close> and \<^verbatim>\<open>tn\<close> are the fresh nonces, \<^verbatim>\<open>tpk\<close> and \<^verbatim>\<open>tsk\<close> the fresh key pair.  An undecryptable request leaves an
  empty plain text, which the next slice refuses.\<close>

definition HandleHandshake ::
  "nacl \<Rightarrow> bytes \<Rightarrow> bytes \<Rightarrow> bytes \<Rightarrow> bytes \<Rightarrow> bytes \<Rightarrow> TCPSecureConn \<Rightarrow> (mintox_error, TCPSecureConn) res" where
  "HandleHandshake nb sn tn tpk tsk rdbuf c =
    (if length rdbuf < 56 then Panic
     else
       let cliPubkey = take 32 rdbuf;
           cliTmpNonce = take 24 (drop 32 rdbuf);
           shrkey = CBBeforeNm nb cliPubkey (sc_Seckey c);
           c1 = c\<lparr>sc_Pubkey := Some cliPubkey\<rparr> in
       case DecryptDataSymmetric nb shrkey cliTmpNonce (drop 56 rdbuf) of
         Panic \<Rightarrow> Panic
       | Err e \<Rightarrow> Panic
       | Ok cliplnpkt \<Rightarrow>
           if length cliplnpkt < 56 then Panic
           else
             let hstmppk = take 32 cliplnpkt;
                 c2 = c1\<lparr>sc_RecvNonce := take 24 (drop 32 cliplnpkt), sc_SentNonce := sn,
                         sc_Shrkey := CBBeforeNm nb hstmppk tsk\<rparr> in
             (case EncryptDataSymmetric nb shrkey tn (tpk @ sc_SentNonce c2) of
                Ok encpkt \<Rightarrow> Ok (c2\<lparr>sc_wrote := sc_wrote c2 @ tn @ encpkt\<rparr>)
              | Err e \<Rightarrow> Err e
              | Panic \<Rightarrow> Panic))"

section \<open>Routing\<close>

text \<open>\<^verbatim>\<open>order\<close> is the order in which the map of connection numbers is walked.\<close>

definition nextConnid :: "byte list \<Rightarrow> TCPSecureConn \<Rightarrow> byte \<times> TCPSecureConn" where
  "nextConnid order c = (case find (\<lambda>i. \<not> sc_ConnIds c i) order of
      Some i \<Rightarrow> (i + 16, c\<lparr>sc_ConnIds := (sc_ConnIds c)(i := True)\<rparr>)
    | None \<Rightarrow> (0, c))"

definition freeConnid :: "byte \<Rightarrow> TCPSecureConn \<Rightarrow> TCPSecureConn" where
  "freeConnid connid c = c\<lparr>sc_ConnIds := (sc_ConnIds c)(connid - 16 := False)\<rparr>"

definition sendRoutingResponse :: "byte \<Rightarrow> bytes \<Rightarrow> TCPSecureConn \<Rightarrow> TCPSecureConn" where
  "sendRoutingResponse connid peerpk c = SendCtrlPacket (1 # connid # peerpk) c"

definition SendConnectNotification :: "byte \<Rightarrow> TCPSecureConn \<Rightarrow> TCPSecureConn" where
  "SendConnectNotification connid c = SendCtrlPacket [2, connid] c"

definition SendDisconnectNotification :: "byte \<Rightarrow> TCPSecureConn \<Rightarrow> TCPSecureConn" where
  "SendDisconnectNotification connid c = SendCtrlPacket [3, connid] c"

text \<open>The assignments to \<^verbatim>\<open>Status\<close> and \<^verbatim>\<open>Otherid\<close> of an entry.\<close>

definition set_link :: "byte \<Rightarrow> nat \<Rightarrow> byte \<Rightarrow> TCPSecureConn \<Rightarrow> TCPSecureConn" where
  "set_link connid status other c =
    c\<lparr>sc_ConnInfos2 := (sc_ConnInfos2 c)(connid := map_option
       (\<lambda>p. p\<lparr>pci_Status := status, pci_Otherid := other\<rparr>) (sc_ConnInfos2 c connid))\<rparr>"

text \<open>The entry that \<^verbatim>\<open>ConnInfos\<close> has for a key.\<close>

definition conn_info :: "TCPSecureConn \<Rightarrow> bytes \<Rightarrow> PeerConnInfo option" where
  "conn_info c pk = Option.bind (sc_ConnInfos c pk) (sc_ConnInfos2 c)"

text \<open>The last part of \<^verbatim>\<open>handleRoutingRequest\<close>: when the peer has asked for this client too, both entries are
  linked and both clients are told.\<close>

definition link_peers :: "nat \<Rightarrow> bytes \<Rightarrow> byte \<Rightarrow> TCPServer \<Rightarrow> TCPServer" where
  "link_peers this peerpk connid srv = (case ts_Conns srv peerpk of
      None \<Rightarrow> srv
    | Some peerco \<Rightarrow>
        (case (ts_store srv this, ts_store srv peerco) of
           (Some c, Some pc) \<Rightarrow>
             (case Option.bind (sc_Pubkey c) (conn_info pc) of
                None \<Rightarrow> srv
              | Some pci2 \<Rightarrow>
                  let s1 = upd_conn this (set_link connid 2 (pci_Connid pci2)) srv;
                      s2 = upd_conn peerco (set_link (pci_Connid pci2) 2 connid) s1;
                      s3 = upd_conn this (SendConnectNotification connid) s2
                  in upd_conn peerco (SendConnectNotification (pci_Connid pci2)) s3)
         | _ \<Rightarrow> srv))"

definition add_info :: "byte \<Rightarrow> bytes \<Rightarrow> TCPSecureConn \<Rightarrow> TCPSecureConn" where
  "add_info connid peerpk c =
    c\<lparr>sc_ConnInfos := (sc_ConnInfos c)(peerpk \<mapsto> connid),
      sc_ConnInfos2 := (sc_ConnInfos2 c)(connid \<mapsto>
        \<lparr>pci_Pubkey = peerpk, pci_Status = 1, pci_Otherid = 0, pci_Connid = connid\<rparr>)\<rparr>"

definition new_route :: "byte list \<Rightarrow> nat \<Rightarrow> bytes \<Rightarrow> TCPSecureConn \<Rightarrow> TCPServer \<Rightarrow> TCPServer" where
  "new_route order this peerpk c srv = (case nextConnid order c of (connid, c1) \<Rightarrow>
     if connid = 0 then upd_conn this (\<lambda>_. sendRoutingResponse 0 peerpk c1) srv
     else link_peers this peerpk connid
       (upd_conn this (\<lambda>_. sendRoutingResponse connid peerpk (add_info connid peerpk c1)) srv))"

definition handleRoutingRequest ::
  "byte list \<Rightarrow> nat \<Rightarrow> bytes \<Rightarrow> TCPServer \<Rightarrow> (mintox_error, TCPServer) res" where
  "handleRoutingRequest order this reqpkt srv = (case ts_store srv this of
      None \<Rightarrow> Ok srv
    | Some c \<Rightarrow>
        if length reqpkt < 33 then Panic
        else
          let peerpk = take 32 (drop 1 reqpkt) in
          if sc_Pubkey c = Some peerpk then Ok (upd_conn this (sendRoutingResponse 0 peerpk) srv)
          else case conn_info c peerpk of
            Some cio \<Rightarrow>
              if 0 < pci_Status cio
              then Ok (upd_conn this (sendRoutingResponse (pci_Connid cio) peerpk) srv)
              else Ok (new_route order this peerpk c srv)
          | None \<Rightarrow> Ok (new_route order this peerpk c srv))"

text \<open>Data for a peer goes out under the number the peer has for the sender.\<close>

definition HandleRoutingData :: "nat \<Rightarrow> bytes \<Rightarrow> TCPServer \<Rightarrow> (mintox_error, TCPServer) res" where
  "HandleRoutingData this rpkt srv = (case (ts_store srv this, rpkt) of
      (Some c, connid # data) \<Rightarrow>
        (case sc_ConnInfos2 c connid of
           None \<Rightarrow> Ok srv
         | Some pci \<Rightarrow>
             (case ts_Conns srv (pci_Pubkey pci) of
                None \<Rightarrow> Ok srv
              | Some peerco \<Rightarrow>
                  (case Option.bind (ts_store srv peerco) (\<lambda>pc. Option.bind (sc_Pubkey c) (conn_info pc)) of
                     None \<Rightarrow> Ok srv
                   | Some pci3 \<Rightarrow> Ok (upd_conn peerco (SendDataPacket (pci_Connid pci3) data) srv))))
    | (Some c, []) \<Rightarrow> Panic
    | (None, _) \<Rightarrow> Ok srv)"

definition HandleDisconnectNotification :: "nat \<Rightarrow> bytes \<Rightarrow> TCPServer \<Rightarrow> (mintox_error, TCPServer) res" where
  "HandleDisconnectNotification this pkt srv = (case ts_store srv this of
      None \<Rightarrow> Ok srv
    | Some c \<Rightarrow>
        if length pkt < 2 then Panic
        else let connid = pkt ! 1 in
          case sc_ConnInfos2 c connid of
            None \<Rightarrow> Panic
          | Some pci0 \<Rightarrow>
              (case ts_Conns srv (pci_Pubkey pci0) of
                 None \<Rightarrow> Ok srv
               | Some peerco \<Rightarrow>
                   (case Option.bind (ts_store srv peerco) (\<lambda>pc. sc_ConnInfos2 pc (pci_Otherid pci0)) of
                      None \<Rightarrow> Ok srv
                    | Some pci2 \<Rightarrow>
                        let peercid = pci_Connid pci2;
                            s1 = upd_conn peerco (set_link peercid 1 0) srv;
                            s2 = upd_conn this (set_link connid 1 0) s1
                        in Ok (upd_conn peerco (SendDisconnectNotification peercid) s2))))"

definition HandlePingRequest :: "bytes \<Rightarrow> TCPSecureConn \<Rightarrow> TCPSecureConn" where
  "HandlePingRequest rpkt c = SendCtrlPacket (5 # drop 1 rpkt) c"

section \<open>Connections that come and go\<close>

text \<open>Whether the server's table has the connection (under its own key).\<close>

definition registered :: "TCPServer \<Rightarrow> nat \<Rightarrow> TCPSecureConn \<Rightarrow> bool" where
  "registered srv i c = (case sc_Pubkey c of None \<Rightarrow> False | Some pk \<Rightarrow> ts_Conns srv pk = Some i)"

text \<open>\<^verbatim>\<open>killAccepted\<close>: every registered connection with an entry for the key loses its link and is told.\<close>

definition kill_entry :: "bytes \<Rightarrow> TCPSecureConn \<Rightarrow> TCPSecureConn" where
  "kill_entry delpk c = (case conn_info c delpk of
      None \<Rightarrow> c
    | Some pci \<Rightarrow> SendDisconnectNotification (pci_Connid pci) (set_link (pci_Connid pci) 1 0 c))"

definition killAccepted :: "bytes \<Rightarrow> TCPServer \<Rightarrow> TCPServer" where
  "killAccepted delpk srv = srv\<lparr>ts_store := (\<lambda>i. case ts_store srv i of
      None \<Rightarrow> None
    | Some c \<Rightarrow> Some (if registered srv i c then kill_entry delpk c else c))\<rparr>"

text \<open>\<^verbatim>\<open>onConnClosed\<close>; None is the nil dereference when no handshake has set the key.  By then the connection has left
  \<^verbatim>\<open>HSConns\<close>.\<close>

definition onConnClosed :: "nat \<Rightarrow> TCPSecureConn \<Rightarrow> TCPServer \<Rightarrow> TCPServer option" where
  "onConnClosed i c srv = (case sc_Pubkey c of
      None \<Rightarrow> None
    | Some pk \<Rightarrow>
        Some (killAccepted pk (srv\<lparr>ts_HSConns := ts_HSConns srv - {i}, ts_Conns := (ts_Conns srv)(pk := None)\<rparr>)))"

text \<open>\<^verbatim>\<open>doClose\<close> recovers from every panic.\<close>

definition doClose :: "nat \<Rightarrow> TCPServer \<Rightarrow> TCPServer" where
  "doClose i srv = (case ts_store srv i of
      None \<Rightarrow> srv
    | Some c \<Rightarrow>
        let srv1 = upd_conn i (\<lambda>c. c\<lparr>sc_Status := TCP_STATUS_NO_STATUS\<rparr>) srv;
            fin = upd_conn i (\<lambda>c. c\<lparr>sc_onClosed := False, sc_sockClosed := True\<rparr>) in
        if sc_onClosed c
        then (case onConnClosed i c srv1 of
                None \<Rightarrow> srv1\<lparr>ts_HSConns := ts_HSConns srv1 - {i}\<rparr>
              | Some srv2 \<Rightarrow> fin srv2)
        else fin srv1)"

definition onConnConfirmed :: "nat \<Rightarrow> TCPServer \<Rightarrow> TCPServer" where
  "onConnConfirmed i srv = (case Option.bind (ts_store srv i) sc_Pubkey of
      None \<Rightarrow> srv
    | Some pk \<Rightarrow>
        let srv1 = srv\<lparr>ts_HSConns := ts_HSConns srv - {i}\<rparr>;
            srv2 = (case ts_Conns srv1 pk of
                      None \<Rightarrow> srv1
                    | Some oc \<Rightarrow> doClose oc (upd_conn oc (\<lambda>c. c\<lparr>sc_onClosed := False\<rparr>)
                                  (srv1\<lparr>ts_Conns := (ts_Conns srv1)(pk := None)\<rparr>)))
        in srv2\<lparr>ts_Conns := (ts_Conns srv2)(pk \<mapsto> i)\<rparr>)"

section \<open>Reading\<close>

text \<open>The next frame of a connection: nothing yet, or the frame with its length in front.  The length of the
  buffer is computed in 16 bits.\<close>

definition read_frame :: "TCPSecureConn \<Rightarrow> (mintox_error, bytes option \<times> TCPSecureConn) res" where
  "read_frame c = (case sc_Status c of
      TCP_STATUS_NO_STATUS \<Rightarrow>
        if length (sc_crbuf c) < 128 then Panic
        else Ok (Some (take 128 (sc_crbuf c)), c\<lparr>sc_crbuf := drop 128 (sc_crbuf c)\<rparr>)
    | _ \<Rightarrow>
        if sc_nxtpktlen c = 0 \<and> length (sc_crbuf c) < 2 then Ok (None, c)
        else
          let c1 = (if sc_nxtpktlen c = 0
                    then c\<lparr>sc_nxtpktlen := unat (get_u16 (take 2 (sc_crbuf c))), sc_crbuf := drop 2 (sc_crbuf c)\<rparr>
                    else c);
              n = sc_nxtpktlen c1 in
          if length (sc_crbuf c1) < n then Ok (None, c1)
          else if 65534 \<le> n then Panic
          else Ok (Some (put_u16 (of_nat n) @ take n (sc_crbuf c1)),
                   c1\<lparr>sc_crbuf := drop n (sc_crbuf c1), sc_nxtpktlen := 0\<rparr>))"

definition handle_packet :: "byte list \<Rightarrow> nat \<Rightarrow> bytes \<Rightarrow> TCPServer \<Rightarrow> (mintox_error, TCPServer) res" where
  "handle_packet order this plnpkt srv = (case plnpkt of
      [] \<Rightarrow> Panic
    | ptype # _ \<Rightarrow>
        if ptype = 4 then Ok (upd_conn this (HandlePingRequest plnpkt) srv)
        else if ptype = 0 then handleRoutingRequest order this plnpkt srv
        else if ptype = 3 then HandleDisconnectNotification this plnpkt srv
        else if 16 \<le> ptype then HandleRoutingData this plnpkt srv
        else Ok srv)"

text \<open>The random values of a handshake.\<close>

type_synonym fresh = "bytes \<times> bytes \<times> bytes \<times> bytes"

text \<open>One turn of the loop of \<^verbatim>\<open>doReadPacket\<close>, and whether there is another.\<close>

definition doReadPacket_turn ::
  "nacl \<Rightarrow> fresh \<Rightarrow> byte list \<Rightarrow> nat \<Rightarrow> TCPServer \<Rightarrow> (mintox_error, bool \<times> TCPServer) res" where
  "doReadPacket_turn nb fresh order this srv = (case ts_store srv this of
      None \<Rightarrow> Ok (False, srv)
    | Some c \<Rightarrow>
        (case read_frame c of
           Panic \<Rightarrow> Panic
         | Err e \<Rightarrow> Err e
         | Ok (None, c1) \<Rightarrow> Ok (False, upd_conn this (\<lambda>_. c1) srv)
         | Ok (Some rdbuf, c1) \<Rightarrow>
             (case sc_Status c of
                TCP_STATUS_NO_STATUS \<Rightarrow>
                  (case fresh of (sn, tn, tpk, tsk) \<Rightarrow>
                     (case HandleHandshake nb sn tn tpk tsk rdbuf c1 of
                        Ok c2 \<Rightarrow> Ok (True, upd_conn this (\<lambda>_. c2\<lparr>sc_Status := TCP_STATUS_UNCONFIRMED, sc_nxtpktlen := 0\<rparr>) srv)
                      | Err e \<Rightarrow> Err e
                      | Panic \<Rightarrow> Panic))
              | TCP_STATUS_UNCONFIRMED \<Rightarrow>
                  (case Unpacket nb rdbuf c1 of
                     (Ok (b # bs), c2) \<Rightarrow>
                       Ok (True, onConnConfirmed this (upd_conn this
                         (\<lambda>_. (HandlePingRequest (b # bs) c2)\<lparr>sc_Status := TCP_STATUS_CONFIRMED\<rparr>) srv))
                   | _ \<Rightarrow> Panic)
              | TCP_STATUS_CONFIRMED \<Rightarrow>
                  (case Unpacket nb rdbuf c1 of
                     (Ok plnpkt, c2) \<Rightarrow>
                       (case handle_packet order this plnpkt (upd_conn this (\<lambda>_. c2) srv) of
                          Ok srv1 \<Rightarrow> Ok (True, srv1)
                        | Err e \<Rightarrow> Err e
                        | Panic \<Rightarrow> Panic)
                   | _ \<Rightarrow> Panic))))"

section \<open>The tables\<close>

text \<open>The two routing tables of a connection describe the same entries; an entry's number is in the range of
  client connections and taken, and no client has an entry for itself.  Only a confirmed connection has
  entries, until it is closed.\<close>

definition entry_ok :: "TCPSecureConn \<Rightarrow> byte \<Rightarrow> PeerConnInfo \<Rightarrow> bool" where
  "entry_ok c cid p \<longleftrightarrow> pci_Connid p = cid \<and> sc_ConnInfos c (pci_Pubkey p) = Some cid \<and>
     16 \<le> cid \<and> sc_ConnIds c (cid - 16) \<and> 0 < pci_Status p \<and> sc_Pubkey c \<noteq> Some (pci_Pubkey p)"

definition tables_ok :: "TCPSecureConn \<Rightarrow> bool" where
  "tables_ok c \<longleftrightarrow>
    (\<forall>pk cid. sc_ConnInfos c pk = Some cid \<longrightarrow> (\<exists>p. sc_ConnInfos2 c cid = Some p \<and> pci_Pubkey p = pk)) \<and>
    (\<forall>cid p. sc_ConnInfos2 c cid = Some p \<longrightarrow> entry_ok c cid p)"

lemma tables_okD:
  assumes "tables_ok c"
  shows "sc_ConnInfos c pk = Some cid \<Longrightarrow> \<exists>p. sc_ConnInfos2 c cid = Some p \<and> pci_Pubkey p = pk"
    and "sc_ConnInfos2 c cid = Some p \<Longrightarrow> entry_ok c cid p"
  using assms by (simp_all add: tables_ok_def)

lemma tables_okI:
  assumes "\<And>pk cid. sc_ConnInfos c pk = Some cid \<Longrightarrow> \<exists>p. sc_ConnInfos2 c cid = Some p \<and> pci_Pubkey p = pk"
    and "\<And>cid p. sc_ConnInfos2 c cid = Some p \<Longrightarrow> entry_ok c cid p"
  shows "tables_ok c"
  using assms by (simp add: tables_ok_def)

definition conn_ok :: "TCPSecureConn \<Rightarrow> bool" where
  "conn_ok c \<longleftrightarrow> tables_ok c \<and> (sc_onClosed c \<or> sc_sockClosed c) \<and>
    (sc_Status c = TCP_STATUS_CONFIRMED \<or> sc_sockClosed c \<or> sc_ConnInfos c = Map.empty \<and> sc_ConnInfos2 c = Map.empty) \<and>
    (sc_Pubkey c = None \<longrightarrow> sc_Status c = TCP_STATUS_NO_STATUS \<and> sc_ConnInfos c = Map.empty \<and> sc_ConnInfos2 c = Map.empty)"

text \<open>The server's table names open, confirmed connections by their keys.\<close>

definition srv_ok :: "TCPServer \<Rightarrow> bool" where
  "srv_ok srv \<longleftrightarrow> (\<forall>i c. ts_store srv i = Some c \<longrightarrow> conn_ok c) \<and>
    (\<forall>pk i. ts_Conns srv pk = Some i \<longrightarrow> (\<exists>c. ts_store srv i = Some c \<and> sc_Pubkey c = Some pk \<and>
       sc_Status c = TCP_STATUS_CONFIRMED \<and> sc_onClosed c))"

text \<open>An operation on one connection that keeps what the server relies on.\<close>

definition keeps :: "(TCPSecureConn \<Rightarrow> TCPSecureConn) \<Rightarrow> bool" where
  "keeps f \<longleftrightarrow> (\<forall>c. conn_ok c \<longrightarrow> conn_ok (f c) \<and> sc_Pubkey (f c) = sc_Pubkey c \<and> sc_Status (f c) = sc_Status c \<and>
     sc_onClosed (f c) = sc_onClosed c)"

lemma keepsI:
  assumes "\<And>c. tables_ok c \<Longrightarrow> tables_ok (f c)" "\<And>c. sc_Pubkey (f c) = sc_Pubkey c" "\<And>c. sc_Status (f c) = sc_Status c"
    "\<And>c. sc_onClosed (f c) = sc_onClosed c" "\<And>c. sc_sockClosed (f c) = sc_sockClosed c"
    "\<And>c. sc_ConnInfos (f c) = sc_ConnInfos c" "\<And>c. sc_ConnInfos2 c = Map.empty \<Longrightarrow> sc_ConnInfos2 (f c) = Map.empty"
  shows "keeps f"
  using assms by (auto simp: keeps_def conn_ok_def)

lemma keeps_comp: "keeps f \<Longrightarrow> keeps g \<Longrightarrow> keeps (\<lambda>c. f (g c))"
  by (auto simp: keeps_def)

lemma keeps_SendCtrlPacket: "keeps (SendCtrlPacket d)"
  by (rule keepsI) (auto simp: SendCtrlPacket_def tables_ok_def entry_ok_def)

lemma keeps_send [simp]:
  "keeps (sendRoutingResponse i pk)" "keeps (SendConnectNotification i)" "keeps (SendDisconnectNotification i)"
  "keeps (HandlePingRequest p)"
  using keeps_SendCtrlPacket
  by (simp_all add: keeps_def sendRoutingResponse_def SendConnectNotification_def SendDisconnectNotification_def
      HandlePingRequest_def)

lemma keeps_SendDataPacket [simp]: "keeps (SendDataPacket i d)"
  by (rule keepsI) (auto simp: SendDataPacket_def tables_ok_def entry_ok_def)

lemma tables_set_link:
  assumes "tables_ok c" "0 < st"
  shows "tables_ok (set_link i st o1 c)"
proof (cases "sc_ConnInfos2 c i")
  case None
  then have "set_link i st o1 c = c" by (simp add: set_link_def fun_upd_idem)
  then show ?thesis using assms by simp
next
  case (Some p)
  let ?c = "set_link i st o1 c"
  have same: "sc_ConnInfos ?c = sc_ConnInfos c" "sc_ConnIds ?c = sc_ConnIds c" "sc_Pubkey ?c = sc_Pubkey c"
    by (simp_all add: set_link_def)
  have infos: "sc_ConnInfos2 ?c cid = map_option (\<lambda>p. if cid = i then p\<lparr>pci_Status := st, pci_Otherid := o1\<rparr> else p)
      (sc_ConnInfos2 c cid)" for cid
    using Some by (cases "cid = i") (simp_all add: set_link_def option.map_ident)
  show ?thesis
  proof (rule tables_okI)
    fix pk cid assume "sc_ConnInfos ?c pk = Some cid"
    then show "\<exists>p. sc_ConnInfos2 ?c cid = Some p \<and> pci_Pubkey p = pk"
      using tables_okD(1) [OF assms(1), of pk cid] by (cases "cid = i") (auto simp: same infos)
  next
    fix cid q assume "sc_ConnInfos2 ?c cid = Some q"
    then obtain p where p: "sc_ConnInfos2 c cid = Some p"
      "q = (if cid = i then p\<lparr>pci_Status := st, pci_Otherid := o1\<rparr> else p)"
      by (auto simp: infos)
    then show "entry_ok ?c cid q"
      using tables_okD(2) [OF assms(1) p(1)] assms(2) by (simp add: entry_ok_def same)
  qed
qed

lemma keeps_set_link [simp]: "0 < st \<Longrightarrow> keeps (set_link i st o1)"
  by (rule keepsI) (auto simp: tables_set_link, auto simp: set_link_def)

lemma keeps_kill_entry [simp]: "keeps (kill_entry pk)"
proof -
  have "keeps (\<lambda>c. SendDisconnectNotification i (set_link i 1 0 c))" for i
    by (rule keeps_comp) simp_all
  then show ?thesis by (auto simp: keeps_def kill_entry_def split: option.splits)
qed

lemma srv_okD:
  assumes "srv_ok srv"
  shows "ts_store srv i = Some c \<Longrightarrow> conn_ok c"
    and "ts_Conns srv pk = Some i \<Longrightarrow> \<exists>c. ts_store srv i = Some c \<and> sc_Pubkey c = Some pk \<and>
       sc_Status c = TCP_STATUS_CONFIRMED \<and> sc_onClosed c"
  using assms by (simp_all add: srv_ok_def)

lemma srv_okI:
  assumes "\<And>i c. ts_store srv i = Some c \<Longrightarrow> conn_ok c"
    and "\<And>pk i. ts_Conns srv pk = Some i \<Longrightarrow> \<exists>c. ts_store srv i = Some c \<and> sc_Pubkey c = Some pk \<and>
       sc_Status c = TCP_STATUS_CONFIRMED \<and> sc_onClosed c"
  shows "srv_ok srv"
  using assms by (simp add: srv_ok_def)

lemma upd_conn_simps [simp]: "ts_Conns (upd_conn i f srv) = ts_Conns srv"
  "ts_store (upd_conn i f srv) i = map_option f (ts_store srv i)"
  "j \<noteq> i \<Longrightarrow> ts_store (upd_conn i f srv) j = ts_store srv j"
  by (simp_all add: upd_conn_def)

lemma srv_ok_upd:
  assumes "srv_ok srv"
    and f: "\<And>c. ts_store srv i = Some c \<Longrightarrow> conn_ok c \<Longrightarrow> conn_ok (f c) \<and> sc_Pubkey (f c) = sc_Pubkey c \<and>
      sc_Status (f c) = sc_Status c \<and> sc_onClosed (f c) = sc_onClosed c"
  shows "srv_ok (upd_conn i f srv)"
proof (rule srv_okI)
  fix j c assume "ts_store (upd_conn i f srv) j = Some c"
  then show "conn_ok c" using f srv_okD(1) [OF assms(1)] by (cases "j = i") auto
next
  fix pk j assume "ts_Conns (upd_conn i f srv) pk = Some j"
  then obtain c where c: "ts_store srv j = Some c" "sc_Pubkey c = Some pk" "sc_Status c = TCP_STATUS_CONFIRMED" "sc_onClosed c"
    using srv_okD(2) [OF assms(1)] by auto
  then show "\<exists>c. ts_store (upd_conn i f srv) j = Some c \<and> sc_Pubkey c = Some pk \<and>
      sc_Status c = TCP_STATUS_CONFIRMED \<and> sc_onClosed c"
    using f [of c] srv_okD(1) [OF assms(1) c(1)] by (cases "j = i") auto
qed

lemma srv_ok_keeps: "srv_ok srv \<Longrightarrow> keeps f \<Longrightarrow> srv_ok (upd_conn i f srv)"
  by (rule srv_ok_upd) (auto simp: keeps_def)

text \<open>A connection the server's table does not name may change more.\<close>

lemma srv_ok_upd_free:
  assumes "srv_ok srv" "\<And>pk. ts_Conns srv pk \<noteq> Some i" "\<And>c. ts_store srv i = Some c \<Longrightarrow> conn_ok c \<Longrightarrow> conn_ok (f c)"
  shows "srv_ok (upd_conn i f srv)"
proof (rule srv_okI)
  fix j c assume "ts_store (upd_conn i f srv) j = Some c"
  then show "conn_ok c" using assms(3) srv_okD(1) [OF assms(1)] by (cases "j = i") auto
next
  fix pk j assume "ts_Conns (upd_conn i f srv) pk = Some j"
  then show "\<exists>c. ts_store (upd_conn i f srv) j = Some c \<and> sc_Pubkey c = Some pk \<and>
      sc_Status c = TCP_STATUS_CONFIRMED \<and> sc_onClosed c"
    using assms(2) [of pk] srv_okD(2) [OF assms(1)] by (cases "j = i") auto
qed

lemma srv_ok_HSConns [simp]: "srv_ok (srv\<lparr>ts_HSConns := h\<rparr>) \<longleftrightarrow> srv_ok srv"
  by (simp add: srv_ok_def)

lemma killAccepted_ok:
  assumes "srv_ok srv"
  shows "srv_ok (killAccepted pk srv)"
proof (rule srv_okI)
  fix i c assume "ts_store (killAccepted pk srv) i = Some c"
  then show "conn_ok c"
    using srv_okD(1) [OF assms] keeps_kill_entry [of pk]
    by (auto simp: killAccepted_def keeps_def split: option.splits if_splits)
next
  fix k i assume "ts_Conns (killAccepted pk srv) k = Some i"
  then have "ts_Conns srv k = Some i" by (simp add: killAccepted_def)
  then obtain c where c: "ts_store srv i = Some c" "sc_Pubkey c = Some k" "sc_Status c = TCP_STATUS_CONFIRMED" "sc_onClosed c"
    using srv_okD(2) [OF assms] by auto
  moreover have "conn_ok c" by (rule srv_okD(1) [OF assms c(1)])
  ultimately show "\<exists>c. ts_store (killAccepted pk srv) i = Some c \<and> sc_Pubkey c = Some k \<and>
      sc_Status c = TCP_STATUS_CONFIRMED \<and> sc_onClosed c"
    using keeps_kill_entry [of pk] by (simp add: killAccepted_def keeps_def)
qed

lemma killAccepted_Conns [simp]: "ts_Conns (killAccepted pk srv) = ts_Conns srv"
  by (simp add: killAccepted_def)

lemma tables_add_info:
  assumes "tables_ok c" "sc_ConnInfos c pk = None" "sc_Pubkey c \<noteq> Some pk" "16 \<le> cid" "sc_ConnInfos2 c cid = None"
    and "sc_ConnIds c (cid - 16)"
  shows "tables_ok (add_info cid pk c)"
proof (rule tables_okI)
  fix k j assume "sc_ConnInfos (add_info cid pk c) k = Some j"
  then show "\<exists>p. sc_ConnInfos2 (add_info cid pk c) j = Some p \<and> pci_Pubkey p = k"
    using tables_okD(1) [OF assms(1), of k j] assms(5)
    by (cases "k = pk"; cases "j = cid") (auto simp: add_info_def)
next
  fix j p assume "sc_ConnInfos2 (add_info cid pk c) j = Some p"
  then show "entry_ok (add_info cid pk c) j p"
    using tables_okD(2) [OF assms(1), of j p] assms(2-6)
    by (cases "j = cid") (auto simp: add_info_def entry_ok_def)
qed

text \<open>Any order in which the map of connection numbers can be walked.\<close>

definition order_ok :: "byte list \<Rightarrow> bool" where
  "order_ok order \<longleftrightarrow> set order = {i. i < 240}"

lemma nextConnid_cases:
  assumes "nextConnid order c = (cid, c1)" "order_ok order"
  shows "cid = 0 \<and> c1 = c \<and> (\<forall>i < 240. sc_ConnIds c i) \<or>
    16 \<le> cid \<and> \<not> sc_ConnIds c (cid - 16) \<and> c1 = c\<lparr>sc_ConnIds := (sc_ConnIds c)(cid - 16 := True)\<rparr>"
proof (cases "find (\<lambda>i. \<not> sc_ConnIds c i) order")
  case None
  then have "\<forall>i < 240. sc_ConnIds c i" using assms(2) by (auto simp: find_None_iff order_ok_def)
  then show ?thesis using assms(1) None by (simp add: nextConnid_def)
next
  case (Some i)
  then have i: "\<not> sc_ConnIds c i" "i < 240"
    using assms(2) by (auto simp: find_Some_iff order_ok_def)
  have "unat i < 240" using i(2) by (simp add: word_less_nat_alt)
  then have "16 \<le> i + 16" by (simp add: word_le_nat_alt unat_word_ariths)
  then show ?thesis using i Some assms(1) by (auto simp: nextConnid_def)
qed

lemma tables_take_id: "tables_ok c \<Longrightarrow> tables_ok (c\<lparr>sc_ConnIds := (sc_ConnIds c)(i := True)\<rparr>)"
  by (auto simp: tables_ok_def entry_ok_def)

lemma new_route_conn:
  assumes "conn_ok c" "conn_info c pk = None" "sc_Pubkey c \<noteq> Some pk" "sc_Pubkey c \<noteq> None"
    and "sc_Status c = TCP_STATUS_CONFIRMED" "nextConnid order c = (cid, c1)" "order_ok order" "cid \<noteq> 0"
  shows "conn_ok (add_info cid pk c1) \<and> sc_Pubkey (add_info cid pk c1) = sc_Pubkey c \<and>
    sc_Status (add_info cid pk c1) = sc_Status c \<and> sc_onClosed (add_info cid pk c1) = sc_onClosed c"
proof -
  have t: "tables_ok c" using assms(1) by (simp add: conn_ok_def)
  have c1: "16 \<le> cid" "\<not> sc_ConnIds c (cid - 16)" "c1 = c\<lparr>sc_ConnIds := (sc_ConnIds c)(cid - 16 := True)\<rparr>"
    using nextConnid_cases [OF assms(6,7)] assms(8) by auto
  have "sc_ConnInfos2 c cid = None"
    using c1(2) tables_okD(2) [OF t, of cid] by (cases "sc_ConnInfos2 c cid") (auto simp: entry_ok_def)
  moreover have "sc_ConnInfos c pk = None"
    using assms(2) tables_okD(1) [OF t, of pk] by (cases "sc_ConnInfos c pk") (auto simp: conn_info_def)
  ultimately have "tables_ok (add_info cid pk c1)"
    using tables_take_id [OF t, of "cid - 16"] assms(3) c1 by (intro tables_add_info) simp_all
  then show ?thesis using assms(1,4,5) c1(3) by (simp add: conn_ok_def add_info_def)
qed

lemma keepsD:
  assumes "keeps f" "conn_ok c"
  shows "conn_ok (f c)" "sc_Pubkey (f c) = sc_Pubkey c" "sc_Status (f c) = sc_Status c" "sc_onClosed (f c) = sc_onClosed c"
  using assms by (auto simp: keeps_def)

lemma link_peers_ok: "srv_ok srv \<Longrightarrow> srv_ok (link_peers i pk cid srv)"
  by (auto simp: link_peers_def Let_def intro!: srv_ok_keeps split: option.splits)

lemma new_route_ok:
  assumes "srv_ok srv" "ts_store srv i = Some c" "conn_info c pk = None" "sc_Pubkey c \<noteq> Some pk"
    and "sc_Pubkey c \<noteq> None" "sc_Status c = TCP_STATUS_CONFIRMED" "order_ok order"
  shows "srv_ok (new_route order i pk c srv)"
proof -
  obtain cid c1 where n: "nextConnid order c = (cid, c1)" by force
  have c: "conn_ok c" by (rule srv_okD(1) [OF assms(1,2)])
  show ?thesis
  proof (cases "cid = 0")
    case True
    then have "c1 = c" using nextConnid_cases [OF n assms(7)] by auto
    then show ?thesis
      using n True assms(1,2) c keepsD [OF keeps_send(1)]
      by (simp add: new_route_def) (rule srv_ok_upd; simp)
  next
    case False
    note a = new_route_conn [OF c assms(3-6) n assms(7) False]
    then have "srv_ok (upd_conn i (\<lambda>_. sendRoutingResponse cid pk (add_info cid pk c1)) srv)"
      using assms(1,2) keepsD [OF keeps_send(1), of "add_info cid pk c1"] by (intro srv_ok_upd) auto
    then show ?thesis using n False by (simp add: new_route_def link_peers_ok)
  qed
qed

lemma handleRoutingRequest_ok:
  assumes "srv_ok srv" "order_ok order" "handleRoutingRequest order i p srv = Ok srv1"
    and "\<And>c. ts_store srv i = Some c \<Longrightarrow> sc_Status c = TCP_STATUS_CONFIRMED"
  shows "srv_ok srv1"
proof (cases "ts_store srv i")
  case (Some c)
  have c: "conn_ok c" by (rule srv_okD(1) [OF assms(1) Some])
  have "0 < pci_Status q" if "conn_info c pk = Some q" for pk q
    using that c tables_okD(2) [of c] by (auto simp: conn_info_def conn_ok_def entry_ok_def bind_eq_Some_conv)
  moreover have "sc_Pubkey c \<noteq> None" using c assms(4) [OF Some] by (auto simp: conn_ok_def)
  ultimately show ?thesis
    using assms Some new_route_ok [OF assms(1) Some]
    by (auto simp: handleRoutingRequest_def Let_def intro: srv_ok_keeps split: if_splits option.splits)
qed (use assms in \<open>simp add: handleRoutingRequest_def\<close>)

lemma HandleRoutingData_ok: "srv_ok srv \<Longrightarrow> HandleRoutingData i p srv = Ok srv1 \<Longrightarrow> srv_ok srv1"
  by (auto simp: HandleRoutingData_def intro: srv_ok_keeps split: option.splits list.splits)

lemma HandleDisconnectNotification_ok: "srv_ok srv \<Longrightarrow> HandleDisconnectNotification i p srv = Ok srv1 \<Longrightarrow> srv_ok srv1"
  by (auto simp: HandleDisconnectNotification_def Let_def intro!: srv_ok_keeps split: option.splits if_splits)

lemma handle_packet_ok:
  assumes "srv_ok srv" "order_ok order" "handle_packet order i p srv = Ok srv1"
    and "\<And>c. ts_store srv i = Some c \<Longrightarrow> sc_Status c = TCP_STATUS_CONFIRMED"
  shows "srv_ok srv1"
proof (cases p)
  case (Cons t q)
  note cases = handleRoutingRequest_ok [OF assms(1,2) _ assms(4)] HandleRoutingData_ok [OF assms(1)]
    HandleDisconnectNotification_ok [OF assms(1)] srv_ok_keeps [OF assms(1) keeps_send(4)]
  consider "t = 4" | "t = 0" | "t = 3" | "16 \<le> t" | "t \<noteq> 4" "t \<noteq> 0" "t \<noteq> 3" "\<not> 16 \<le> t" by blast
  then show ?thesis using assms(1,3) Cons cases by cases (auto simp: handle_packet_def split: if_splits)
qed (use assms in \<open>simp add: handle_packet_def\<close>)

lemma unregistered:
  assumes "srv_ok srv" "ts_store srv i = Some c" "sc_Status c \<noteq> TCP_STATUS_CONFIRMED \<or> \<not> sc_onClosed c"
  shows "ts_Conns srv pk \<noteq> Some i"
  using srv_okD(2) [OF assms(1), of pk i] assms(2,3) by auto

lemma srv_ok_drop: "srv_ok srv \<Longrightarrow> srv_ok (srv\<lparr>ts_Conns := (ts_Conns srv)(pk := None)\<rparr>)"
  by (rule srv_okI) (auto simp: srv_ok_def split: if_splits)

lemma conn_ok_close: "conn_ok c \<Longrightarrow> conn_ok (c\<lparr>sc_Status := TCP_STATUS_NO_STATUS, sc_onClosed := False, sc_sockClosed := True\<rparr>)"
  by (auto simp: conn_ok_def tables_ok_def entry_ok_def)

text \<open>A connection that is taken out of the table before it is marked closed.\<close>

lemma doClose_free:
  assumes "srv_ok srv" "\<And>pk. ts_Conns srv pk \<noteq> Some i" "ts_store srv i = Some c" "\<not> sc_onClosed c"
  shows "srv_ok (doClose i srv)" "ts_Conns (doClose i srv) = ts_Conns srv"
    "j \<noteq> i \<Longrightarrow> ts_store (doClose i srv) j = ts_store srv j"
proof -
  let ?f = "\<lambda>c. c\<lparr>sc_Status := TCP_STATUS_NO_STATUS, sc_onClosed := False, sc_sockClosed := True\<rparr>"
  have "doClose i srv = upd_conn i ?f srv"
    using assms(3,4) by (simp add: doClose_def upd_conn_def Let_def)
  then show "srv_ok (doClose i srv)" "ts_Conns (doClose i srv) = ts_Conns srv"
    "j \<noteq> i \<Longrightarrow> ts_store (doClose i srv) j = ts_store srv j"
    using srv_ok_upd_free [OF assms(1,2), of ?f] conn_ok_close by auto
qed

lemma killAccepted_store:
  "ts_store (killAccepted pk srv) i = map_option (\<lambda>c. if registered srv i c then kill_entry pk c else c) (ts_store srv i)"
  by (simp add: killAccepted_def split: option.split)

lemma doClose_ok:
  assumes "srv_ok srv"
  shows "srv_ok (doClose i srv)"
proof (cases "ts_store srv i")
  case (Some c)
  have c: "conn_ok c" by (rule srv_okD(1) [OF assms Some])
  show ?thesis
  proof (cases "sc_onClosed c")
    case False
    then show ?thesis using doClose_free(1) [OF assms unregistered [OF assms Some] Some] by blast
  next
    case opened: True
    show ?thesis
    proof (cases "sc_Pubkey c")
      case None
      then have "ts_Conns srv pk \<noteq> Some i" for pk using srv_okD(2) [OF assms, of pk i] Some by auto
      then have "srv_ok (upd_conn i (\<lambda>c. c\<lparr>sc_Status := TCP_STATUS_NO_STATUS\<rparr>) srv)"
        by (rule srv_ok_upd_free [OF assms]) (use Some None in \<open>auto simp: conn_ok_def tables_ok_def\<close>)
      then show ?thesis using Some opened None by (simp add: doClose_def Let_def onConnClosed_def)
    next
      case key: (Some pk)
      let ?dropped = "srv\<lparr>ts_Conns := (ts_Conns srv)(pk := None)\<rparr>"
      have free: "ts_Conns ?dropped k \<noteq> Some i" for k
        using srv_okD(2) [OF assms, of k i] Some key by auto
      let ?close = "\<lambda>c. c\<lparr>sc_Status := TCP_STATUS_NO_STATUS, sc_onClosed := False, sc_sockClosed := True\<rparr>"
      have "srv_ok (upd_conn i ?close (killAccepted pk ?dropped))"
        using free by (intro srv_ok_upd_free killAccepted_ok srv_ok_drop assms conn_ok_close) auto
      moreover have "doClose i srv = (upd_conn i ?close (killAccepted pk ?dropped))\<lparr>ts_HSConns := ts_HSConns srv - {i}\<rparr>"
        using Some opened key free
        by (intro TCPServer.equality ext)
          (auto simp: doClose_def Let_def onConnClosed_def killAccepted_def upd_conn_def registered_def
            split: option.splits)
      ultimately show ?thesis by simp
    qed
  qed
qed (simp add: doClose_def assms)

lemma srv_ok_add:
  assumes "srv_ok srv" "ts_store srv i = Some c" "sc_Pubkey c = Some pk" "sc_Status c = TCP_STATUS_CONFIRMED" "sc_onClosed c"
  shows "srv_ok (srv\<lparr>ts_Conns := (ts_Conns srv)(pk \<mapsto> i)\<rparr>)"
  using assms by (intro srv_okI) (auto simp: srv_ok_def split: if_splits)

lemma doClose_replaced:
  assumes "ts_store srv i = Some c"
  shows "doClose i (upd_conn i (\<lambda>c. c\<lparr>sc_onClosed := False\<rparr>) srv) =
    upd_conn i (\<lambda>c. c\<lparr>sc_Status := TCP_STATUS_NO_STATUS, sc_onClosed := False, sc_sockClosed := True\<rparr>) srv"
  using assms by (simp add: doClose_def Let_def upd_conn_def)

lemma onConnConfirmed_ok:
  assumes "srv_ok srv" "ts_store srv i = Some c" "sc_Status c = TCP_STATUS_CONFIRMED" "sc_onClosed c"
    and "\<And>pk. ts_Conns srv pk \<noteq> Some i"
  shows "srv_ok (onConnConfirmed i srv)"
proof -
  let ?close = "\<lambda>c. c\<lparr>sc_Status := TCP_STATUS_NO_STATUS, sc_onClosed := False, sc_sockClosed := True\<rparr>"
  have "conn_ok c" by (rule srv_okD(1) [OF assms(1,2)])
  then obtain pk where pk: "sc_Pubkey c = Some pk" using assms(3) by (auto simp: conn_ok_def)
  show ?thesis
  proof (cases "ts_Conns srv pk")
    case None
    then show ?thesis
      using srv_ok_add [of "srv\<lparr>ts_HSConns := ts_HSConns srv - {i}\<rparr>" i c pk] assms(1-4) pk
      by (simp add: onConnConfirmed_def Let_def)
  next
    case (Some oc)
    let ?srv1 = "srv\<lparr>ts_HSConns := ts_HSConns srv - {i}, ts_Conns := (ts_Conns srv)(pk := None)\<rparr>"
    obtain c2 where c2: "ts_store srv oc = Some c2" "sc_Pubkey c2 = Some pk"
      using srv_okD(2) [OF assms(1) Some] by auto
    have "oc \<noteq> i" using assms(5) [of pk] Some by auto
    have free: "ts_Conns ?srv1 k \<noteq> Some oc" for k using srv_okD(2) [OF assms(1), of k oc] c2 by auto
    have "srv_ok (upd_conn oc ?close ?srv1)"
      by (rule srv_ok_upd_free)
        (use srv_ok_drop [of "srv\<lparr>ts_HSConns := ts_HSConns srv - {i}\<rparr>" pk] assms(1) free conn_ok_close in auto)
    then have "srv_ok (upd_conn oc ?close ?srv1
        \<lparr>ts_Conns := (ts_Conns (upd_conn oc ?close ?srv1))(pk \<mapsto> i)\<rparr>)"
      by (rule srv_ok_add) (use assms(2-4) pk \<open>oc \<noteq> i\<close> in auto)
    then show ?thesis
      using assms(2) pk Some doClose_replaced [of ?srv1 oc c2] c2 by (simp add: onConnConfirmed_def Let_def)
  qed
qed

lemma read_frame_keeps:
  assumes "read_frame c = Ok (r, c1)"
  shows "sc_Pubkey c1 = sc_Pubkey c" "sc_Status c1 = sc_Status c" "sc_onClosed c1 = sc_onClosed c"
    "sc_sockClosed c1 = sc_sockClosed c" "sc_ConnInfos c1 = sc_ConnInfos c" "sc_ConnInfos2 c1 = sc_ConnInfos2 c"
    "sc_ConnIds c1 = sc_ConnIds c"
  using assms by (auto simp: read_frame_def Let_def split: tcp_status.splits if_splits)

lemma conn_ok_same:
  assumes "conn_ok c" "sc_Pubkey c1 = sc_Pubkey c" "sc_Status c1 = sc_Status c" "sc_onClosed c1 = sc_onClosed c"
    "sc_sockClosed c1 = sc_sockClosed c" "sc_ConnInfos c1 = sc_ConnInfos c" "sc_ConnInfos2 c1 = sc_ConnInfos2 c"
    "sc_ConnIds c1 = sc_ConnIds c"
  shows "conn_ok c1"
  using assms by (simp add: conn_ok_def tables_ok_def entry_ok_def)

lemma HandleHandshake_keeps:
  assumes "HandleHandshake nb sn tn tpk tsk buf c = Ok c2"
  shows "sc_Pubkey c2 \<noteq> None" "sc_onClosed c2 = sc_onClosed c" "sc_sockClosed c2 = sc_sockClosed c"
    "sc_ConnInfos c2 = sc_ConnInfos c" "sc_ConnInfos2 c2 = sc_ConnInfos2 c"
  using assms by (auto simp: HandleHandshake_def Let_def split: if_splits res.splits)

lemma conn_ok_fresh:
  assumes "sc_ConnInfos c = Map.empty" "sc_ConnInfos2 c = Map.empty" "sc_onClosed c \<or> sc_sockClosed c"
    "sc_Pubkey c \<noteq> None \<or> sc_Status c = TCP_STATUS_NO_STATUS"
  shows "conn_ok c"
  using assms by (auto simp: conn_ok_def tables_ok_def)

lemma turn_handshake_ok:
  assumes "srv_ok srv" "ts_store srv i = Some c" "\<not> sc_sockClosed c" "sc_Status c = TCP_STATUS_NO_STATUS"
    and "read_frame c = Ok (Some buf, c1)" "HandleHandshake nb sn tn tpk tsk buf c1 = Ok c2"
  shows "srv_ok (upd_conn i (\<lambda>_. c2\<lparr>sc_Status := TCP_STATUS_UNCONFIRMED, sc_nxtpktlen := 0\<rparr>) srv)"
proof -
  have "conn_ok c" by (rule srv_okD(1) [OF assms(1,2)])
  then have "conn_ok (c2\<lparr>sc_Status := TCP_STATUS_UNCONFIRMED, sc_nxtpktlen := 0\<rparr>)"
    using HandleHandshake_keeps [OF assms(6)] read_frame_keeps [OF assms(5)] assms(3,4)
    by (intro conn_ok_fresh) (auto simp: conn_ok_def)
  then show ?thesis
    using unregistered [OF assms(1,2)] assms(4) by (intro srv_ok_upd_free [OF assms(1)]) auto
qed

lemma turn_unconfirmed_ok:
  assumes "srv_ok srv" "ts_store srv i = Some c" "\<not> sc_sockClosed c" "sc_Status c = TCP_STATUS_UNCONFIRMED"
    and "read_frame c = Ok (Some buf, c1)" "Unpacket nb buf c1 = (Ok p, c2)"
  shows "srv_ok (onConnConfirmed i (upd_conn i (\<lambda>_. (HandlePingRequest p c2)\<lparr>sc_Status := TCP_STATUS_CONFIRMED\<rparr>) srv))"
proof -
  let ?c3 = "(HandlePingRequest p c2)\<lparr>sc_Status := TCP_STATUS_CONFIRMED\<rparr>"
  have same: "sc_ConnInfos ?c3 = sc_ConnInfos c" "sc_ConnInfos2 ?c3 = sc_ConnInfos2 c"
    "sc_onClosed ?c3 = sc_onClosed c" "sc_Pubkey ?c3 = sc_Pubkey c"
    using assms(6) read_frame_keeps [OF assms(5)] by (auto simp: Unpacket_def HandlePingRequest_def SendCtrlPacket_def)
  have c: "conn_ok c" "sc_onClosed c" using srv_okD(1) [OF assms(1,2)] assms(3) by (auto simp: conn_ok_def)
  have "conn_ok ?c3" using c assms(3,4) by (intro conn_ok_fresh) (auto simp: same conn_ok_def)
  then show ?thesis
    using unregistered [OF assms(1,2)] assms(2,4) same(3) c(2)
    by (intro onConnConfirmed_ok [where c = ?c3] srv_ok_upd_free [OF assms(1)]) auto
qed

lemma turn_confirmed_ok:
  assumes "srv_ok srv" "order_ok order" "ts_store srv i = Some c" "sc_Status c = TCP_STATUS_CONFIRMED"
    and "read_frame c = Ok (Some buf, c1)" "Unpacket nb buf c1 = (Ok p, c2)"
    and "handle_packet order i p (upd_conn i (\<lambda>_. c2) srv) = Ok srv1"
  shows "srv_ok srv1"
proof -
  note k = read_frame_keeps [OF assms(5)]
  have "conn_ok c2 \<and> sc_Pubkey c2 = sc_Pubkey c \<and> sc_Status c2 = sc_Status c \<and> sc_onClosed c2 = sc_onClosed c"
    using assms(6) k conn_ok_same [OF srv_okD(1) [OF assms(1,3)], of c2] by (auto simp: Unpacket_def)
  then show ?thesis
    using assms(3,4) by (intro handle_packet_ok [OF srv_ok_upd [OF assms(1)] assms(2,7)]) auto
qed

lemma doReadPacket_turn_ok:
  assumes "srv_ok srv" "order_ok order" "doReadPacket_turn nb fresh order i srv = Ok (b, srv1)"
    and "\<And>c. ts_store srv i = Some c \<Longrightarrow> \<not> sc_sockClosed c"
  shows "srv_ok srv1"
proof (cases "ts_store srv i")
  case (Some c)
  obtain r c1 where rf: "read_frame c = Ok (r, c1)"
    using assms(3) Some by (auto simp: doReadPacket_turn_def split: res.splits)
  show ?thesis
  proof (cases r)
    case None
    have "conn_ok c1" using conn_ok_same [OF srv_okD(1) [OF assms(1) Some] read_frame_keeps [OF rf]] .
    then show ?thesis
      using assms(1,3) Some rf None read_frame_keeps [OF rf] by (auto simp: doReadPacket_turn_def intro!: srv_ok_upd)
  next
    case frame: (Some buf)
    note ok = turn_handshake_ok [OF assms(1) Some assms(4) [OF Some] _ rf [unfolded frame]]
      turn_unconfirmed_ok [OF assms(1) Some assms(4) [OF Some] _ rf [unfolded frame]]
      turn_confirmed_ok [OF assms(1,2) Some _ rf [unfolded frame]]
    show ?thesis
      using assms(3) Some rf frame ok
      by (cases "sc_Status c") (auto simp: doReadPacket_turn_def split: prod.splits res.splits list.splits)
  qed
qed (use assms in \<open>simp add: doReadPacket_turn_def\<close>)

text \<open>What happens to a server.  A socket delivers bytes and is read until it is closed.\<close>

inductive server_step :: "nacl \<Rightarrow> TCPServer \<Rightarrow> TCPServer \<Rightarrow> bool" for nb where
  srv_accept: "ts_store srv i = None \<Longrightarrow> server_step nb srv (startHandshake i srv)"
| srv_recv: "server_step nb srv (upd_conn i (\<lambda>c. c\<lparr>sc_crbuf := sc_crbuf c @ bs\<rparr>) srv)"
| srv_read: "ts_store srv i = Some c \<Longrightarrow> \<not> sc_sockClosed c \<Longrightarrow> order_ok order \<Longrightarrow>
    doReadPacket_turn nb fresh order i srv = Ok (b, srv1) \<Longrightarrow> server_step nb srv srv1"
| srv_write: "ts_store srv i = Some c \<Longrightarrow> writeLoop_turn nb ok ctrl c = (r, c1) \<Longrightarrow>
    server_step nb srv (upd_conn i (\<lambda>_. c1) srv)"
| srv_close: "server_step nb srv (doClose i srv)"

definition same_conn :: "TCPSecureConn \<Rightarrow> TCPSecureConn \<Rightarrow> bool" where
  "same_conn c c1 \<longleftrightarrow> sc_Pubkey c1 = sc_Pubkey c \<and> sc_Status c1 = sc_Status c \<and> sc_onClosed c1 = sc_onClosed c \<and>
    sc_sockClosed c1 = sc_sockClosed c \<and> sc_ConnInfos c1 = sc_ConnInfos c \<and> sc_ConnInfos2 c1 = sc_ConnInfos2 c \<and>
    sc_ConnIds c1 = sc_ConnIds c"

lemma same_conn_ok: "same_conn c c1 \<Longrightarrow> conn_ok c \<Longrightarrow> conn_ok c1"
  by (rule conn_ok_same) (auto simp: same_conn_def)

lemma same_WritePacket: "WritePacket nb ok d c = (r, c1) \<Longrightarrow> same_conn c c1"
  by (auto simp: WritePacket_def same_conn_def split: res.splits if_splits)

lemma same_flushCtrl: "flushCtrl nb ok ds c = (r, c1) \<Longrightarrow> same_conn c c1"
proof (induction ds arbitrary: c)
  case (Cons d ds)
  obtain w c2 where w: "WritePacket nb ok d (c\<lparr>sc_cwctrlq := ds\<rparr>) = (w, c2)" by force
  have "same_conn c c2" using same_WritePacket [OF w] by (simp add: same_conn_def)
  then show ?case using Cons w by (auto simp: same_conn_def split: res.splits bool.splits)
qed (simp add: same_conn_def)

lemma same_writeLoop_turn:
  assumes "writeLoop_turn nb ok ctrl c = (r, c1)"
  shows "same_conn c c1"
proof -
  have w: "same_conn c c2" if "WritePacket nb ok d (c\<lparr>sc_cwctrlq := q\<rparr>) = (r2, c2)" for d q r2 c2
    using same_WritePacket [OF that] by (simp add: same_conn_def)
  have d: "same_conn c c2" if "WritePacket nb ok d (c\<lparr>sc_cwdataq := q\<rparr>) = (r2, c2)" for d q r2 c2
    using same_WritePacket [OF that] by (simp add: same_conn_def)
  show ?thesis
    using assms w d same_flushCtrl
    by (cases "sc_cwctrlq c"; cases "sc_cwdataq c")
      (fastforce simp: writeLoop_turn_def same_conn_def split: prod.splits res.splits bool.splits if_splits)+
qed

lemma server_step_ok: "server_step nb srv srv1 \<Longrightarrow> srv_ok srv \<Longrightarrow> srv_ok srv1"
proof (induction rule: server_step.induct)
  case (srv_accept srv i)
  have "ts_Conns srv pk \<noteq> Some i" for pk using srv_okD(2) [OF srv_accept(2), of pk i] srv_accept(1) by auto
  moreover have "conn_ok (NewTCPSecureConn k)" for k by (rule conn_ok_fresh) (simp_all add: NewTCPSecureConn_def)
  ultimately show ?case
    using srv_accept(2) by (intro srv_okI) (auto simp: startHandshake_def srv_ok_def split: if_splits)
next
  case (srv_recv srv i bs)
  then show ?case by (intro srv_ok_keeps keepsI) (auto simp: tables_ok_def entry_ok_def)
next
  case (srv_write srv i c ok ctrl r c1)
  have "same_conn c c1" by (rule same_writeLoop_turn [OF srv_write(2)])
  then show ?case
    using srv_write(1,3) same_conn_ok [of c c1] by (intro srv_ok_upd) (auto simp: same_conn_def)
qed (auto intro: doReadPacket_turn_ok doClose_ok)

lemma server_steps_ok: "(server_step nb)\<^sup>*\<^sup>* (NewTCPServer k) srv \<Longrightarrow> srv_ok srv"
proof (induction rule: rtranclp_induct)
  case base
  show ?case by (simp add: srv_ok_def NewTCPServer_def)
qed (rule server_step_ok)

section \<open>Requests from both sides\<close>

lemma send_tables [simp]:
  "sc_ConnInfos (SendCtrlPacket d c) = sc_ConnInfos c" "sc_ConnInfos2 (SendCtrlPacket d c) = sc_ConnInfos2 c"
  "sc_Pubkey (SendCtrlPacket d c) = sc_Pubkey c"
  by (simp_all add: SendCtrlPacket_def)

lemma conn_info_send [simp]:
  "conn_info (sendRoutingResponse i k c) = conn_info c" "conn_info (SendConnectNotification i c) = conn_info c"
  "sc_Pubkey (sendRoutingResponse i k c) = sc_Pubkey c" "sc_Pubkey (SendConnectNotification i c) = sc_Pubkey c"
  by (auto simp: conn_info_def sendRoutingResponse_def SendConnectNotification_def)

lemma conn_info_add:
  "conn_info (add_info cid pk c) pk = Some \<lparr>pci_Pubkey = pk, pci_Status = 1, pci_Otherid = 0, pci_Connid = cid\<rparr>"
  by (simp add: conn_info_def add_info_def)

lemma conn_info_link:
  assumes "conn_info c pk = Some p" "tables_ok c"
  shows "conn_info (set_link (pci_Connid p) st o1 c) pk = Some (p\<lparr>pci_Status := st, pci_Otherid := o1\<rparr>)"
proof -
  obtain cid where "sc_ConnInfos c pk = Some cid" "sc_ConnInfos2 c cid = Some p"
    using assms(1) by (auto simp: conn_info_def bind_eq_Some_conv)
  moreover from this have "pci_Connid p = cid" using tables_okD(2) [OF assms(2)] by (simp add: entry_ok_def)
  ultimately show ?thesis by (simp add: conn_info_def set_link_def)
qed

lemma set_link_fields [simp]: "sc_Pubkey (set_link i st o1 c) = sc_Pubkey c" "sc_ConnInfos (set_link i st o1 c) = sc_ConnInfos c"
  by (simp_all add: set_link_def)

lemma new_route_store:
  assumes "nextConnid order c = (cid, c1)" "cid \<noteq> 0"
  shows "new_route order i pk c srv =
    link_peers i pk cid (upd_conn i (\<lambda>_. sendRoutingResponse cid pk (add_info cid pk c1)) srv)"
  using assms by (simp add: new_route_def)

lemma handleRoutingRequest_new:
  assumes "ts_store srv i = Some c" "length pk = 32" "sc_Pubkey c \<noteq> Some pk" "conn_info c pk = None"
  shows "handleRoutingRequest order i (0 # pk) srv = Ok (new_route order i pk c srv)"
  using assms by (simp add: handleRoutingRequest_def)

lemma link_peers_none:
  assumes "ts_Conns srv b = Some j" "ts_store srv i = Some c" "sc_Pubkey c = Some a" "ts_store srv j = Some d"
    and "conn_info d a = None"
  shows "link_peers i b cid srv = srv"
  using assms by (simp add: link_peers_def)

text \<open>A client's first request for a peer that has not asked for it.\<close>

lemma first_request:
  assumes "srv_ok srv" "order_ok order" "ts_Conns srv a = Some i" "ts_Conns srv b = Some j" "a \<noteq> b" "length b = 32"
    and "ts_store srv i = Some c" "ts_store srv j = Some d" "conn_info c b = None" "conn_info d a = None"
    and "\<exists>k < 240. \<not> sc_ConnIds c k"
  shows "\<exists>x c1. handleRoutingRequest order i (0 # b) srv = Ok (upd_conn i (\<lambda>_. c1) srv) \<and> x \<noteq> 0 \<and>
    conn_info c1 b = Some \<lparr>pci_Pubkey = b, pci_Status = 1, pci_Otherid = 0, pci_Connid = x\<rparr> \<and> sc_Pubkey c1 = Some a"
proof -
  obtain x c1 where n: "nextConnid order c = (x, c1)" by force
  have keys: "sc_Pubkey c = Some a" "sc_Pubkey d = Some b"
    using srv_okD(2) [OF assms(1,3)] srv_okD(2) [OF assms(1,4)] assms(7,8) by auto
  have "i \<noteq> j" using keys assms(5,7,8) by auto
  have "\<not> 16 \<le> (0 :: byte)" by simp
  then have x: "x \<noteq> 0" "sc_Pubkey c1 = Some a"
    using nextConnid_cases [OF n assms(2)] assms(11) keys by auto
  let ?c2 = "sendRoutingResponse x b (add_info x b c1)"
  have key2: "sc_Pubkey ?c2 = Some a" using x by (simp add: add_info_def)
  have "link_peers i b x (upd_conn i (\<lambda>_. ?c2) srv) = upd_conn i (\<lambda>_. ?c2) srv"
    by (rule link_peers_none [where j = j and c = ?c2 and d = d and a = a])
      (use assms(4,7,8,10) key2 \<open>i \<noteq> j\<close> in auto)
  then have "handleRoutingRequest order i (0 # b) srv = Ok (upd_conn i (\<lambda>_. ?c2) srv)"
    using handleRoutingRequest_new [OF assms(7,6)] keys assms(5,9) new_route_store [OF n x(1)] by simp
  then show ?thesis using x(1) key2 by (intro exI [of _ x] exI [of _ ?c2]) (simp add: conn_info_add)
qed

lemma link_peers_both:
  assumes "ts_Conns srv a = Some i" "ts_store srv j = Some d" "sc_Pubkey d = Some b" "ts_store srv i = Some c"
    and "conn_info c b = Some q" "conn_info d a = Some p" "pci_Connid p = y" "i \<noteq> j" "tables_ok c" "tables_ok d"
  shows "\<exists>c1 d1. ts_store (link_peers j a y srv) i = Some c1 \<and> ts_store (link_peers j a y srv) j = Some d1 \<and>
    conn_info c1 b = Some (q\<lparr>pci_Status := 2, pci_Otherid := y\<rparr>) \<and>
    conn_info d1 a = Some (p\<lparr>pci_Status := 2, pci_Otherid := pci_Connid q\<rparr>)"
    "ts_Conns (link_peers j a y srv) = ts_Conns srv"
  using assms conn_info_link [OF assms(5,9), of 2 y] conn_info_link [OF assms(6,10), of 2 "pci_Connid q"]
  by (simp_all add: link_peers_def Let_def)

text \<open>The request of a client whose peer has asked for it.\<close>

lemma second_request:
  assumes "srv_ok srv" "order_ok order" "ts_Conns srv a = Some i" "ts_Conns srv b = Some j" "a \<noteq> b" "length a = 32"
    and "ts_store srv i = Some c" "ts_store srv j = Some d" "conn_info c b = Some q" "conn_info d a = None"
    and "\<exists>k < 240. \<not> sc_ConnIds d k"
  shows "\<exists>srv1 y c1 d1. handleRoutingRequest order j (0 # a) srv = Ok srv1 \<and> ts_Conns srv1 = ts_Conns srv \<and>
    ts_store srv1 i = Some c1 \<and> ts_store srv1 j = Some d1 \<and>
    conn_info c1 b = Some (q\<lparr>pci_Status := 2, pci_Otherid := y\<rparr>) \<and>
    conn_info d1 a = Some \<lparr>pci_Pubkey = a, pci_Status = 2, pci_Otherid = pci_Connid q, pci_Connid = y\<rparr>"
proof -
  obtain y d1 where n: "nextConnid order d = (y, d1)" by force
  have c: "sc_Pubkey c = Some a" "conn_ok c" and d: "sc_Pubkey d = Some b" "conn_ok d" "sc_Status d = TCP_STATUS_CONFIRMED"
    using srv_okD(2) [OF assms(1,3)] srv_okD(2) [OF assms(1,4)] srv_okD(1) [OF assms(1)] assms(7,8) by auto
  have "i \<noteq> j" using c d assms(5,7,8) by auto
  have y: "y \<noteq> 0" using nextConnid_cases [OF n assms(2)] assms(11) by auto
  let ?d2 = "sendRoutingResponse y a (add_info y a d1)"
  let ?srv = "upd_conn j (\<lambda>_. ?d2) srv"
  have key: "sc_Pubkey d \<noteq> Some a" "sc_Pubkey d \<noteq> None" using d assms(5) by auto
  have "conn_ok (add_info y a d1)" "sc_Pubkey ?d2 = Some b"
    using new_route_conn [OF d(2) assms(10) key d(3) n assms(2) y] d(1) by auto
  then have d2: "tables_ok ?d2" "sc_Pubkey ?d2 = Some b"
    using keepsD(1) [OF keeps_send(1)] by (auto simp: conn_ok_def)
  have info: "conn_info ?d2 a = Some \<lparr>pci_Pubkey = a, pci_Status = 1, pci_Otherid = 0, pci_Connid = y\<rparr>"
    by (simp add: conn_info_add)
  have "handleRoutingRequest order j (0 # a) srv = Ok (link_peers j a y ?srv)"
    using handleRoutingRequest_new [OF assms(8,6)] key assms(10) new_route_store [OF n y] by simp
  then show ?thesis
    using link_peers_both [of ?srv a i j ?d2 b c q, OF _ _ d2(2) _ assms(9) info refl \<open>i \<noteq> j\<close> _ d2(1)]
      assms(3,7,8) \<open>i \<noteq> j\<close> c(2)
    by (auto simp: conn_ok_def)
qed

lemma conn_info_entry:
  assumes "tables_ok c" "conn_info c b = Some p"
  shows "entry_ok c (pci_Connid p) p" "sc_ConnInfos2 c (pci_Connid p) = Some p" "pci_Pubkey p = b"
proof -
  obtain cid where cid: "sc_ConnInfos c b = Some cid" "sc_ConnInfos2 c cid = Some p"
    using assms(2) by (auto simp: conn_info_def bind_eq_Some_conv)
  have "entry_ok c cid p" by (rule tables_okD(2) [OF assms(1) cid(2)])
  then show "entry_ok c (pci_Connid p) p" "sc_ConnInfos2 c (pci_Connid p) = Some p" "pci_Pubkey p = b"
    using cid tables_okD(1) [OF assms(1) cid(1)] by (auto simp: entry_ok_def)
qed

lemma HandleRoutingData_forwards:
  assumes "srv_ok srv" "ts_store srv i = Some c" "sc_Pubkey c = Some a" "conn_info c b = Some p"
    and "ts_Conns srv b = Some j" "ts_store srv j = Some d" "conn_info d a = Some q"
    and "length data \<le> 2048" "length (sc_cwdataq d) < 128"
  shows "HandleRoutingData i (pci_Connid p # data) srv =
      Ok (upd_conn j (\<lambda>d. d\<lparr>sc_cwdataq := sc_cwdataq d @ [pci_Connid q # data]\<rparr>) srv) \<and>
    j \<noteq> i \<and> 16 \<le> pci_Connid q"
proof -
  have t: "tables_ok c" "tables_ok d" using srv_okD(1) [OF assms(1)] assms(2,6) by (auto simp: conn_ok_def)
  have p: "sc_ConnInfos2 c (pci_Connid p) = Some p" "pci_Pubkey p = b"
    and q: "entry_ok d (pci_Connid q) q"
    using conn_info_entry [OF t(1) assms(4)] conn_info_entry [OF t(2) assms(7)] by auto
  have "sc_Pubkey d = Some b" using srv_okD(2) [OF assms(1,5)] assms(6) by auto
  moreover have "sc_Pubkey c \<noteq> Some b" using tables_okD(2) [OF t(1) p(1)] p(2) by (simp add: entry_ok_def)
  ultimately have "j \<noteq> i" using assms(2,6) by auto
  moreover have "upd_conn j (SendDataPacket (pci_Connid q) data) srv =
      upd_conn j (\<lambda>d. d\<lparr>sc_cwdataq := sc_cwdataq d @ [pci_Connid q # data]\<rparr>) srv"
    using assms(6,8,9) by (simp add: upd_conn_def SendDataPacket_def)
  ultimately show ?thesis
    using assms(2-7) p q by (simp add: HandleRoutingData_def entry_ok_def)
qed

section \<open>Properties\<close>

text \<open>C8: In every state a server can reach, the two routing tables of each connection describe the same
  entries under numbers from 16 upwards that are marked as taken, no client has an entry for itself, and
  the server's table names confirmed connections by their keys.\<close>

theorem server_tables:
  assumes "(server_step nb)\<^sup>*\<^sup>* (NewTCPServer k) srv"
  shows "srv_ok srv"
  by (rule server_steps_ok [OF assms])

theorem server_tables_witness: "srv_ok (doClose 7 (startHandshake 7 (NewTCPServer [1])))"
proof -
  have "server_step demo_box (NewTCPServer [1]) (startHandshake 7 (NewTCPServer [1]))"
    by (rule srv_accept) (simp add: NewTCPServer_def)
  then have "(server_step demo_box)\<^sup>*\<^sup>* (NewTCPServer [1]) (doClose 7 (startHandshake 7 (NewTCPServer [1])))"
    by (meson srv_close r_into_rtranclp rtranclp.rtrancl_into_rtrancl)
  then show ?thesis by (rule server_tables)
qed

text \<open>C36: When two registered clients ask the server for each other, in either order, both end up with an entry
  for the other that is linked to the other's number.\<close>

theorem mutual_requests_link:
  assumes "srv_ok srv" "order_ok order1" "order_ok order2"
    and "ts_Conns srv a = Some i" "ts_Conns srv b = Some j" "a \<noteq> b" "length a = 32" "length b = 32"
    and "ts_store srv i = Some c" "ts_store srv j = Some d" "conn_info c b = None" "conn_info d a = None"
    and "\<exists>k < 240. \<not> sc_ConnIds c k" "\<exists>k < 240. \<not> sc_ConnIds d k"
  shows "\<exists>srv1 srv2 x y c2 d2. handleRoutingRequest order1 i (0 # b) srv = Ok srv1 \<and>
    handleRoutingRequest order2 j (0 # a) srv1 = Ok srv2 \<and> ts_Conns srv2 = ts_Conns srv \<and>
    ts_store srv2 i = Some c2 \<and> ts_store srv2 j = Some d2 \<and>
    conn_info c2 b = Some \<lparr>pci_Pubkey = b, pci_Status = 2, pci_Otherid = y, pci_Connid = x\<rparr> \<and>
    conn_info d2 a = Some \<lparr>pci_Pubkey = a, pci_Status = 2, pci_Otherid = x, pci_Connid = y\<rparr>"
proof -
  obtain x c1 where r1: "handleRoutingRequest order1 i (0 # b) srv = Ok (upd_conn i (\<lambda>_. c1) srv)" "x \<noteq> 0"
    "conn_info c1 b = Some \<lparr>pci_Pubkey = b, pci_Status = 1, pci_Otherid = 0, pci_Connid = x\<rparr>" "sc_Pubkey c1 = Some a"
    using first_request [OF assms(1,2,4-6,8-13)] by blast
  let ?srv1 = "upd_conn i (\<lambda>_. c1) srv"
  have ok: "srv_ok ?srv1"
    using handleRoutingRequest_ok [OF assms(1,2) r1(1)] srv_okD(2) [OF assms(1,4)] assms(9) by auto
  have "i \<noteq> j" using srv_okD(2) [OF assms(1,4)] srv_okD(2) [OF assms(1,5)] assms(6,9,10) by auto
  then show ?thesis
    using second_request [OF ok assms(3) _ _ assms(6,7) _ _ r1(3), of i j d] assms(4,5,9,10,12,14) r1(1)
    by auto
qed

definition demo_peer :: "bytes \<Rightarrow> TCPSecureConn" where
  "demo_peer pk = (NewTCPSecureConn [])\<lparr>sc_Pubkey := Some pk, sc_Status := TCP_STATUS_CONFIRMED\<rparr>"

definition demo_keyA :: bytes where "demo_keyA = replicate 32 1"
definition demo_keyB :: bytes where "demo_keyB = replicate 32 2"

definition demo_server :: TCPServer where
  "demo_server = \<lparr>ts_Seckey = [], ts_store = [1 \<mapsto> demo_peer demo_keyA, 2 \<mapsto> demo_peer demo_keyB],
     ts_Conns = [demo_keyA \<mapsto> 1, demo_keyB \<mapsto> 2], ts_HSConns = {}\<rparr>"

definition all_ids :: "byte list" where
  "all_ids = map of_nat [0..<240]"

lemma all_ids_ok: "order_ok all_ids"
proof -
  have "i \<in> of_nat ` {0..<240}" if "i < 240" for i :: byte
    using that by (intro image_eqI [of _ _ "unat i"]) (simp_all add: word_less_nat_alt)
  moreover have "(of_nat n :: byte) < 240" if "n < 240" for n
    using that by (simp add: word_less_nat_alt unat_of_nat)
  ultimately show ?thesis unfolding order_ok_def all_ids_def by (auto simp del: of_nat_numeral)
qed

lemma demo_server_ok: "srv_ok demo_server"
proof -
  have "conn_ok (demo_peer k)" for k
    by (rule conn_ok_fresh) (simp_all add: demo_peer_def NewTCPSecureConn_def)
  moreover have "demo_keyA \<noteq> demo_keyB" by (simp add: demo_keyA_def demo_keyB_def)
  ultimately show ?thesis
    by (intro srv_okI) (auto simp: demo_server_def demo_peer_def NewTCPSecureConn_def split: if_splits)
qed

lemma demo_server_facts:
  "ts_Conns demo_server demo_keyA = Some 1" "ts_Conns demo_server demo_keyB = Some 2" "demo_keyA \<noteq> demo_keyB"
  "length demo_keyA = 32" "length demo_keyB = 32" "ts_store demo_server 1 = Some (demo_peer demo_keyA)"
  "ts_store demo_server 2 = Some (demo_peer demo_keyB)" "conn_info (demo_peer k) k2 = None"
  "\<exists>i < 240. \<not> sc_ConnIds (demo_peer k) i"
  by (auto simp: demo_server_def demo_keyA_def demo_keyB_def demo_peer_def NewTCPSecureConn_def conn_info_def
      initConnids_def intro: exI [of _ 0])

theorem mutual_requests_link_witness:
  "\<exists>srv1 srv2 x y c2 d2. handleRoutingRequest all_ids 1 (0 # demo_keyB) demo_server = Ok srv1 \<and>
    handleRoutingRequest all_ids 2 (0 # demo_keyA) srv1 = Ok srv2 \<and>
    ts_store srv2 1 = Some c2 \<and> ts_store srv2 2 = Some d2 \<and>
    conn_info c2 demo_keyB = Some \<lparr>pci_Pubkey = demo_keyB, pci_Status = 2, pci_Otherid = y, pci_Connid = x\<rparr> \<and>
    conn_info d2 demo_keyA = Some \<lparr>pci_Pubkey = demo_keyA, pci_Status = 2, pci_Otherid = x, pci_Connid = y\<rparr>"
  using mutual_requests_link [OF demo_server_ok all_ids_ok all_ids_ok demo_server_facts(1-7,8,8,9,9)] by blast

definition demo_linkA :: TCPSecureConn where
  "demo_linkA = (demo_peer demo_keyA)\<lparr>sc_ConnInfos := [demo_keyB \<mapsto> 17],
     sc_ConnInfos2 := [17 \<mapsto> \<lparr>pci_Pubkey = demo_keyB, pci_Status = 2, pci_Otherid = 16, pci_Connid = 17\<rparr>],
     sc_ConnIds := (\<lambda>i. i = 1)\<rparr>"

definition demo_linkB :: TCPSecureConn where
  "demo_linkB = (demo_peer demo_keyB)\<lparr>sc_ConnInfos := [demo_keyA \<mapsto> 16],
     sc_ConnInfos2 := [16 \<mapsto> \<lparr>pci_Pubkey = demo_keyA, pci_Status = 2, pci_Otherid = 17, pci_Connid = 16\<rparr>],
     sc_ConnIds := (\<lambda>i. i = 0)\<rparr>"

definition demo_linked :: TCPServer where
  "demo_linked = demo_server\<lparr>ts_store := [1 \<mapsto> demo_linkA, 2 \<mapsto> demo_linkB]\<rparr>"

lemma demo_linked_ok: "srv_ok demo_linked"
  by (rule srv_okI)
    (auto simp: demo_linked_def demo_linkA_def demo_linkB_def demo_server_def demo_peer_def NewTCPSecureConn_def
      conn_ok_def tables_ok_def entry_ok_def demo_keyA_def demo_keyB_def split: if_splits)

lemma demo_linked_facts:
  "ts_store demo_linked 1 = Some demo_linkA" "sc_Pubkey demo_linkA = Some demo_keyA"
  "conn_info demo_linkA demo_keyB = Some \<lparr>pci_Pubkey = demo_keyB, pci_Status = 2, pci_Otherid = 16, pci_Connid = 17\<rparr>"
  "ts_Conns demo_linked demo_keyB = Some 2" "ts_store demo_linked 2 = Some demo_linkB"
  "conn_info demo_linkB demo_keyA = Some \<lparr>pci_Pubkey = demo_keyA, pci_Status = 2, pci_Otherid = 17, pci_Connid = 16\<rparr>"
  "length ([5, 6] :: bytes) \<le> 2048" "length (sc_cwdataq demo_linkB) < 128" "sc_cwdataq demo_linkB = []"
  by (simp_all add: demo_linked_def demo_linkA_def demo_linkB_def demo_server_def demo_peer_def NewTCPSecureConn_def
      conn_info_def demo_keyA_def demo_keyB_def)

text \<open>A connection that is closed before it is confirmed takes the confirmed connection of the same client out
  of the server's table, which stays open but can no longer be reached.\<close>

theorem unconfirmed_close_unregisters:
  assumes "ts_Conns srv pk = Some i" "ts_store srv i = Some c" "sc_Status c = TCP_STATUS_CONFIRMED" "\<not> sc_sockClosed c"
    and "ts_store srv j = Some d" "sc_Pubkey d = Some pk" "sc_onClosed d" "j \<noteq> i"
  shows "ts_Conns (doClose j srv) pk = None \<and>
    (\<exists>c1. ts_store (doClose j srv) i = Some c1 \<and> sc_Status c1 = TCP_STATUS_CONFIRMED \<and> \<not> sc_sockClosed c1)"
  using assms
  by (auto simp: doClose_def Let_def onConnClosed_def killAccepted_store registered_def kill_entry_def
      SendDisconnectNotification_def SendCtrlPacket_def set_link_def split: option.splits)

theorem unconfirmed_close_unregisters_witness:
  "ts_Conns (doClose 3 (demo_linked\<lparr>ts_store := (ts_store demo_linked)(3 \<mapsto> (NewTCPSecureConn [])
      \<lparr>sc_Pubkey := Some demo_keyB, sc_Status := TCP_STATUS_UNCONFIRMED\<rparr>)\<rparr>)) demo_keyB = None"
  using unconfirmed_close_unregisters [of "demo_linked\<lparr>ts_store := (ts_store demo_linked)(3 \<mapsto> (NewTCPSecureConn [])
      \<lparr>sc_Pubkey := Some demo_keyB, sc_Status := TCP_STATUS_UNCONFIRMED\<rparr>)\<rparr>" demo_keyB 2 demo_linkB 3]
    demo_linked_facts(4,5)
  by (simp add: demo_linkB_def demo_peer_def NewTCPSecureConn_def)

text \<open>A handshake request that does not decrypt ends the server's process instead of closing the
  connection, whoever sent it.\<close>

theorem forged_handshake_panics:
  assumes "ts_store srv i = Some c" "sc_Status c = TCP_STATUS_NO_STATUS" "128 \<le> length (sc_crbuf c)"
    and "nb_Open nb (nb_Precompute nb (take 32 (sc_crbuf c)) (sc_Seckey c)) (take 24 (drop 32 (sc_crbuf c)))
      (take 72 (drop 56 (sc_crbuf c))) = None"
  shows "doReadPacket_turn nb fresh order i srv = Panic"
proof -
  obtain sn tn tpk tsk where f: "fresh = (sn, tn, tpk, tsk)" using prod_cases4 by blast
  have "drop 56 (take 128 (sc_crbuf c)) = take 72 (drop 56 (sc_crbuf c))" by (simp add: drop_take)
  moreover have "take 24 (drop 32 (take 128 (sc_crbuf c))) = take 24 (drop 32 (sc_crbuf c))"
    by (simp add: drop_take)
  moreover have "length (take 72 (drop 56 (sc_crbuf c))) \<noteq> 16" using assms(3) by simp
  ultimately have "HandleHandshake nb sn tn tpk tsk (take 128 (sc_crbuf c)) (c\<lparr>sc_crbuf := drop 128 (sc_crbuf c)\<rparr>) = Panic"
    using assms(3,4) DecryptDataSymmetric_forged [of nb] by (simp add: HandleHandshake_def Let_def CBBeforeNm_def)
  then show ?thesis using assms(1-3) f by (simp add: doReadPacket_turn_def read_frame_def)
qed

definition demo_forged :: TCPSecureConn where
  "demo_forged = (NewTCPSecureConn [1])\<lparr>sc_crbuf := replicate 56 9 @ replicate 72 8\<rparr>"

theorem forged_handshake_panics_witness:
  "doReadPacket_turn demo_box ([], [], [], []) all_ids 7 (demo_server\<lparr>ts_store := [7 \<mapsto> demo_forged]\<rparr>) = Panic"
proof -
  have "nb_Open demo_box (nb_Precompute demo_box (take 32 (sc_crbuf demo_forged)) (sc_Seckey demo_forged))
      (take 24 (drop 32 (sc_crbuf demo_forged))) (take 72 (drop 56 (sc_crbuf demo_forged))) = None"
    "sc_Status demo_forged = TCP_STATUS_NO_STATUS" "128 \<le> length (sc_crbuf demo_forged)"
    by (code_simp, code_simp, code_simp)
  then show ?thesis by (intro forged_handshake_panics) simp_all
qed

end
