(* ===== verification/Tcp_Session.thy ===== *)
theory Tcp_Session
  imports Tcp_Client Tcp_Server
begin

text \<open>
  The two ends of a TCP relay connection together: the client of \<^verbatim>\<open>go-tox-tcpclient\<close> and the server of
  \<^verbatim>\<open>mintox\<close>, which were written apart and have to agree on keys, nonces and frames.
\<close>

section \<open>Frames at the server\<close>

lemma Incr2_incrNonce: "length n = 24 \<Longrightarrow> Incr2 n = incrNonce n"
  by (simp add: incrNonce_eq Incr2_eq)

lemma length_incrNonce: "length n = 24 \<Longrightarrow> length (incrNonce n) = 24"
  by (simp add: incrNonce_eq)

text \<open>A frame a client has sent is cut out of the buffer and opened; the nonce moves on as the client's
  did.\<close>

lemma server_opens_frame:
  assumes "box_ok nb" "sc_Status c \<noteq> TCP_STATUS_NO_STATUS" "sc_nxtpktlen c = 0"
    and "sc_crbuf c = frames nb (sc_Shrkey c) n (p # ps)" "sc_RecvNonce c = n" "length n = 24" "length p \<le> 2048"
  shows "\<exists>buf c1. read_frame c = Ok (Some buf, c1) \<and>
    Unpacket nb buf c1 = (Ok p, c\<lparr>sc_crbuf := frames nb (sc_Shrkey c) (incrNonce n) ps, sc_RecvNonce := incrNonce n\<rparr>)"
proof -
  let ?s = "nb_Seal nb (sc_Shrkey c) n p"
  let ?rest = "frames nb (sc_Shrkey c) (incrNonce n) ps"
  have len: "length ?s = length p + 16" by (rule box_okD(2) [OF assms(1)])
  define m where "m = length ?s"
  have m: "m < 2 ^ 16 - 2" using assms(7) len by (simp add: m_def)
  then have u: "unat (of_nat m :: u16) = m" by (simp add: unat_of_nat)
  have buf: "sc_crbuf c = put_u16 (of_nat m) @ ?s @ ?rest" using assms(4) by (simp add: m_def)
  have "read_frame c = Ok (Some (put_u16 (of_nat m) @ ?s), c\<lparr>sc_nxtpktlen := 0, sc_crbuf := ?rest\<rparr>)"
    using assms(2,3) u m m_def by (cases "sc_Status c") (simp_all add: read_frame_def buf Let_def)
  moreover have "c\<lparr>sc_nxtpktlen := 0, sc_crbuf := ?rest, sc_RecvNonce := incrNonce n\<rparr> =
      c\<lparr>sc_crbuf := ?rest, sc_RecvNonce := incrNonce n\<rparr>"
    using assms(3) by (cases c) simp
  ultimately show ?thesis
    using DecryptDataSymmetric_ok [OF assms(1)] assms(5,6) Incr2_incrNonce by (simp add: Unpacket_def)
qed

lemma WritePacket_frame:
  assumes "box_ok nb" "length p \<le> 2049" "length (sc_SentNonce c) = 24"
  shows "WritePacket nb True p c = (Ok True, c\<lparr>sc_wrote := sc_wrote c @ frames nb (sc_Shrkey c) (sc_SentNonce c) [p],
    sc_SentNonce := incrNonce (sc_SentNonce c)\<rparr>)"
  using assms box_okD(2) [OF assms(1)]
  by (simp add: WritePacket_def CreatePacket_def EncryptDataSymmetric_ok Incr2_incrNonce)

lemma read_handshake:
  "length pkt = 128 \<Longrightarrow> read_frame ((NewTCPSecureConn k)\<lparr>sc_crbuf := pkt\<rparr>) = Ok (Some pkt, NewTCPSecureConn k)"
  by (simp add: read_frame_def) (simp add: NewTCPSecureConn_def)

text \<open>One turn of the reader on a data frame.\<close>

lemma turn_forwards:
  assumes "box_ok nb" "srv_ok srv" "ts_store srv i = Some c" "sc_Pubkey c = Some a" "sc_Status c = TCP_STATUS_CONFIRMED"
    and "sc_nxtpktlen c = 0" "sc_crbuf c = frames nb (sc_Shrkey c) (sc_RecvNonce c) [pci_Connid p # data]"
    and "length (sc_RecvNonce c) = 24" "conn_info c b = Some p" "ts_Conns srv b = Some j" "ts_store srv j = Some d"
    and "conn_info d a = Some q" "length data < 2032" "sc_cwdataq d = []"
  shows "\<exists>srv1. doReadPacket_turn nb fresh order i srv = Ok (True, srv1) \<and>
    ts_store srv1 j = Some (d\<lparr>sc_cwdataq := [pci_Connid q # data]\<rparr>)"
proof -
  obtain buf c1 where rd: "read_frame c = Ok (Some buf, c1)"
    "Unpacket nb buf c1 = (Ok (pci_Connid p # data), c\<lparr>sc_crbuf := [], sc_RecvNonce := incrNonce (sc_RecvNonce c)\<rparr>)"
    using server_opens_frame [OF assms(1) _ assms(6,7) refl assms(8)] assms(5,13) by auto
  define c2 where "c2 = c\<lparr>sc_crbuf := [], sc_RecvNonce := incrNonce (sc_RecvNonce c)\<rparr>"
  let ?srv = "upd_conn i (\<lambda>_. c2) srv"
  have c2: "conn_info c2 b = Some p" "sc_Pubkey c2 = Some a" using assms(4,9) by (auto simp: c2_def conn_info_def)
  have ok: "srv_ok ?srv" using assms(2,3) conn_ok_same [of c c2] by (intro srv_ok_upd) (auto simp: c2_def)
  have "tables_ok c" using srv_okD(1) [OF assms(2,3)] by (simp add: conn_ok_def)
  from conn_info_entry [OF this assms(9)]
  have p: "16 \<le> pci_Connid p" "sc_Pubkey c \<noteq> Some b" by (auto simp: entry_ok_def)
  then have ne: "pci_Connid p \<noteq> 4" "pci_Connid p \<noteq> 0" "pci_Connid p \<noteq> 3" by (auto simp: word_le_nat_alt)
  have "j \<noteq> i" using p(2) srv_okD(2) [OF assms(2,10)] assms(3,11) by auto
  then have d: "ts_store ?srv j = Some d" using assms(11) by simp
  have "HandleRoutingData i (pci_Connid p # data) ?srv =
      Ok (upd_conn j (\<lambda>d. d\<lparr>sc_cwdataq := sc_cwdataq d @ [pci_Connid q # data]\<rparr>) ?srv)"
    using HandleRoutingData_forwards [OF ok _ c2(2,1) _ d assms(12), where data = data] assms(3,10,13,14) by simp
  then show ?thesis
    using assms(3,5,14) rd p(1) ne d by (simp add: doReadPacket_turn_def handle_packet_def c2_def [symmetric])
qed

section \<open>Properties\<close>

text \<open>C7: The handshake agrees.  From the client's packet the server takes the client's key and replies; from
  the reply the client computes the key of the session.  Afterwards both have the same session key, and
  each side's sending nonce is the other side's receiving nonce.\<close>

theorem handshake_agreement:
  assumes "box_ok nb" "dh_ok nb base" "length ssk = 32" "length csk = 32" "length tsk = 32" "length usk = 32"
    and "length sn = 24" "length inn = 24" "length rn = 24" "length tn = 24"
    and "generateClientPacket nb (Some (base tsk, tsk)) sn inn (newHandshakeState nb (base ssk) (base csk) csk) = (Ok pkt, hs)"
    and "ts_store srv i = Some ((NewTCPSecureConn ssk)\<lparr>sc_crbuf := pkt\<rparr>)"
  shows "\<exists>srv1 c reply. doReadPacket_turn nb (rn, tn, base usk, usk) order i srv = Ok (True, srv1) \<and>
    ts_store srv1 i = Some c \<and> sc_Status c = TCP_STATUS_UNCONFIRMED \<and> sc_Pubkey c = Some (base csk) \<and>
    sc_wrote c = reply \<and> handleServerResponse nb hs reply = Ok (sc_Shrkey c, sc_SentNonce c) \<and> sc_RecvNonce c = sn"
proof -
  let ?shr = "nb_Precompute nb (base ssk) csk"
  have dh: "nb_Precompute nb (base csk) ssk = ?shr" "length (base csk) = 32" "length (base tsk) = 32" "length (base usk) = 32"
    "nb_Precompute nb (base usk) tsk = nb_Precompute nb (base tsk) usk"
    using assms(2-6) by (auto simp: dh_ok_def)
  have pkt: "pkt = base csk @ inn @ nb_Seal nb ?shr inn (base tsk @ sn)" "hs_initShr hs = ?shr" "hs_tempSK hs = tsk"
    using generateClientPacket_bytes [OF assms(1) dh(3) assms(7,8), of "newHandshakeState nb (base ssk) (base csk) csk" tsk]
      assms(11) dh(2) by (auto simp: newHandshakeState_def beforeNm_def)
  have len: "length (nb_Seal nb ?shr inn (base tsk @ sn)) = 72" using box_okD(2) [OF assms(1)] dh(3) assms(7) by simp
  let ?reply = "tn @ nb_Seal nb ?shr tn (base usk @ rn)"
  let ?start = "(NewTCPSecureConn ssk)\<lparr>sc_crbuf := pkt\<rparr>"
  let ?c = "(NewTCPSecureConn ssk)\<lparr>sc_Pubkey := Some (base csk), sc_Shrkey := nb_Precompute nb (base tsk) usk,
     sc_RecvNonce := sn, sc_SentNonce := rn, sc_wrote := ?reply, sc_Status := TCP_STATUS_UNCONFIRMED\<rparr>"
  have "length pkt = 128" using len dh(2) assms(8) by (simp add: pkt(1))
  then have "read_frame ?start = Ok (Some pkt, NewTCPSecureConn ssk)" by (rule read_handshake)
  moreover have "HandleHandshake nb rn tn (base usk) usk pkt (NewTCPSecureConn ssk) =
      Ok (?c\<lparr>sc_Status := TCP_STATUS_NO_STATUS\<rparr>)"
    using len dh assms(7-9) DecryptDataSymmetric_ok [OF assms(1)] EncryptDataSymmetric_ok [OF assms(1)]
    by (simp add: HandleHandshake_def pkt(1) NewTCPSecureConn_def CBBeforeNm_def Let_def)
  ultimately have "doReadPacket_turn nb (rn, tn, base usk, usk) order i srv = Ok (True, upd_conn i (\<lambda>_. ?c) srv)"
    using assms(12) by (simp add: doReadPacket_turn_def NewTCPSecureConn_def)
  moreover have "handleServerResponse nb hs ?reply = Ok (nb_Precompute nb (base tsk) usk, rn)"
    using handleServerResponse_box [OF assms(1) dh(4) assms(9,10), of hs] pkt(2,3) dh(5) by (simp add: beforeNm_def)
  ultimately show ?thesis using assms(12) by auto
qed

theorem handshake_agreement_witness:
  "\<exists>pkt hs srv1 c. generateClientPacket demo_box (Some (replicate 32 3, replicate 32 3)) (replicate 24 4) (replicate 24 5)
      (newHandshakeState demo_box (replicate 32 1) (replicate 32 2) (replicate 32 2)) = (Ok pkt, hs) \<and>
    doReadPacket_turn demo_box (replicate 24 6, replicate 24 7, replicate 32 8, replicate 32 8) all_ids 9
      (demo_server\<lparr>ts_store := [9 \<mapsto> (NewTCPSecureConn (replicate 32 1))\<lparr>sc_crbuf := pkt\<rparr>]\<rparr>) = Ok (True, srv1) \<and>
    ts_store srv1 9 = Some c \<and> handleServerResponse demo_box hs (sc_wrote c) = Ok (sc_Shrkey c, sc_SentNonce c)"
proof -
  obtain pkt hs where g: "generateClientPacket demo_box (Some (replicate 32 3, replicate 32 3)) (replicate 24 4)
      (replicate 24 5) (newHandshakeState demo_box (replicate 32 1) (replicate 32 2) (replicate 32 2)) = (Ok pkt, hs)"
    by (simp add: generateClientPacket_def Let_def)
  then show ?thesis
    using handshake_agreement [OF demo_box_ok demo_dh_ok, of "replicate 32 1" "replicate 32 2" "replicate 32 3"
        "replicate 32 8" "replicate 24 4" "replicate 24 5" "replicate 24 6" "replicate 24 7" pkt hs
        "demo_server\<lparr>ts_store := [9 \<mapsto> (NewTCPSecureConn (replicate 32 1))\<lparr>sc_crbuf := pkt\<rparr>]\<rparr>" 9 all_ids]
    by auto
qed

text \<open>C6: Data crosses the relay.  The frame of one client with data for a number reaches, through one turn of the
  server's reader and one of its writer, the client at the other end of the link, which hands exactly the data to
  its callback under its own number for the sender.\<close>

theorem data_crosses_relay:
  assumes "box_ok nb" "srv_ok srv" "ts_store srv i = Some c" "sc_Pubkey c = Some a" "sc_Status c = TCP_STATUS_CONFIRMED"
    and "sc_nxtpktlen c = 0" "sc_crbuf c = frames nb (sc_Shrkey c) (sc_RecvNonce c) [pci_Connid p # data]"
    and "length (sc_RecvNonce c) = 24" "conn_info c b = Some p" "ts_Conns srv b = Some j" "ts_store srv j = Some d"
    and "conn_info d a = Some q" "length data < 2032" "sc_cwdataq d = []" "sc_cwctrlq d = []"
    and "length (sc_SentNonce d) = 24" "tc_shrkey t = sc_Shrkey d" "tc_recvNonce t = sc_SentNonce d" "tc_OnData t"
  shows "\<exists>srv1 d1 d2 w. doReadPacket_turn nb fresh order i srv = Ok (True, srv1) \<and> ts_store srv1 j = Some d1 \<and>
    writeLoop_turn nb True ctrl d1 = (Ok True, d2) \<and> sc_wrote d2 = sc_wrote d @ w \<and>
    readLoop nb pick w t = Some (handleDisconnect (t\<lparr>tc_recvNonce := incrNonce (tc_recvNonce t),
      tc_calls := tc_calls t @ [DataEv (pci_Connid q - 16) data]\<rparr>))"
proof -
  obtain srv1 where r: "doReadPacket_turn nb fresh order i srv = Ok (True, srv1)"
    "ts_store srv1 j = Some (d\<lparr>sc_cwdataq := [pci_Connid q # data]\<rparr>)"
    using turn_forwards [OF assms(1-14)] by blast
  let ?d1 = "d\<lparr>sc_cwdataq := [pci_Connid q # data]\<rparr>"
  let ?w = "frames nb (sc_Shrkey d) (sc_SentNonce d) [pci_Connid q # data]"
  have w: "\<exists>d2. writeLoop_turn nb True ctrl ?d1 = (Ok True, d2) \<and> sc_wrote d2 = sc_wrote d @ ?w"
    using WritePacket_frame [OF assms(1), of "pci_Connid q # data" "d\<lparr>sc_cwdataq := []\<rparr>"] assms(13,15,16)
    by (simp add: writeLoop_turn_def)
  have "tables_ok d" using srv_okD(1) [OF assms(2,11)] by (simp add: conn_ok_def)
  from conn_info_entry(1) [OF this assms(12)] have "16 \<le> pci_Connid q" by (simp add: entry_ok_def)
  then have "unat (pci_Connid q - 16) = unat (pci_Connid q) - 16" by (simp add: unat_sub)
  then have "unat (pci_Connid q - 16) < 240" using unat_byte_less [of "pci_Connid q"] by linarith
  then have "readLoop nb pick ?w t = Some (handleDisconnect (t\<lparr>tc_recvNonce := incrNonce (tc_recvNonce t),
      tc_calls := tc_calls t @ [DataEv (pci_Connid q - 16) data]\<rparr>))"
    using readLoop_data [OF assms(1), of "[(pci_Connid q - 16, data)]" t] assms(13,17-19) by simp
  then show ?thesis using r w by blast
qed

definition demo_sender :: TCPSecureConn where
  "demo_sender = demo_linkA\<lparr>sc_Shrkey := [1], sc_RecvNonce := replicate 24 7,
     sc_crbuf := frames demo_box [1] (replicate 24 7) [[17, 5, 6]]\<rparr>"

definition demo_receiver :: TCPSecureConn where
  "demo_receiver = demo_linkB\<lparr>sc_Shrkey := [2], sc_SentNonce := replicate 24 8\<rparr>"

definition demo_relay :: TCPServer where
  "demo_relay = demo_server\<lparr>ts_store := [1 \<mapsto> demo_sender, 2 \<mapsto> demo_receiver]\<rparr>"

lemma demo_relay_ok: "srv_ok demo_relay"
  by (rule srv_okI)
    (auto simp: demo_relay_def demo_sender_def demo_receiver_def demo_linkA_def demo_linkB_def demo_server_def
      demo_peer_def NewTCPSecureConn_def conn_ok_def tables_ok_def entry_ok_def demo_keyA_def demo_keyB_def
      split: if_splits)

lemma demo_relay_facts:
  "ts_store demo_relay 1 = Some demo_sender" "sc_Pubkey demo_sender = Some demo_keyA"
  "sc_Status demo_sender = TCP_STATUS_CONFIRMED" "sc_nxtpktlen demo_sender = 0"
  "sc_crbuf demo_sender = frames demo_box (sc_Shrkey demo_sender) (sc_RecvNonce demo_sender) [17 # [5, 6]]"
  "length (sc_RecvNonce demo_sender) = 24"
  "conn_info demo_sender demo_keyB = Some \<lparr>pci_Pubkey = demo_keyB, pci_Status = 2, pci_Otherid = 16, pci_Connid = 17\<rparr>"
  "ts_Conns demo_relay demo_keyB = Some 2" "ts_store demo_relay 2 = Some demo_receiver"
  "conn_info demo_receiver demo_keyA = Some \<lparr>pci_Pubkey = demo_keyA, pci_Status = 2, pci_Otherid = 17, pci_Connid = 16\<rparr>"
  "sc_cwdataq demo_receiver = []" "sc_cwctrlq demo_receiver = []" "length (sc_SentNonce demo_receiver) = 24"
  by (simp_all add: demo_relay_def demo_sender_def demo_receiver_def demo_linkA_def demo_linkB_def demo_server_def
      demo_peer_def NewTCPSecureConn_def conn_info_def demo_keyA_def demo_keyB_def)

theorem data_crosses_relay_witness:
  "\<exists>srv1 d1 d2 w t1. doReadPacket_turn demo_box ([], [], [], []) all_ids 1 demo_relay = Ok (True, srv1) \<and>
    ts_store srv1 2 = Some d1 \<and> writeLoop_turn demo_box True False d1 = (Ok True, d2) \<and> sc_wrote d2 = w \<and>
    readLoop demo_box (\<lambda>_. True) w (demo_client\<lparr>tc_shrkey := [2], tc_recvNonce := replicate 24 8, tc_OnData := True\<rparr>)
      = Some t1 \<and> tc_calls t1 = [DataEv 0 [5, 6]]"
proof -
  let ?t = "demo_client\<lparr>tc_shrkey := [2], tc_recvNonce := replicate 24 8, tc_OnData := True\<rparr>"
  have t: "tc_shrkey ?t = sc_Shrkey demo_receiver" "tc_recvNonce ?t = sc_SentNonce demo_receiver" "tc_OnData ?t"
    "sc_wrote demo_receiver = []" "tc_calls ?t = []"
    by (simp_all add: demo_receiver_def demo_linkB_def demo_peer_def NewTCPSecureConn_def demo_client_def New_def Let_def)
  show ?thesis
    using data_crosses_relay [OF demo_box_ok demo_relay_ok demo_relay_facts(1-4) _ demo_relay_facts(6-10) _
        demo_relay_facts(11-13) t(1-3), of "[5, 6]" "([], [], [], [])" all_ids False "\<lambda>_. True"] demo_relay_facts(5) t(4,5)
    by (auto simp: handleDisconnect_def Let_def demo_client_def New_def)
qed

end
