(* ===== verification/Priority_List.thy ===== *)
theory Priority_List
  imports Go_Prelude "HOL-Library.AList" "HOL-Library.Sublist"
begin

text \<open>
  The unique priority list of \<^verbatim>\<open>mintox/priority_list.go\<close>: a bounded list of items in the order of their
  \<^verbatim>\<open>Compare\<close> method and a map from keys to items.  The interface \<^verbatim>\<open>PLItem\<close> is a pair of arguments: \<^verbatim>\<open>key\<close>, and
  \<^verbatim>\<open>cmp\<close>, whose value None is the panic of the type assertion with which the implementations of \<^verbatim>\<open>Compare\<close>
  begin.  The Go map is an association list with every key once.  The lock is held for a whole operation,
  so an operation is one step.  Random numbers are arguments.
\<close>

section \<open>The list\<close>

record 'a PriorityList =
  pl_max :: nat
  pl_keys :: "(bytes \<times> 'a) list"
  pl_lst :: "'a list"

definition NewPriorityList :: "nat \<Rightarrow> 'a PriorityList" where
  "NewPriorityList m = \<lparr>pl_max = m, pl_keys = [], pl_lst = []\<rparr>"

definition Len :: "'a PriorityList \<Rightarrow> nat" where
  "Len l = length (pl_lst l)"

text \<open>The loop that overwrites the first item with the key of the new one.  The map is not changed.\<close>

fun replace_first :: "('a \<Rightarrow> bytes) \<Rightarrow> 'a \<Rightarrow> 'a list \<Rightarrow> 'a list" where
  "replace_first key item [] = []"
| "replace_first key item (x # xs) = (if key x = key item then item # xs else x # replace_first key item xs)"

definition replaceItem :: "('a \<Rightarrow> bytes) \<Rightarrow> 'a \<Rightarrow> 'a PriorityList \<Rightarrow> 'a PriorityList" where
  "replaceItem key item l = l\<lparr>pl_lst := replace_first key item (pl_lst l)\<rparr>"

text \<open>The loop of \<^verbatim>\<open>Put\<close> that finds the position of the new item.\<close>

function put_pos :: "('a \<Rightarrow> 'a \<Rightarrow> int option) \<Rightarrow> 'a \<Rightarrow> 'a list \<Rightarrow> nat \<Rightarrow> nat option" where
  "put_pos cmp item lst i =
    (if i < length lst then
       (case cmp item (lst ! i) of
          None \<Rightarrow> None
        | Some v \<Rightarrow> if 0 \<le> v then Some i else put_pos cmp item lst (i + 1))
     else Some i)"
  by auto
termination by (relation "measure (\<lambda>(_, _, lst, i). length lst - i)") auto

declare put_pos.simps [simp del]

definition drop_excess :: "('a \<Rightarrow> bytes) \<Rightarrow> 'a PriorityList \<Rightarrow> 'a PriorityList" where
  "drop_excess key l =
    (if pl_max l < length (pl_lst l)
     then l\<lparr>pl_keys := foldl (\<lambda>m todrop. AList.delete (key todrop) m) (pl_keys l) (drop (pl_max l) (pl_lst l)),
            pl_lst := take (pl_max l) (pl_lst l)\<rparr>
     else l)"

definition Put :: "('a \<Rightarrow> bytes) \<Rightarrow> ('a \<Rightarrow> 'a \<Rightarrow> int option) \<Rightarrow> 'a \<Rightarrow> 'a PriorityList \<Rightarrow> 'a PriorityList option" where
  "Put key cmp item l =
    (if map_of (pl_keys l) (key item) \<noteq> None then Some (replaceItem key item l)
     else case put_pos cmp item (pl_lst l) 0 of
       None \<Rightarrow> None
     | Some i \<Rightarrow>
         let l1 = drop_excess key (l\<lparr>pl_lst := take i (pl_lst l) @ [item] @ drop i (pl_lst l),
                                 pl_keys := AList.update (key item) item (pl_keys l)\<rparr>)
         in if length (pl_lst l1) \<noteq> length (pl_keys l1) then None else Some l1)"

definition Head :: "int \<Rightarrow> 'a PriorityList \<Rightarrow> 'a list" where
  "Head n l = (if n \<le> 0 then [] else if n < int (length (pl_lst l)) then take (nat n) (pl_lst l) else pl_lst l)"

definition First :: "'a PriorityList \<Rightarrow> 'a option" where
  "First l = (if 0 < length (pl_lst l) then Some (pl_lst l ! 0) else None)"

definition Last :: "'a PriorityList \<Rightarrow> 'a option" where
  "Last l = (if 0 < length (pl_lst l) then Some (pl_lst l ! (length (pl_lst l) - 1)) else None)"

fun find_key :: "('a \<Rightarrow> bytes) \<Rightarrow> bytes \<Rightarrow> 'a list \<Rightarrow> nat" where
  "find_key key k [] = 0"
| "find_key key k (x # xs) = (if key x = k then 0 else Suc (find_key key k xs))"

text \<open>\<^verbatim>\<open>this.lst[i+1:]\<close> panics when no item has the key.\<close>

definition Remove :: "('a \<Rightarrow> bytes) \<Rightarrow> 'a \<Rightarrow> 'a PriorityList \<Rightarrow> (bool \<times> 'a PriorityList) option" where
  "Remove key item l =
    (if map_of (pl_keys l) (key item) = None then Some (False, l)
     else let i = find_key key (key item) (pl_lst l) in
       if length (pl_lst l) < i + 1 then None
       else Some (True, l\<lparr>pl_lst := take i (pl_lst l) @ drop (i + 1) (pl_lst l),
                          pl_keys := AList.delete (key item) (pl_keys l)\<rparr>))"

definition Select :: "('a \<Rightarrow> bool) \<Rightarrow> 'a PriorityList \<Rightarrow> 'a list" where
  "Select f l = concat (map (\<lambda>item. if f item then [item] else []) (pl_lst l))"

text \<open>The second loop of \<^verbatim>\<open>SelectRandn\<close>: \<^verbatim>\<open>rnd m\<close> stands for the call \<^verbatim>\<open>rand.Intn(m)\<close> in that iteration.\<close>

fun replace_random :: "nat \<Rightarrow> (nat \<Rightarrow> nat) \<Rightarrow> nat \<Rightarrow> 'a list \<Rightarrow> 'a list \<Rightarrow> 'a list" where
  "replace_random k rnd x [] slts = slts"
| "replace_random k rnd x (item # items) slts =
    (let j = rnd (x + k) in replace_random k rnd (x + 1) items (if j < k then slts[j := item] else slts))"

definition SelectRandn :: "(nat \<Rightarrow> nat) \<Rightarrow> int \<Rightarrow> 'a PriorityList \<Rightarrow> 'a list" where
  "SelectRandn rnd k l =
    (if k \<le> 0 then []
     else let slts = take (nat k) (pl_lst l) in
       if length slts < nat k then slts else replace_random (nat k) rnd 0 (drop (nat k) (pl_lst l)) slts)"

definition GetByKey :: "bytes \<Rightarrow> 'a PriorityList \<Rightarrow> 'a option" where
  "GetByKey key l = map_of (pl_keys l) key"


section \<open>The invariant\<close>

text \<open>Within its bound, with every key once, and a map over exactly the keys of the list.\<close>

definition pl_inv :: "('a \<Rightarrow> bytes) \<Rightarrow> 'a PriorityList \<Rightarrow> bool" where
  "pl_inv key l \<longleftrightarrow>
    length (pl_lst l) \<le> pl_max l \<and> distinct (map key (pl_lst l)) \<and> distinct (map fst (pl_keys l)) \<and>
    set (map fst (pl_keys l)) = key ` set (pl_lst l) \<and> (\<forall>e \<in> set (pl_keys l). key (snd e) = fst e)"

lemma pl_inv_New [simp]: "pl_inv key (NewPriorityList m)"
  by (simp add: pl_inv_def NewPriorityList_def)

lemma pl_invD:
  assumes "pl_inv key l"
  shows "length (pl_lst l) \<le> pl_max l" "distinct (map key (pl_lst l))" "distinct (map fst (pl_keys l))"
    "fst ` set (pl_keys l) = key ` set (pl_lst l)" "\<And>e. e \<in> set (pl_keys l) \<Longrightarrow> key (snd e) = fst e"
  using assms by (auto simp: pl_inv_def)

lemma pl_inv_length: "pl_inv key l \<Longrightarrow> length (pl_keys l) = length (pl_lst l)"
proof -
  assume l: "pl_inv key l"
  have "length (pl_keys l) = card (set (map fst (pl_keys l)))"
    using distinct_card [of "map fst (pl_keys l)"] pl_invD(3) [OF l] by simp
  also have "\<dots> = card (set (map key (pl_lst l)))" using pl_invD(4) [OF l] by simp
  also have "\<dots> = length (pl_lst l)"
    using distinct_card [of "map key (pl_lst l)"] pl_invD(2) [OF l] by simp
  finally show ?thesis .
qed

lemma pl_inv_lookup: "pl_inv key l \<Longrightarrow> map_of (pl_keys l) k = None \<longleftrightarrow> k \<notin> key ` set (pl_lst l)"
  using pl_invD(4) [of key l] by (simp add: map_of_eq_None_iff)

lemma pl_inv_cong:
  assumes "pl_inv key l" "\<And>x. x \<in> set (pl_lst l) \<union> snd ` set (pl_keys l) \<Longrightarrow> key' x = key x"
  shows "pl_inv key' l"
proof -
  have e1: "map key' (pl_lst l) = map key (pl_lst l)" using assms(2) by simp
  have e2: "key' ` set (pl_lst l) = key ` set (pl_lst l)" using assms(2) by (intro image_cong) auto
  have e3: "key' (snd e) = fst e" if "e \<in> set (pl_keys l)" for e
    using that assms(2) [of "snd e"] pl_invD(5) [OF assms(1) that] by simp
  show ?thesis
    unfolding pl_inv_def list.set_map e1 e2
    using pl_invD(1-4) [OF assms(1)] e3 by simp
qed

section \<open>Replacing and removing\<close>

lemma replace_first_keys [simp]: "map key (replace_first key item xs) = map key xs"
  by (induction xs) auto

lemma replace_first_key_set [simp]: "key ` set (replace_first key item xs) = key ` set xs"
  using replace_first_keys [of key item xs] by (metis list.set_map)

lemma length_replace_first [simp]: "length (replace_first key item xs) = length xs"
  using replace_first_keys [of key item xs] by (metis length_map)

lemma set_replace_first: "set (replace_first key item xs) \<subseteq> insert item (set xs)"
  by (induction xs) auto

lemma in_replace_first: "key item \<in> key ` set xs \<Longrightarrow> item \<in> set (replace_first key item xs)"
  by (induction xs) auto

lemma replaceItem_inv: "pl_inv key l \<Longrightarrow> pl_inv key (replaceItem key item l)"
  by (simp add: pl_inv_def replaceItem_def)

lemma find_key_less: "k \<in> key ` set xs \<Longrightarrow> find_key key k xs < length xs \<and> key (xs ! find_key key k xs) = k"
  by (induction xs) auto

lemma drop_find_key:
  assumes "distinct (map key xs)" "k \<in> key ` set xs"
  shows "take (find_key key k xs) xs @ drop (Suc (find_key key k xs)) xs = filter (\<lambda>x. key x \<noteq> k) xs"
  using assms
proof (induction xs)
  case (Cons x xs)
  show ?case
  proof (cases "key x = k")
    case True
    have "k \<notin> key ` set xs" using Cons.prems(1) True by auto
    then have "filter (\<lambda>y. key y \<noteq> k) xs = xs" unfolding filter_id_conv by blast
    then show ?thesis using True by simp
  next
    case False
    have "distinct (map key xs)" "k \<in> key ` set xs" using Cons.prems False by auto
    then show ?thesis using Cons.IH False by simp
  qed
qed simp

lemma distinct_filter_keys: "distinct (map key xs) \<Longrightarrow> distinct (map key (filter P xs))"
  by (simp add: distinct_map inj_on_def)

lemma Remove_present:
  assumes "pl_inv key l" "key item \<in> key ` set (pl_lst l)"
  shows "Remove key item l = Some (True, l\<lparr>pl_lst := filter (\<lambda>x. key x \<noteq> key item) (pl_lst l),
           pl_keys := AList.delete (key item) (pl_keys l)\<rparr>)"
proof -
  have "map_of (pl_keys l) (key item) \<noteq> None" using pl_inv_lookup [OF assms(1)] assms(2) by simp
  moreover have "find_key key (key item) (pl_lst l) < length (pl_lst l)" using find_key_less [OF assms(2)] by simp
  ultimately show ?thesis
    using drop_find_key [OF pl_invD(2) [OF assms(1)] assms(2)] by (simp add: Remove_def Let_def)
qed

lemma Remove_absent:
  "pl_inv key l \<Longrightarrow> key item \<notin> key ` set (pl_lst l) \<Longrightarrow> Remove key item l = Some (False, l)"
  by (simp add: Remove_def pl_inv_lookup)

lemma delete_keys [simp]: "fst ` set (AList.delete k m) = fst ` set m - {k}"
  by (auto simp: AList.delete_eq)

lemma Remove_inv:
  assumes "pl_inv key l"
  shows "\<exists>b l1. Remove key item l = Some (b, l1) \<and> pl_inv key l1 \<and> set (pl_lst l1) \<subseteq> set (pl_lst l)"
proof (cases "key item \<in> key ` set (pl_lst l)")
  case True
  let ?l = "l\<lparr>pl_lst := filter (\<lambda>x. key x \<noteq> key item) (pl_lst l), pl_keys := AList.delete (key item) (pl_keys l)\<rparr>"
  have "length (filter (\<lambda>x. key x \<noteq> key item) (pl_lst l)) \<le> pl_max l"
    using pl_invD(1) [OF assms] length_filter_le [of "\<lambda>x. key x \<noteq> key item" "pl_lst l"] by linarith
  moreover have "set (map fst (AList.delete (key item) (pl_keys l))) = key ` set (filter (\<lambda>x. key x \<noteq> key item) (pl_lst l))"
    using pl_invD(4) [OF assms] by auto
  moreover have "\<forall>e \<in> set (AList.delete (key item) (pl_keys l)). key (snd e) = fst e"
    using pl_invD(5) [OF assms] by (simp add: AList.delete_eq)
  moreover note distinct_filter_keys [OF pl_invD(2) [OF assms], of "\<lambda>x. key x \<noteq> key item"]
    distinct_delete [OF pl_invD(3) [OF assms], of "key item"]
  ultimately have "pl_inv key ?l" unfolding pl_inv_def by simp
  then show ?thesis using Remove_present [OF assms True] by (intro exI [of _ True] exI [of _ ?l]) simp
next
  case False
  then show ?thesis using Remove_absent [OF assms False] assms by (intro exI [of _ False] exI [of _ l]) simp
qed


section \<open>Inserting\<close>

lemma put_pos_shift: "put_pos cmp item (x # xs) (Suc i) = map_option Suc (put_pos cmp item xs i)"
proof (induction "length xs - i" arbitrary: i rule: less_induct)
  case less
  show ?case
    using less [of "Suc i"]
    by (subst (1 2) put_pos.simps) (auto split: option.splits)
qed

lemma put_pos_Nil: "put_pos cmp item [] 0 = Some 0"
  by (simp add: put_pos.simps)

lemma put_pos_Cons: "put_pos cmp item (x # xs) 0 = (case cmp item x of
    None \<Rightarrow> None | Some v \<Rightarrow> if 0 \<le> v then Some 0 else map_option Suc (put_pos cmp item xs 0))"
  using put_pos_shift [of cmp item x xs 0] by (subst put_pos.simps) (simp split: option.splits)

lemma put_pos_total:
  "\<forall>x \<in> set xs. cmp item x \<noteq> None \<Longrightarrow> \<exists>i. put_pos cmp item xs 0 = Some i"
  by (induction xs) (auto simp: put_pos_Nil put_pos_Cons)

lemma put_pos_insort:
  assumes "\<forall>x \<in> set xs. \<exists>v. cmp item x = Some v \<and> (0 \<le> v \<longleftrightarrow> dist item \<le> dist x)"
  shows "\<exists>i. put_pos cmp item xs 0 = Some i \<and> take i xs @ [item] @ drop i xs = insort_key dist item xs"
  using assms by (induction xs) (auto simp: put_pos_Nil put_pos_Cons)

lemma foldl_delete_set:
  "set (foldl (\<lambda>m t. AList.delete (key t) m) m ts) = {e \<in> set m. fst e \<notin> key ` set ts}"
  by (induction ts arbitrary: m) (auto simp: AList.delete_eq)

lemma foldl_delete_distinct:
  "distinct (map fst m) \<Longrightarrow> distinct (map fst (foldl (\<lambda>m t. AList.delete (key t) m) m ts))"
  by (induction ts arbitrary: m) (auto simp: distinct_delete)

text \<open>The invariant without the bound, which is what the list satisfies before it is cut.\<close>

definition pl_pre :: "('a \<Rightarrow> bytes) \<Rightarrow> 'a PriorityList \<Rightarrow> bool" where
  "pl_pre key l \<longleftrightarrow>
    distinct (map key (pl_lst l)) \<and> distinct (map fst (pl_keys l)) \<and>
    fst ` set (pl_keys l) = key ` set (pl_lst l) \<and> (\<forall>e \<in> set (pl_keys l). key (snd e) = fst e)"

lemma drop_excess_inv:
  assumes "pl_pre key l"
  shows "pl_inv key (drop_excess key l)"
proof (cases "pl_max l < length (pl_lst l)")
  case True
  let ?m = "pl_max l" and ?xs = "pl_lst l"
  have "distinct (map key (take ?m ?xs) @ map key (drop ?m ?xs))"
    using assms by (metis append_take_drop_id map_append pl_pre_def)
  then have "key ` set (take ?m ?xs) \<inter> key ` set (drop ?m ?xs) = {}" "distinct (map key (take ?m ?xs))" by auto
  moreover have "key ` set ?xs = key ` set (take ?m ?xs) \<union> key ` set (drop ?m ?xs)"
    by (metis append_take_drop_id image_Un set_append)
  ultimately have "key ` set ?xs - key ` set (drop ?m ?xs) = key ` set (take ?m ?xs)" by auto
  moreover have "fst ` {e \<in> set (pl_keys l). fst e \<notin> key ` set (drop ?m ?xs)} = fst ` set (pl_keys l) - key ` set (drop ?m ?xs)"
    by auto
  ultimately show ?thesis
    using assms True \<open>distinct (map key (take ?m ?xs))\<close>
    by (simp add: pl_inv_def pl_pre_def drop_excess_def foldl_delete_set foldl_delete_distinct)
next
  case False
  then show ?thesis using assms by (simp add: drop_excess_def pl_inv_def pl_pre_def)
qed

lemma drop_excess_lst [simp]: "pl_lst (drop_excess key l) = take (pl_max l) (pl_lst l)"
  by (simp add: drop_excess_def)

lemma drop_excess_max [simp]: "pl_max (drop_excess key l) = pl_max l"
  by (simp add: drop_excess_def)

lemma update_fresh: "k \<notin> fst ` set m \<Longrightarrow> AList.update k v m = m @ [(k, v)]"
  by (induction m) auto

lemma Put_fresh:
  assumes "pl_inv key l" "key item \<notin> key ` set (pl_lst l)" "put_pos cmp item (pl_lst l) 0 = Some i"
  shows "\<exists>l1. Put key cmp item l = Some l1 \<and> pl_inv key l1 \<and> pl_max l1 = pl_max l \<and>
    pl_lst l1 = take (pl_max l) (take i (pl_lst l) @ [item] @ drop i (pl_lst l)) \<and>
    set (pl_keys l1) \<subseteq> insert (key item, item) (set (pl_keys l))"
proof -
  let ?l = "l\<lparr>pl_lst := take i (pl_lst l) @ [item] @ drop i (pl_lst l),
              pl_keys := AList.update (key item) item (pl_keys l)\<rparr>"
  have none: "map_of (pl_keys l) (key item) = None" using pl_inv_lookup [OF assms(1)] assms(2) by simp
  then have "key item \<notin> fst ` set (pl_keys l)" by (simp add: map_of_eq_None_iff)
  then have upd: "AList.update (key item) item (pl_keys l) = pl_keys l @ [(key item, item)]"
    by (rule update_fresh)
  have split: "map key (pl_lst l) = map key (take i (pl_lst l)) @ map key (drop i (pl_lst l))"
    "set (pl_lst l) = set (take i (pl_lst l)) \<union> set (drop i (pl_lst l))"
    by (metis append_take_drop_id map_append) (metis append_take_drop_id set_append)
  have "pl_pre key ?l"
    using assms(2) pl_invD [OF assms(1)] \<open>key item \<notin> fst ` set (pl_keys l)\<close>
    unfolding pl_pre_def upd split by auto
  then have inv: "pl_inv key (drop_excess key ?l)" by (rule drop_excess_inv)
  then have "length (pl_lst (drop_excess key ?l)) = length (pl_keys (drop_excess key ?l))"
    using pl_inv_length by metis
  then have "Put key cmp item l = Some (drop_excess key ?l)"
    unfolding Put_def Let_def using none assms(3) by simp
  moreover have "set (pl_keys (drop_excess key ?l)) \<subseteq> insert (key item, item) (set (pl_keys l))"
    by (auto simp: drop_excess_def upd foldl_delete_set)
  ultimately show ?thesis using inv by (intro exI [of _ "drop_excess key ?l"]) simp
qed


lemma Put_nonempty:
  assumes "pl_inv key l" "0 < pl_max l" "Put key cmp item l = Some l1"
  shows "pl_lst l1 \<noteq> []"
proof (cases "key item \<in> key ` set (pl_lst l)")
  case True
  then have "l1 = replaceItem key item l" using assms(3) pl_inv_lookup [OF assms(1), of "key item"] by (auto simp: Put_def)
  then have "length (pl_lst l1) = length (pl_lst l)" by (simp add: replaceItem_def)
  then show ?thesis using True by auto
next
  case False
  then have "put_pos cmp item (pl_lst l) 0 \<noteq> None"
    using assms(3) pl_inv_lookup [OF assms(1), of "key item"] by (auto simp: Put_def)
  then obtain i where i: "put_pos cmp item (pl_lst l) 0 = Some i" by blast
  show ?thesis using Put_fresh [OF assms(1) False i] assms(2,3) by auto
qed

section \<open>The contract of the items\<close>

text \<open>What an implementation of \<^verbatim>\<open>PLItem\<close> owes the list: the items that are put can be compared with
  those that are in it.\<close>

definition pl_all :: "('a \<Rightarrow> bool) \<Rightarrow> 'a PriorityList \<Rightarrow> bool" where
  "pl_all P l \<longleftrightarrow> (\<forall>x \<in> set (pl_lst l). P x) \<and> (\<forall>e \<in> set (pl_keys l). P (snd e))"

lemma pl_all_New [simp]: "pl_all P (NewPriorityList m)"
  by (simp add: pl_all_def NewPriorityList_def)

lemma pl_all_mono: "pl_all P l \<Longrightarrow> (\<And>x. P x \<Longrightarrow> Q x) \<Longrightarrow> pl_all Q l"
  by (simp add: pl_all_def)

lemma pl_all_lst: "pl_all P l \<Longrightarrow> x \<in> set (pl_lst l) \<Longrightarrow> P x"
  by (simp add: pl_all_def)

lemma pl_all_GetByKey: "pl_all P l \<Longrightarrow> GetByKey k l = Some x \<Longrightarrow> P x"
  by (force simp: pl_all_def GetByKey_def dest: map_of_SomeD)

lemma GetByKey_key: "pl_inv key l \<Longrightarrow> GetByKey k l = Some x \<Longrightarrow> key x = k"
  using pl_invD(5) [of key l "(k, x)"] by (auto simp: GetByKey_def dest: map_of_SomeD)

lemma GetByKey_None: "pl_inv key l \<Longrightarrow> GetByKey k l = None \<longleftrightarrow> k \<notin> key ` set (pl_lst l)"
  by (simp add: GetByKey_def pl_inv_lookup)

locale pl_items =
  fixes key :: "'a \<Rightarrow> bytes"
    and cmp :: "'a \<Rightarrow> 'a \<Rightarrow> int option"
    and fresh :: "'a \<Rightarrow> bool"
    and member :: "'a \<Rightarrow> bool"
  assumes fresh_member: "fresh a \<Longrightarrow> member a"
    and cmp_total: "fresh a \<Longrightarrow> member b \<Longrightarrow> cmp a b \<noteq> None"
begin

lemma Put_replaces:
  assumes "pl_inv key l" "key item \<in> key ` set (pl_lst l)"
  shows "Put key cmp item l = Some (replaceItem key item l)"
  using assms pl_inv_lookup [OF assms(1), of "key item"] by (auto simp: Put_def)

lemma Put_keeps:
  assumes l: "pl_inv key l" "pl_all member l" and "fresh item"
  shows "\<exists>l1. Put key cmp item l = Some l1 \<and> pl_inv key l1 \<and> pl_all member l1 \<and> pl_max l1 = pl_max l"
proof (cases "key item \<in> key ` set (pl_lst l)")
  case True
  have "pl_all member (replaceItem key item l)"
    using assms fresh_member set_replace_first [of key item "pl_lst l"]
    by (auto simp: pl_all_def replaceItem_def)
  then show ?thesis
    using Put_replaces [OF l(1) True] replaceItem_inv [OF l(1), of item] by (simp add: replaceItem_def)
next
  case False
  obtain i where i: "put_pos cmp item (pl_lst l) 0 = Some i"
    using put_pos_total [of "pl_lst l" cmp item] cmp_total assms pl_all_lst by metis
  from Put_fresh [OF l(1) False i] obtain l1 where l1: "Put key cmp item l = Some l1" "pl_inv key l1"
    "pl_max l1 = pl_max l" "pl_lst l1 = take (pl_max l) (take i (pl_lst l) @ [item] @ drop i (pl_lst l))"
    "set (pl_keys l1) \<subseteq> insert (key item, item) (set (pl_keys l))" by blast
  have "set (pl_lst l1) \<subseteq> insert item (set (pl_lst l))"
    unfolding l1(4) using set_take_subset set_drop_subset by (fastforce dest: in_set_takeD in_set_dropD)
  then have "pl_all member l1" using l1(5) l(2) fresh_member [OF assms(3)] by (fastforce simp: pl_all_def)
  then show ?thesis using l1 by blast
qed

end


section \<open>The closest items\<close>

lemma take_insort_take: "take n (insort d (take n xs)) = take n (insort d (xs :: nat list))"
proof (induction xs arbitrary: n)
  case (Cons x xs)
  show ?case using Cons by (cases n) (auto simp: take_Cons')
qed simp

lemma take_insort_above:
  "\<forall>x \<in> set (take n xs). x < d \<Longrightarrow> n \<le> length xs \<Longrightarrow> take n (insort d xs) = take n (xs :: nat list)"
proof (induction xs arbitrary: n)
  case (Cons x xs)
  then show ?case by (cases n) auto
qed simp

lemma map_insort_dist: "map f (insort_key f x xs) = insort (f x) (map f xs)"
  by (induction xs) auto

text \<open>Putting a number into the list of the \<^verbatim>\<open>n\<close> least of a set, when it is not there yet.\<close>

lemma take_insort_set:
  fixes S :: "nat set"
  assumes "finite S" "d \<notin> set (take n (sorted_list_of_set S))"
  shows "take n (insort d (take n (sorted_list_of_set S))) = take n (sorted_list_of_set (insert d S))"
proof (cases "d \<in> S")
  case False
  then show ?thesis using assms(1) by (simp add: take_insort_take sorted_list_of_set_insert)
next
  case True
  let ?xs = "sorted_list_of_set S"
  have "d \<in> set ?xs" using True assms(1) by simp
  then have d: "d \<in> set (drop n ?xs)" using assms(2) by (metis Un_iff append_take_drop_id set_append)
  then have n: "n \<le> length ?xs" by (metis drop_eq_Nil empty_iff empty_set nat_le_linear)
  have "sorted (take n ?xs @ drop n ?xs)" by simp
  then have "\<forall>x \<in> set (take n ?xs). x \<le> d" using d unfolding sorted_append by blast
  then have "\<forall>x \<in> set (take n ?xs). x < d" using assms(2) by (metis le_neq_implies_less)
  then have "take n (insort d ?xs) = take n ?xs" using n by (rule take_insort_above)
  then show ?thesis using True by (simp add: take_insort_take insert_absorb)
qed

text \<open>Items with a distance: \<^verbatim>\<open>Compare\<close> orders them by it and only one key has a given distance.\<close>

locale pl_order = pl_items key cmp fresh member
  for key :: "'a \<Rightarrow> bytes" and cmp :: "'a \<Rightarrow> 'a \<Rightarrow> int option" and fresh :: "'a \<Rightarrow> bool" and member :: "'a \<Rightarrow> bool" +
  fixes dist :: "'a \<Rightarrow> nat"
  assumes cmp_dist: "fresh a \<Longrightarrow> member b \<Longrightarrow> cmp a b = Some v \<Longrightarrow> key a \<noteq> key b \<Longrightarrow> 0 \<le> v \<longleftrightarrow> dist a \<le> dist b"
    and dist_key: "member a \<Longrightarrow> member b \<Longrightarrow> dist a = dist b \<longleftrightarrow> key a = key b"
begin

lemma replace_first_dist:
  assumes "\<forall>x \<in> set xs. member x" "member item"
  shows "map dist (replace_first key item xs) = map dist xs"
  using assms by (induction xs) (auto simp: dist_key)

lemma Put_insort:
  assumes "pl_inv key l" "pl_all member l" "fresh item" "key item \<notin> key ` set (pl_lst l)"
  shows "\<exists>l1. Put key cmp item l = Some l1 \<and> pl_lst l1 = take (pl_max l) (insort_key dist item (pl_lst l))"
proof -
  have "\<exists>v. cmp item x = Some v \<and> (0 \<le> v \<longleftrightarrow> dist item \<le> dist x)" if "x \<in> set (pl_lst l)" for x
  proof -
    have "member x" "key item \<noteq> key x" using assms(2,4) that by (auto simp: pl_all_def)
    then show ?thesis using cmp_total [OF assms(3)] cmp_dist [OF assms(3)] by blast
  qed
  then obtain i where "put_pos cmp item (pl_lst l) 0 = Some i"
    "take i (pl_lst l) @ [item] @ drop i (pl_lst l) = insort_key dist item (pl_lst l)"
    using put_pos_insort [of "pl_lst l" cmp item dist] by blast
  then show ?thesis using Put_fresh [OF assms(1,4)] by metis
qed

text \<open>The list of the closest of a set of distances, after a \<^verbatim>\<open>Put\<close>.\<close>

lemma Put_closest:
  assumes "pl_inv key l" "pl_all member l" "fresh item" "finite S"
    and "map dist (pl_lst l) = take (pl_max l) (sorted_list_of_set S)"
    and "Put key cmp item l = Some l1"
  shows "map dist (pl_lst l1) = take (pl_max l1) (sorted_list_of_set (insert (dist item) S))"
proof (cases "key item \<in> key ` set (pl_lst l)")
  case True
  have m: "\<forall>x \<in> set (pl_lst l). member x" using assms(2) by (simp add: pl_all_def)
  have "dist item \<in> set (map dist (pl_lst l))"
    using True m dist_key fresh_member [OF assms(3)] by force
  then have "dist item \<in> S" unfolding assms(5) using assms(4) by (auto dest: in_set_takeD)
  then show ?thesis
    using assms(5,6) replace_first_dist [OF m fresh_member [OF assms(3)]] Put_replaces [OF assms(1) True]
    by (auto simp: insert_absorb replaceItem_def)
next
  case False
  have "dist item \<notin> set (map dist (pl_lst l))"
    using False assms(2) dist_key fresh_member [OF assms(3)] by (force simp: pl_all_def)
  then have "dist item \<notin> set (take (pl_max l) (sorted_list_of_set S))" by (simp add: assms(5))
  moreover have "pl_lst l1 = take (pl_max l) (insort_key dist item (pl_lst l))"
    using Put_insort [OF assms(1-3) False] assms(6) by auto
  moreover have "pl_max l1 = pl_max l" using Put_keeps [OF assms(1-3)] assms(6) by auto
  ultimately show ?thesis
    using take_insort_set [OF assms(4)] assms(5) by (simp add: take_map [symmetric] map_insort_dist)
qed

end

section \<open>Random selection\<close>

lemma replace_random_sub:
  "distinct (slts @ items) \<Longrightarrow> length slts = k \<Longrightarrow>
   distinct (replace_random k rnd x items slts) \<and> set (replace_random k rnd x items slts) \<subseteq> set (slts @ items) \<and>
   length (replace_random k rnd x items slts) = k"
proof (induction items arbitrary: x slts)
  case (Cons item items)
  let ?s = "if rnd (x + k) < k then slts[rnd (x + k) := item] else slts"
  have sub: "set ?s \<subseteq> insert item (set slts)" by (auto dest: set_mp [OF set_update_subset_insert])
  have "distinct (?s @ items)"
    using Cons.prems(1) sub by (auto intro: distinct_list_update)
  moreover have "length ?s = k" using Cons.prems(2) by simp
  ultimately show ?case using Cons.IH [of ?s "x + 1"] sub by (auto simp: Let_def)
qed simp

lemma SelectRandn_sub:
  assumes "distinct (pl_lst l)"
  shows "distinct (SelectRandn rnd k l) \<and> set (SelectRandn rnd k l) \<subseteq> set (pl_lst l) \<and>
    length (SelectRandn rnd k l) = min (nat k) (length (pl_lst l))"
proof -
  have "distinct (take (nat k) (pl_lst l) @ drop (nat k) (pl_lst l))" using assms by simp
  then show ?thesis
    using assms replace_random_sub [of "take (nat k) (pl_lst l)" "drop (nat k) (pl_lst l)" "nat k" rnd 0]
    by (auto simp: SelectRandn_def Let_def dest: in_set_takeD)
qed

text \<open>\<^verbatim>\<open>rand.Intn\<close> is called with one less than a uniform choice needs: out of \<^verbatim>\<open>k + 1\<close> items the last one is
  always taken.\<close>

lemma SelectRandn_takes_last:
  assumes "0 < k" "length (pl_lst l) = Suc (nat k)" "\<And>m. 0 < m \<Longrightarrow> rnd m < m"
  shows "pl_lst l ! nat k \<in> set (SelectRandn rnd k l)"
proof -
  have "drop (nat k) (pl_lst l) = [pl_lst l ! nat k]" using assms(2) by (simp add: Cons_nth_drop_Suc [symmetric])
  moreover have "rnd (nat k) < nat k" using assms(1,3) by simp
  ultimately show ?thesis
    using assms(1,2) by (simp add: SelectRandn_def Let_def set_update_memI)
qed

end
