(* ===== verification/Dht.thy ===== *)
theory Dht
  imports Priority_List Mintox_Crypto "HOL-Library.Monad_Syntax"
begin

text \<open>
  The DHT node of \<^verbatim>\<open>mintox\<close>: \<^verbatim>\<open>dht.go\<close>, \<^verbatim>\<open>dht_private.go\<close>, \<^verbatim>\<open>ping.go\<close> and the dispatcher of \<^verbatim>\<open>network.go\<close>.
  The items of the priority lists are pointers, so the objects they point to live in a store (the fields
  \<^verbatim>\<open>dh_clients\<close>, \<^verbatim>\<open>dh_nodes\<close>, \<^verbatim>\<open>dh_friends\<close>) and a list holds a tag, the dynamic type of the item, with an
  index into it.  A panic (a failed type assertion, a slice out of range, a failed \<^verbatim>\<open>gopp.Assert\<close>) is None.
  Random values and the clock are arguments; the n-th packet sent uses \<^verbatim>\<open>rs n\<close>, its ping number and nonce.
  The positioned reads and writes of \<^verbatim>\<open>gopp\<close> buffers are a parameter.
\<close>

section \<open>Time, addresses, distances\<close>

text \<open>Times are in nanoseconds.  The conversion of a float to int drops the fraction.\<close>

definition seconds :: "int \<Rightarrow> int" where
  "seconds d = (if 0 \<le> d then d div 1000000000 else - ((- d) div 1000000000))"

definition IsTimeout4Time :: "int \<Rightarrow> int \<Rightarrow> int \<Rightarrow> bool" where
  "IsTimeout4Time newtime oldtime timeout \<longleftrightarrow> timeout < seconds (newtime - oldtime)"

record Addr =
  ad_tcp :: bool
  ad_IP :: bytes
  ad_Port :: int

text \<open>\<^verbatim>\<open>net.IP.To4\<close>: nil is the empty list.\<close>

definition v4InV6Prefix :: bytes where
  "v4InV6Prefix = replicate 10 0 @ [255, 255]"

definition To4 :: "bytes \<Rightarrow> bytes" where
  "To4 ip =
    (if length ip = 4 then ip
     else if length ip = 16 \<and> take 12 ip = v4InV6Prefix then drop 12 ip else [])"

text \<open>The text of an address starts with a bracket when its IP is printed with colons.\<close>

definition bracketed :: "Addr \<Rightarrow> bool" where
  "bracketed a \<longleftrightarrow> length (ad_IP a) = 16 \<and> take 12 (ad_IP a) \<noteq> v4InV6Prefix"

text \<open>The loop of \<^verbatim>\<open>IDClosest\<close> over the bytes of the three keys, which have 32 bytes each.\<close>

fun IDClosest :: "bytes \<Rightarrow> bytes \<Rightarrow> bytes \<Rightarrow> int" where
  "IDClosest (p # ps) (a # as) (b # bs) =
    (let distance1 = xor p a; distance2 = xor p b in
     if distance1 < distance2 then 0
     else if distance2 < distance1 then - 1
     else IDClosest ps as bs)"
| "IDClosest _ _ _ = 1"

definition IDDistance :: "bytes \<Rightarrow> bytes \<Rightarrow> bytes" where
  "IDDistance pk1 pk2 = map2 xor pk1 pk2"

section \<open>Objects\<close>

text \<open>A pointer to a key: the node's own key, which \<^verbatim>\<open>SetKeyPair\<close> overwrites in place, or another one.\<close>

datatype KeyPtr = SelfKey | KeyOf bytes

record ClientData =
  cd_Pubkey :: bytes
  cd_Addr :: Addr
  cd_Timestamp :: int
  cd_LastPinged :: int
  cd_RetAddr :: Addr
  cd_RetTimestamp :: int
  cd_cmppk :: KeyPtr

record NodeFormat =
  nf_Pubkey :: bytes
  nf_Addr :: Addr
  nf_cmppk :: KeyPtr

datatype PLItem = ClientP nat | NodeP nat | FriendP nat

record DHTFriend =
  df_Pubkey :: bytes
  df_ClientList :: "PLItem PriorityList"
  df_ToBootstrap :: "PLItem PriorityList"
  df_cmppk :: KeyPtr

record SharedKey =
  sk_Pubkey :: bytes
  sk_Shrkey :: bytes
  sk_TimesRequested :: u32

record DHT =
  dh_SelfPubkey :: bytes
  dh_SelfSeckey :: bytes
  dh_clients :: "ClientData list"
  dh_nodes :: "NodeFormat list"
  dh_friends :: "DHTFriend list"
  dh_CloseClientList :: "PLItem PriorityList"
  dh_CloseLastGetNodes :: int
  dh_CloseBootstrapTimes :: u32
  dh_FriendsList :: "PLItem PriorityList"
  dh_SharedKeysRecv :: "bytes \<rightharpoonup> SharedKey"
  dh_SharedKeysSent :: "bytes \<rightharpoonup> SharedKey"
  dh_ToBootstrap :: "PLItem PriorityList"
  dh_sent :: "(bytes \<times> Addr) list"

definition NewDHTFriend :: "bytes \<Rightarrow> DHTFriend" where
  "NewDHTFriend pubkey = \<lparr>df_Pubkey = pubkey, df_ClientList = NewPriorityList 8,
     df_ToBootstrap = NewPriorityList 4, df_cmppk = KeyOf pubkey\<rparr>"

definition NewDHT :: "bytes \<Rightarrow> bytes \<Rightarrow> DHT" where
  "NewDHT pk sk = \<lparr>dh_SelfPubkey = pk, dh_SelfSeckey = sk, dh_clients = [], dh_nodes = [], dh_friends = [],
     dh_CloseClientList = NewPriorityList 1024, dh_CloseLastGetNodes = 0, dh_CloseBootstrapTimes = 0,
     dh_FriendsList = NewPriorityList 2147483647, dh_SharedKeysRecv = Map.empty,
     dh_SharedKeysSent = Map.empty, dh_ToBootstrap = NewPriorityList 8, dh_sent = []\<rparr>"

definition SetKeyPair :: "bytes \<Rightarrow> bytes \<Rightarrow> DHT \<Rightarrow> DHT" where
  "SetKeyPair pk sk d = d\<lparr>dh_SelfPubkey := go_copy (dh_SelfPubkey d) pk, dh_SelfSeckey := go_copy (dh_SelfSeckey d) sk\<rparr>"

primrec deref :: "DHT \<Rightarrow> KeyPtr \<Rightarrow> bytes" where
  "deref d SelfKey = dh_SelfPubkey d"
| "deref d (KeyOf k) = k"

text \<open>The methods \<^verbatim>\<open>Key\<close> and \<^verbatim>\<open>Compare\<close> of the three types.\<close>

fun item_key :: "DHT \<Rightarrow> PLItem \<Rightarrow> bytes" where
  "item_key d (ClientP i) = cd_Pubkey (dh_clients d ! i)"
| "item_key d (NodeP i) = nf_Pubkey (dh_nodes d ! i)"
| "item_key d (FriendP i) = df_Pubkey (dh_friends d ! i)"

definition ClientData_Compare :: "DHT \<Rightarrow> int \<Rightarrow> ClientData \<Rightarrow> ClientData \<Rightarrow> int" where
  "ClientData_Compare d now this that =
    (let n = IDClosest (deref d (cd_cmppk this)) (cd_Pubkey this) (cd_Pubkey that) in
     if n = 1 \<and> now - cd_Timestamp that < now - cd_Timestamp this then - 1 else n)"

definition NodeFormat_Compare :: "DHT \<Rightarrow> NodeFormat \<Rightarrow> NodeFormat \<Rightarrow> int" where
  "NodeFormat_Compare d this that = IDClosest (deref d (nf_cmppk this)) (nf_Pubkey this) (nf_Pubkey that)"

fun item_cmp :: "int \<Rightarrow> DHT \<Rightarrow> PLItem \<Rightarrow> PLItem \<Rightarrow> int option" where
  "item_cmp now d (ClientP i) (ClientP j) = Some (ClientData_Compare d now (dh_clients d ! i) (dh_clients d ! j))"
| "item_cmp now d (NodeP i) (NodeP j) = Some (NodeFormat_Compare d (dh_nodes d ! i) (dh_nodes d ! j))"
| "item_cmp now d (FriendP i) _ = Some 1"
| "item_cmp now d _ _ = None"

text \<open>Type assertions.\<close>

fun as_client :: "PLItem \<Rightarrow> nat option" where
  "as_client (ClientP i) = Some i"
| "as_client _ = None"

fun as_node :: "PLItem \<Rightarrow> nat option" where
  "as_node (NodeP i) = Some i"
| "as_node _ = None"

fun as_friend :: "PLItem \<Rightarrow> nat option" where
  "as_friend (FriendP i) = Some i"
| "as_friend _ = None"

text \<open>\<^verbatim>\<open>EachSnap\<close> and \<^verbatim>\<open>EachInline\<close>: a callback run over the items.\<close>

primrec each :: "('a \<Rightarrow> 's \<Rightarrow> 's option) \<Rightarrow> 'a list \<Rightarrow> 's \<Rightarrow> 's option" where
  "each f [] s = Some s"
| "each f (x # xs) s = f x s \<bind> each f xs"

definition upd_client :: "nat \<Rightarrow> (ClientData \<Rightarrow> ClientData) \<Rightarrow> DHT \<Rightarrow> DHT" where
  "upd_client i f d = d\<lparr>dh_clients := (dh_clients d)[i := f (dh_clients d ! i)]\<rparr>"

definition upd_node :: "nat \<Rightarrow> (NodeFormat \<Rightarrow> NodeFormat) \<Rightarrow> DHT \<Rightarrow> DHT" where
  "upd_node i f d = d\<lparr>dh_nodes := (dh_nodes d)[i := f (dh_nodes d ! i)]\<rparr>"

definition upd_friend :: "nat \<Rightarrow> (DHTFriend \<Rightarrow> DHTFriend) \<Rightarrow> DHT \<Rightarrow> DHT" where
  "upd_friend i f d = d\<lparr>dh_friends := (dh_friends d)[i := f (dh_friends d ! i)]\<rparr>"

section \<open>Packets\<close>

definition GetSharedKey ::
  "nacl \<Rightarrow> bytes \<Rightarrow> (bytes \<rightharpoonup> SharedKey) \<Rightarrow> bytes \<Rightarrow> bytes \<times> (bytes \<rightharpoonup> SharedKey)" where
  "GetSharedKey nb seckey shrkeys pubkey = (case shrkeys pubkey of
      Some shrkeyo \<Rightarrow> (sk_Shrkey shrkeyo, shrkeys)
    | None \<Rightarrow>
        let shrkey = CBBeforeNm nb pubkey seckey in
        (shrkey, shrkeys(pubkey \<mapsto> \<lparr>sk_Pubkey = pubkey, sk_Shrkey = shrkey, sk_TimesRequested = 1\<rparr>)))"

definition GetSharedKeyRecv :: "nacl \<Rightarrow> bytes \<Rightarrow> DHT \<Rightarrow> bytes \<times> DHT" where
  "GetSharedKeyRecv nb pubkey d =
    (let (k, m) = GetSharedKey nb (dh_SelfSeckey d) (dh_SharedKeysRecv d) pubkey in (k, d\<lparr>dh_SharedKeysRecv := m\<rparr>))"

definition GetSharedKeySent :: "nacl \<Rightarrow> bytes \<Rightarrow> DHT \<Rightarrow> bytes \<times> DHT" where
  "GetSharedKeySent nb pubkey d =
    (let (k, m) = GetSharedKey nb (dh_SelfSeckey d) (dh_SharedKeysSent d) pubkey in (k, d\<lparr>dh_SharedKeysSent := m\<rparr>))"

text \<open>An error leaves the packet empty.\<close>

definition CreatePacket :: "nacl \<Rightarrow> bytes \<Rightarrow> bytes \<Rightarrow> byte \<Rightarrow> bytes \<Rightarrow> bytes \<Rightarrow> bytes option" where
  "CreatePacket nb pubkey shrkey ptype nonce plain = (case EncryptDataSymmetric nb shrkey nonce plain of
      Ok encrypted \<Rightarrow> Some (ptype # pubkey @ nonce @ encrypted)
    | Err e \<Rightarrow> Some []
    | Panic \<Rightarrow> None)"

text \<open>What a failed decryption leaves: the error is printed and the plain text is empty.\<close>

definition decrypt_or_empty :: "nacl \<Rightarrow> bytes \<Rightarrow> bytes \<Rightarrow> bytes \<Rightarrow> bytes option" where
  "decrypt_or_empty nb k n encrypted = (case DecryptDataSymmetric nb k n encrypted of
      Ok plain \<Rightarrow> Some plain
    | Err e \<Rightarrow> Some []
    | Panic \<Rightarrow> None)"

definition res_option :: "('e, 'a) res \<Rightarrow> 'a option" where
  "res_option r = (case r of Ok a \<Rightarrow> Some a | _ \<Rightarrow> None)"

definition Unpacket :: "nacl \<Rightarrow> bytes \<Rightarrow> DHT \<Rightarrow> (byte \<times> bytes \<times> bytes \<times> bytes \<times> DHT) option" where
  "Unpacket nb encpkt d =
    (if length encpkt < 57 then None
     else do {
       let ptype = hd encpkt;
       pubkey \<leftarrow> res_option (NewCryptoKey (take 32 (drop 1 encpkt)));
       nonce \<leftarrow> res_option (NewCBNonce (take 24 (drop 33 encpkt)));
       let (shrkey, d1) = GetSharedKeySent nb pubkey d;
       plain \<leftarrow> decrypt_or_empty nb shrkey nonce (drop 57 encpkt);
       Some (ptype, pubkey, nonce, plain, d1)
     })"

definition WriteTo :: "bytes \<Rightarrow> Addr \<Rightarrow> DHT \<Rightarrow> DHT" where
  "WriteTo pkt addr d = d\<lparr>dh_sent := dh_sent d @ [(pkt, addr)]\<rparr>"

type_synonym rsupply = "nat \<Rightarrow> u64 \<times> bytes"

definition GetNodes :: "nacl \<Rightarrow> rsupply \<Rightarrow> Addr \<Rightarrow> bytes \<Rightarrow> bytes \<Rightarrow> DHT \<Rightarrow> DHT option" where
  "GetNodes nb rs addr pubkey client_id d = do {
     let (pingid, nonce) = rs (length (dh_sent d));
     let plain = client_id @ put_u64 pingid;
     let (shrkey, d1) = GetSharedKeySent nb pubkey d;
     pkt \<leftarrow> CreatePacket nb (dh_SelfPubkey d1) shrkey 2 nonce plain;
     Some (WriteTo pkt addr d1)
   }"

definition Bootstrap :: "nacl \<Rightarrow> rsupply \<Rightarrow> Addr \<Rightarrow> bytes \<Rightarrow> DHT \<Rightarrow> DHT option" where
  "Bootstrap nb rs addr pubkey d = GetNodes nb rs addr pubkey (dh_SelfPubkey d) d"


section \<open>Nodes on the wire\<close>

text \<open>The buffers of \<^verbatim>\<open>gopp\<close>: the contents after data is written at an offset, the bytes a reader at an
  offset has before it (None is a panic), and a read of a number of bytes, with what is left.\<close>

record gopp =
  gp_WBufAt :: "bytes \<Rightarrow> nat \<Rightarrow> bytes \<Rightarrow> bytes"
  gp_RBufAt :: "bytes \<Rightarrow> int \<Rightarrow> bytes option"
  gp_Readn :: "bytes \<Rightarrow> nat \<Rightarrow> bytes \<times> bytes"

definition gopp_ok :: "gopp \<Rightarrow> bool" where
  "gopp_ok g \<longleftrightarrow>
    (\<forall>b n d. n + length d \<le> length b \<longrightarrow> gp_WBufAt g b n d = go_copy_at n b d) \<and>
    (\<forall>b n. n \<le> length b \<longrightarrow> gp_RBufAt g b (int n) = Some (drop n b)) \<and>
    (\<forall>b n. n \<le> length b \<longrightarrow> gp_Readn g b n = (take n b, drop n b))"

text \<open>The port is written at offset 5 whatever the length of the address.\<close>

definition pack_ip_port :: "gopp \<Rightarrow> Addr \<Rightarrow> bytes option" where
  "pack_ip_port g addr =
    (let is_ipv4 = \<not> bracketed addr;
         net_family = (if bracketed addr then 10 else 2) in
     if ad_tcp addr then None
     else
       let buf = net_family # (if is_ipv4 then To4 (ad_IP addr) else ad_IP addr) @ [0, 0]
       in Some (gp_WBufAt g buf 5 (put_u16 (of_int (ad_Port addr)))))"

text \<open>A read into an array of \<^verbatim>\<open>n\<close> zeros, and of a 16-bit number, from a \<^verbatim>\<open>bytes.Buffer\<close>.\<close>

definition buf_read :: "nat \<Rightarrow> bytes \<Rightarrow> bytes \<times> bytes" where
  "buf_read n buf = (go_copy (replicate n 0) buf, drop n buf)"

definition buf_u16 :: "bytes \<Rightarrow> u16 \<times> bytes" where
  "buf_u16 buf = (if length buf < 2 then (0, []) else (get_u16 buf, drop 2 buf))"

definition buf_byte :: "bytes \<Rightarrow> byte \<times> bytes" where
  "buf_byte buf = (case buf of [] \<Rightarrow> (0, []) | b # r \<Rightarrow> (b, r))"

text \<open>One node of a packet at an offset: its address, its key and the next offset.  The test for TCP
  compares \<^verbatim>\<open>byte0 & 128\<close> with 1.\<close>

definition read_node :: "gopp \<Rightarrow> bytes \<Rightarrow> nat \<Rightarrow> (Addr \<times> bytes \<times> nat) option" where
  "read_node g plain offset = do {
     tmpbuf \<leftarrow> gp_RBufAt g plain (int offset);
     let tmplen = length tmpbuf;
     let (byte0, b1) = buf_byte tmpbuf;
     let istcp = (and byte0 128 = 1);
     let isip6 = (and byte0 127 = 10);
     let (ipobj, b2) = buf_read (if isip6 then 16 else 4) b1;
     let (port, b3) = buf_u16 b2;
     let addro = \<lparr>ad_tcp = istcp, ad_IP = ipobj, ad_Port = uint port\<rparr>;
     let (nodekey0, b4) = gp_Readn g b3 32;
     nodekey \<leftarrow> res_option (NewCryptoKey nodekey0);
     Some (addro, nodekey, offset + (tmplen - length b4))
   }"

section \<open>Tables\<close>

definition friend_put :: "int \<Rightarrow> nat \<Rightarrow> nat \<Rightarrow> DHT \<Rightarrow> DHT option" where
  "friend_put now f n d = do {
     cl \<leftarrow> Put (item_key d) (item_cmp now d) (NodeP n) (df_ClientList (dh_friends d ! f));
     tb \<leftarrow> Put (item_key d) (item_cmp now d) (NodeP n) (df_ToBootstrap (dh_friends d ! f));
     Some (upd_friend f (\<lambda>fr. fr\<lparr>df_ClientList := cl, df_ToBootstrap := tb\<rparr>) d)
   }"

text \<open>\<^verbatim>\<open>&*n\<close> is \<^verbatim>\<open>n\<close>: the node that is already in other lists is changed.\<close>

definition AddNode :: "int \<Rightarrow> nat \<Rightarrow> nat \<Rightarrow> DHT \<Rightarrow> DHT option" where
  "AddNode now f n d =
    (let cmppk = df_cmppk (dh_friends d ! f) in
     if deref d (nf_cmppk (dh_nodes d ! n)) \<noteq> deref d cmppk
     then friend_put now f n (upd_node n (\<lambda>nf. nf\<lparr>nf_cmppk := cmppk\<rparr>) d)
     else friend_put now f n d)"

definition process_node :: "int \<Rightarrow> int \<Rightarrow> int \<Rightarrow> Addr \<Rightarrow> bytes \<Rightarrow> DHT \<Rightarrow> DHT option" where
  "process_node t1 t2 t3 addro nodekey d = do {
     let n = length (dh_nodes d);
     let d1 = d\<lparr>dh_nodes := dh_nodes d @ [\<lparr>nf_Pubkey = nodekey, nf_Addr = addro, nf_cmppk = SelfKey\<rparr>]\<rparr>;
     tb \<leftarrow> Put (item_key d1) (item_cmp t1 d1) (NodeP n) (dh_ToBootstrap d1);
     let d2 = d1\<lparr>dh_ToBootstrap := tb\<rparr>;
     let m = length (dh_clients d2);
     let d3 = d2\<lparr>dh_clients := dh_clients d2 @ [\<lparr>cd_Pubkey = nodekey, cd_Addr = addro, cd_Timestamp = t1,
       cd_LastPinged = t2, cd_RetAddr = addro, cd_RetTimestamp = t3, cd_cmppk = SelfKey\<rparr>]\<rparr>;
     cl \<leftarrow> Put (item_key d3) (item_cmp t3 d3) (ClientP m) (dh_CloseClientList d3);
     let d4 = d3\<lparr>dh_CloseClientList := cl\<rparr>;
     each (\<lambda>itemi d. do { f \<leftarrow> as_friend itemi; AddNode t3 f n d }) (pl_lst (dh_FriendsList d4)) d4
   }"

fun read_nodes :: "gopp \<Rightarrow> (nat \<Rightarrow> int \<times> int \<times> int) \<Rightarrow> bytes \<Rightarrow> nat \<Rightarrow> nat \<Rightarrow> nat \<Rightarrow> DHT \<Rightarrow> DHT option" where
  "read_nodes g clk plain i 0 offset d = Some d"
| "read_nodes g clk plain i (Suc k) offset d = do {
     (addro, nodekey, offset1) \<leftarrow> read_node g plain offset;
     let (t1, t2, t3) = clk i;
     d1 \<leftarrow> process_node t1 t2 t3 addro nodekey d;
     read_nodes g clk plain (i + 1) k offset1 d1
   }"

definition HandleSendNodesIpv6 ::
  "nacl \<Rightarrow> gopp \<Rightarrow> (nat \<Rightarrow> int \<times> int \<times> int) \<Rightarrow> bytes \<Rightarrow> DHT \<Rightarrow> DHT option" where
  "HandleSendNodesIpv6 nb g clk data d =
    (if length data < 57 then None
     else do {
       pubkey \<leftarrow> res_option (NewCryptoKey (take 32 (drop 1 data)));
       nonce \<leftarrow> res_option (NewCBNonce (take 24 (drop 33 data)));
       let (shrkey, d1) = GetSharedKeySent nb pubkey d;
       plain \<leftarrow> decrypt_or_empty nb shrkey nonce (drop 57 data);
       let numNodes = fst (buf_byte plain);
       pingid \<leftarrow> gp_RBufAt g plain (int (length plain) - 8);
       read_nodes g clk plain 0 (unat numNodes) 1 d1
     })"

definition get_close_nodes :: "int \<Rightarrow> (nat \<Rightarrow> nat) \<Rightarrow> DHT \<Rightarrow> (Addr \<times> bytes) list option" where
  "get_close_nodes now rnd d = do {
     let put = (\<lambda>itemi tmplst. do { c \<leftarrow> as_client itemi; Put (item_key d) (item_cmp now d) (ClientP c) tmplst });
     t1 \<leftarrow> each put (pl_lst (dh_CloseClientList d)) (NewPriorityList 1000);
     t2 \<leftarrow> each (\<lambda>itemi t. do { f \<leftarrow> as_friend itemi; each put (pl_lst (df_ClientList (dh_friends d ! f))) t })
             (pl_lst (dh_FriendsList d)) t1;
     each (\<lambda>itemx rets. do {
         c \<leftarrow> as_client itemx;
         Some (rets @ [(cd_Addr (dh_clients d ! c), cd_Pubkey (dh_clients d ! c))]) })
       (SelectRandn rnd 4 t2) []
   }"

definition sendnodes_ipv6 ::
  "nacl \<Rightarrow> gopp \<Rightarrow> rsupply \<Rightarrow> int \<Rightarrow> (nat \<Rightarrow> nat) \<Rightarrow> Addr \<Rightarrow> bytes \<Rightarrow> bytes \<Rightarrow> DHT \<Rightarrow> DHT option" where
  "sendnodes_ipv6 nb g rs now rnd addr sbdata shrkey d = do {
     nodes \<leftarrow> get_close_nodes now rnd d;
     if length nodes = 0 then Some d
     else do {
       buf \<leftarrow> each (\<lambda>(a, k) buf. do { p \<leftarrow> pack_ip_port g a; Some (buf @ p @ k) }) nodes [of_nat (length nodes)];
       pkt \<leftarrow> CreatePacket nb (dh_SelfPubkey d) shrkey 4 (snd (rs (length (dh_sent d)))) (buf @ sbdata);
       Some (WriteTo pkt addr d)
     }
   }"

text \<open>The slice of the plain text comes before the check of its length.\<close>

definition HandleGetNodes ::
  "nacl \<Rightarrow> gopp \<Rightarrow> rsupply \<Rightarrow> int \<Rightarrow> (nat \<Rightarrow> nat) \<Rightarrow> Addr \<Rightarrow> bytes \<Rightarrow> DHT \<Rightarrow> DHT option" where
  "HandleGetNodes nb g rs now rnd addr data d =
    (if length data < 57 then None
     else do {
       peerpk \<leftarrow> res_option (NewCryptoKey (take 32 (drop 1 data)));
       nonce \<leftarrow> res_option (NewCBNonce (take 24 (drop 33 data)));
       let (shrkey, d1) = GetSharedKeyRecv nb peerpk d;
       plnpkt \<leftarrow> decrypt_or_empty nb shrkey nonce (drop 57 data);
       if length plnpkt < 32 then None
       else if length plnpkt \<noteq> 40 then None
       else sendnodes_ipv6 nb g rs now rnd addr (drop 32 plnpkt) shrkey d1
     })"

text \<open>The callback of \<^verbatim>\<open>AddFriend\<close>.\<close>

definition sltfn :: "int \<Rightarrow> bytes \<Rightarrow> nat \<Rightarrow> PLItem \<Rightarrow> DHT \<Rightarrow> DHT option" where
  "sltfn now pubkey f itemi d = do {
     c \<leftarrow> as_client itemi;
     let item = dh_clients d ! c;
     if IsTimeout4Time now (cd_Timestamp item) 122 then Some d
     else do {
       let n = length (dh_nodes d);
       let d1 = d\<lparr>dh_nodes := dh_nodes d @ [\<lparr>nf_Pubkey = cd_Pubkey item, nf_Addr = cd_Addr item, nf_cmppk = KeyOf pubkey\<rparr>]\<rparr>;
       tb \<leftarrow> Put (item_key d1) (item_cmp now d1) (NodeP n) (df_ToBootstrap (dh_friends d1 ! f));
       Some (upd_friend f (\<lambda>fr. fr\<lparr>df_ToBootstrap := tb\<rparr>) d1)
     } }"

definition AddFriend :: "int \<Rightarrow> bytes \<Rightarrow> DHT \<Rightarrow> DHT option" where
  "AddFriend now pubkey d =
    (if GetByKey pubkey (dh_FriendsList d) \<noteq> None then Some d
     else do {
       let f = length (dh_friends d);
       let d1 = d\<lparr>dh_friends := dh_friends d @ [NewDHTFriend pubkey]\<rparr>;
       d2 \<leftarrow> each (sltfn now pubkey f) (pl_lst (dh_CloseClientList d1)) d1;
       d3 \<leftarrow> each (\<lambda>itemi d. do { g \<leftarrow> as_friend itemi; each (sltfn now pubkey f) (pl_lst (df_ClientList (dh_friends d ! g))) d })
               (pl_lst (dh_FriendsList d2)) d2;
       fl \<leftarrow> Put (item_key d3) (item_cmp now d3) (FriendP f) (dh_FriendsList d3);
       Some (d3\<lparr>dh_FriendsList := fl\<rparr>)
     })"

section \<open>Periodic work\<close>

definition getnodes_client :: "nacl \<Rightarrow> rsupply \<Rightarrow> bytes \<Rightarrow> nat \<Rightarrow> DHT \<Rightarrow> DHT option" where
  "getnodes_client nb rs client_id c d =
    GetNodes nb rs (cd_Addr (dh_clients d ! c)) (cd_Pubkey (dh_clients d ! c)) client_id d"

definition getnodes_node :: "nacl \<Rightarrow> rsupply \<Rightarrow> bytes \<Rightarrow> nat \<Rightarrow> DHT \<Rightarrow> DHT option" where
  "getnodes_node nb rs client_id n d =
    GetNodes nb rs (nf_Addr (dh_nodes d ! n)) (nf_Pubkey (dh_nodes d ! n)) client_id d"

text \<open>The parts of \<^verbatim>\<open>doClosest\<close>: a request to a random node of the bootstrap list, the nodes of the close
  list that need a request and the good ones, a request to one of the first, and one to a random good node.
  \<^verbatim>\<open>r1\<close> and \<^verbatim>\<open>r3\<close> are the numbers drawn with \<^verbatim>\<open>rand.Int\<close>, \<^verbatim>\<open>r2\<close> the one drawn below the number of nodes
  that need a request (or below 1).  The counters kept for the log are left out.\<close>

definition ask_bootstrap :: "nacl \<Rightarrow> rsupply \<Rightarrow> nat \<Rightarrow> DHT \<Rightarrow> DHT option" where
  "ask_bootstrap nb rs r1 d =
    (let items = Head (int (Len (dh_ToBootstrap d))) (dh_ToBootstrap d) in
     if 0 < length items
     then do { n \<leftarrow> as_node (items ! (r1 mod length items)); getnodes_node nb rs (dh_SelfPubkey d) n d }
     else Some d)"

definition scan_close :: "int \<Rightarrow> DHT \<Rightarrow> (nat list \<times> nat list) option" where
  "scan_close nowt d = each (\<lambda>itemi (need, good). do {
       c \<leftarrow> as_client itemi;
       let item = dh_clients d ! c;
       let alive = (\<not> IsTimeout4Time nowt (cd_LastPinged item) 182);
       Some (if alive \<and> IsTimeout4Time nowt (cd_LastPinged item) 60 then need @ [c] else need,
             if alive \<and> \<not> IsTimeout4Time nowt (cd_Timestamp item) 122 then good @ [c] else good) })
     (pl_lst (dh_CloseClientList d)) ([], [])"

definition ask_needy :: "nacl \<Rightarrow> rsupply \<Rightarrow> nat \<Rightarrow> int \<Rightarrow> nat list \<Rightarrow> DHT \<Rightarrow> DHT option" where
  "ask_needy nb rs r2 nowt need d =
    (if r2 < length need
     then getnodes_client nb rs (dh_SelfPubkey d) (need ! r2)
            (upd_client (need ! r2) (\<lambda>cd. cd\<lparr>cd_LastPinged := nowt\<rparr>) d)
     else Some d)"

definition ask_good :: "nacl \<Rightarrow> rsupply \<Rightarrow> nat \<Rightarrow> int \<Rightarrow> nat list \<Rightarrow> DHT \<Rightarrow> DHT option" where
  "ask_good nb rs r3 nowt good d =
    (if 0 < length good \<and> (IsTimeout4Time nowt (dh_CloseLastGetNodes d) 20 \<or> dh_CloseBootstrapTimes d < 5)
     then getnodes_client nb rs (dh_SelfPubkey d) (good ! (r3 mod length good))
            (d\<lparr>dh_CloseLastGetNodes := nowt, dh_CloseBootstrapTimes := dh_CloseBootstrapTimes d + 1\<rparr>)
     else Some d)"

definition doClosest :: "nacl \<Rightarrow> rsupply \<Rightarrow> nat \<Rightarrow> nat \<Rightarrow> nat \<Rightarrow> int \<Rightarrow> DHT \<Rightarrow> DHT option" where
  "doClosest nb rs r1 r2 r3 nowt d = do {
     d1 \<leftarrow> ask_bootstrap nb rs r1 d;
     (needGetNodes, goodNodes) \<leftarrow> scan_close nowt d1;
     d2 \<leftarrow> ask_needy nb rs r2 nowt needGetNodes d1;
     ask_good nb rs r3 nowt goodNodes d2
   }"

definition friend_turn :: "nacl \<Rightarrow> rsupply \<Rightarrow> (nat \<Rightarrow> nat) \<Rightarrow> PLItem \<Rightarrow> DHT \<Rightarrow> DHT option" where
  "friend_turn nb rs rnd itemi d = do {
     f \<leftarrow> as_friend itemi;
     let pk = df_Pubkey (dh_friends d ! f);
     let ask = (\<lambda>itemi d. do { n \<leftarrow> as_node itemi; getnodes_node nb rs pk n d });
     d1 \<leftarrow> each ask (pl_lst (df_ToBootstrap (dh_friends d ! f))) d;
     d2 \<leftarrow> each ask (pl_lst (df_ClientList (dh_friends d1 ! f))) d1;
     frndSeen \<leftarrow> each (\<lambda>itemi seen. do { n \<leftarrow> as_node itemi; Some (seen \<or> item_key d2 (NodeP n) = pk) })
       (pl_lst (df_ClientList (dh_friends d2 ! f))) False;
     each (\<lambda>itemi seen. map_option (\<lambda>_. seen) (as_node itemi)) (pl_lst (df_ToBootstrap (dh_friends d2 ! f))) ();
     each (\<lambda>itemi seen. map_option (\<lambda>_. seen) (as_client itemi)) (pl_lst (dh_CloseClientList d2)) ();
     if frndSeen then Some d2
     else each (\<lambda>itemi d. do { c \<leftarrow> as_client itemi; getnodes_client nb rs pk c d })
            (SelectRandn rnd 48 (dh_CloseClientList d2)) d2
   }"

definition doDHTFriends :: "nacl \<Rightarrow> rsupply \<Rightarrow> (nat \<Rightarrow> nat) \<Rightarrow> DHT \<Rightarrow> DHT option" where
  "doDHTFriends nb rs rnd d = each (friend_turn nb rs rnd) (pl_lst (dh_FriendsList d)) d"


section \<open>Pings\<close>

definition SendPingResponse :: "nacl \<Rightarrow> rsupply \<Rightarrow> Addr \<Rightarrow> bytes \<Rightarrow> u64 \<Rightarrow> bytes \<Rightarrow> DHT \<Rightarrow> DHT option" where
  "SendPingResponse nb rs source pubkey pingid shrkey d =
    (if pubkey = dh_SelfPubkey d then Some d
     else do {
       pkt \<leftarrow> CreatePacket nb (dh_SelfPubkey d) shrkey 1 (snd (rs (length (dh_sent d)))) (1 # put_u64 pingid);
       Some (WriteTo pkt source d)
     })"

text \<open>A plain text that is too short for a ping number leaves it zero; an empty one cannot be sliced.\<close>

definition HandlePingRequest :: "nacl \<Rightarrow> rsupply \<Rightarrow> Addr \<Rightarrow> bytes \<Rightarrow> DHT \<Rightarrow> DHT option" where
  "HandlePingRequest nb rs source packet d =
    (if length packet < 57 then None
     else do {
       pubkey \<leftarrow> res_option (NewCryptoKey (take 32 (drop 1 packet)));
       nonce \<leftarrow> res_option (NewCBNonce (take 24 (drop 33 packet)));
       let (shrkey, d1) = GetSharedKeyRecv nb pubkey d;
       plain \<leftarrow> decrypt_or_empty nb shrkey nonce (drop 57 packet);
       if length plain < 1 then None
       else SendPingResponse nb rs source pubkey
              (if length plain < 9 then 0 else get_u64 (drop 1 plain)) shrkey d1
     })"

definition SendPingRequest :: "nacl \<Rightarrow> rsupply \<Rightarrow> Addr \<Rightarrow> bytes \<Rightarrow> DHT \<Rightarrow> DHT option" where
  "SendPingRequest nb rs addr pubkey d =
    (if pubkey = dh_SelfPubkey d then Some d
     else do {
       let (pingid, nonce) = rs (length (dh_sent d));
       let (shrkey, d1) = GetSharedKeySent nb pubkey d;
       pkt \<leftarrow> CreatePacket nb (dh_SelfPubkey d1) shrkey 0 nonce (0 # put_u64 pingid);
       Some (WriteTo pkt addr d1)
     })"

section \<open>Distances\<close>

text \<open>The distance of a key as a number: \<^verbatim>\<open>IDClosest\<close> compares these numbers.\<close>

definition id_dist :: "bytes \<Rightarrow> bytes \<Rightarrow> nat" where
  "id_dist c k = be_nat (IDDistance c k)"

lemma IDDistance_Cons: "IDDistance (p # ps) (a # as) = xor p a # IDDistance ps as"
  by (simp add: IDDistance_def)

lemma length_IDDistance: "length (IDDistance c a) = min (length c) (length a)"
  by (simp add: IDDistance_def)

lemma xor_cancel: "xor p a = xor p b \<longleftrightarrow> a = (b :: byte)"
proof
  assume "xor p a = xor p b"
  then have "xor p (xor p a) = xor p (xor p b)" by simp
  then show "a = b" by (simp flip: xor.assoc)
qed simp

lemma IDDistance_inject:
  "length a = length c \<Longrightarrow> length b = length c \<Longrightarrow> IDDistance c a = IDDistance c b \<longleftrightarrow> a = b"
proof (induction c arbitrary: a b)
  case (Cons p ps)
  obtain x xs y ys where ab: "a = x # xs" "b = y # ys" using Cons.prems by (cases a; cases b) auto
  have "IDDistance ps xs = IDDistance ps ys \<longleftrightarrow> xs = ys" using Cons.IH [of xs ys] Cons.prems ab by simp
  then show ?case unfolding ab IDDistance_Cons list.inject xor_cancel by simp
qed simp

lemma id_dist_inject:
  assumes "length a = length c" "length b = length c"
  shows "id_dist c a = id_dist c b \<longleftrightarrow> a = b"
proof -
  have "id_dist c a = id_dist c b \<longleftrightarrow> IDDistance c a = IDDistance c b"
    unfolding id_dist_def using be_nat_inject [of "IDDistance c a" "IDDistance c b"] assms
    by (auto simp: length_IDDistance)
  then show ?thesis using IDDistance_inject [OF assms] by simp
qed

lemma be_nat_less_head:
  assumes "length xs = length ys" "unat x < unat y"
  shows "be_nat (x # xs) < be_nat (y # ys)"
proof -
  have "be_nat (x # xs) < (unat x + 1) * 256 ^ length xs"
    using be_nat_less [of xs] by (simp add: be_nat_Cons algebra_simps)
  also have "\<dots> \<le> unat y * 256 ^ length ys" using assms by (intro mult_le_mono) auto
  also have "\<dots> \<le> be_nat (y # ys)" by (simp add: be_nat_Cons)
  finally show ?thesis .
qed

lemma IDClosest_dist:
  "length a = length c \<Longrightarrow> length b = length c \<Longrightarrow>
   IDClosest c a b = (if id_dist c a < id_dist c b then 0 else if id_dist c b < id_dist c a then - 1 else 1)"
proof (induction c arbitrary: a b)
  case (Cons p ps)
  obtain x xs y ys where ab: "a = x # xs" "b = y # ys" "length xs = length ps" "length ys = length ps"
    using Cons.prems by (cases a; cases b) auto
  have len: "length (IDDistance ps xs) = length (IDDistance ps ys)" using ab by (simp add: length_IDDistance)
  consider "xor p x < xor p y" | "xor p y < xor p x" | "x = y"
    using xor_cancel [of p x y] by (metis linorder_less_linear)
  then show ?case
  proof cases
    case 1
    then show ?thesis
      using be_nat_less_head [OF len] unfolding ab by (simp add: id_dist_def IDDistance_Cons word_less_nat_alt)
  next
    case 2
    then have "id_dist (p # ps) b < id_dist (p # ps) a"
      using be_nat_less_head [OF len [symmetric]] unfolding ab
      by (simp add: id_dist_def IDDistance_Cons word_less_nat_alt)
    then show ?thesis using 2 unfolding ab by (simp add: Let_def)
  next
    case 3
    then show ?thesis
      using Cons.IH [OF ab(3,4)] len unfolding ab by (simp add: id_dist_def IDDistance_Cons be_nat_Cons)
  qed
qed (simp add: id_dist_def IDDistance_def)

end
