(* ===== verification/Dht_Tables.thy ===== *)
theory Dht_Tables
  imports Dht
begin

text \<open>
  The tables of the DHT node: every list holds items of one dynamic type that are in the store, under their
  keys, within its bound, and the close list is the list of the 1024 keys closest to the node's own among
  all it was ever told.  Every operation keeps this; the type assertions that can fail are named.
\<close>

section \<open>Items in the store\<close>

datatype kind = Client | Node | Friend

fun valid :: "DHT \<Rightarrow> kind \<Rightarrow> PLItem \<Rightarrow> bool" where
  "valid d Client (ClientP i) \<longleftrightarrow> i < length (dh_clients d)"
| "valid d Node (NodeP i) \<longleftrightarrow> i < length (dh_nodes d)"
| "valid d Friend (FriendP i) \<longleftrightarrow> i < length (dh_friends d)"
| "valid d _ _ \<longleftrightarrow> False"

lemma valid_cases:
  assumes "valid d k x"
  obtains i where "k = Client" "x = ClientP i" "i < length (dh_clients d)"
  | i where "k = Node" "x = NodeP i" "i < length (dh_nodes d)"
  | i where "k = Friend" "x = FriendP i" "i < length (dh_friends d)"
  using assms by (cases k; cases x) auto

text \<open>A later store: the keys of the objects have not changed and objects may have been added.\<close>

definition ext :: "DHT \<Rightarrow> DHT \<Rightarrow> bool" where
  "ext d e \<longleftrightarrow> dh_SelfPubkey e = dh_SelfPubkey d \<and>
    prefix (map cd_Pubkey (dh_clients d)) (map cd_Pubkey (dh_clients e)) \<and>
    prefix (map nf_Pubkey (dh_nodes d)) (map nf_Pubkey (dh_nodes e)) \<and>
    prefix (map df_Pubkey (dh_friends d)) (map df_Pubkey (dh_friends e))"

lemma ext_refl [simp]: "ext d d"
  by (simp add: ext_def)

lemma ext_trans: "ext d e \<Longrightarrow> ext e f \<Longrightarrow> ext d f"
  using prefix_order.trans unfolding ext_def by (metis (no_types))

lemma prefix_map_nth: "prefix (map f xs) (map g ys) \<Longrightarrow> i < length xs \<Longrightarrow> i < length ys \<and> g (ys ! i) = f (xs ! i)"
proof -
  assume p: "prefix (map f xs) (map g ys)" and i: "i < length xs"
  have "i < length ys" using prefix_length_le [OF p] i by simp
  moreover have "map g ys ! i = map f xs ! i" using p i by (auto simp: prefix_def nth_append)
  ultimately show ?thesis using i by simp
qed

lemma ext_valid:
  assumes "ext d e" "valid d k x"
  shows "valid e k x" "item_key e x = item_key d x"
  using assms(2)
  by (cases rule: valid_cases; use assms(1) in \<open>auto simp: ext_def dest: prefix_map_nth\<close>)+

definition plist :: "DHT \<Rightarrow> kind \<Rightarrow> nat \<Rightarrow> PLItem PriorityList \<Rightarrow> bool" where
  "plist d k m l \<longleftrightarrow> pl_inv (item_key d) l \<and> pl_all (valid d k) l \<and> pl_max l = m"

lemma plist_New [simp]: "plist d k m (NewPriorityList m)"
  by (simp add: plist_def) (simp add: NewPriorityList_def)

lemma plist_ext:
  assumes "plist d k m l" "ext d e"
  shows "plist e k m l"
proof -
  have v: "valid d k x" if "x \<in> set (pl_lst l) \<union> snd ` set (pl_keys l)" for x
    using assms(1) that unfolding plist_def pl_all_def by blast
  then have "pl_all (valid e k) l" using ext_valid(1) [OF assms(2)] unfolding pl_all_def by blast
  moreover have "pl_inv (item_key e) l"
  proof (rule pl_inv_cong)
    show "pl_inv (item_key d) l" using assms(1) by (simp add: plist_def)
    show "item_key e x = item_key d x" if "x \<in> set (pl_lst l) \<union> snd ` set (pl_keys l)" for x
      using ext_valid(2) [OF assms(2) v [OF that]] .
  qed
  ultimately show ?thesis using assms(1) by (simp add: plist_def)
qed

lemma plistD: "plist d k m l \<Longrightarrow> x \<in> set (pl_lst l) \<Longrightarrow> valid d k x"
  by (simp add: plist_def pl_all_def)

section \<open>The items as implementations of the interface\<close>

interpretation node_items: pl_items "item_key d" "item_cmp now d" "valid d Node" "valid d Node" for d now
  by unfold_locales (auto elim!: valid_cases)

interpretation friend_items: pl_items "item_key d" "item_cmp now d" "valid d Friend" "valid d Friend" for d now
  by unfold_locales (auto elim!: valid_cases)

text \<open>A client compares by its distance to the node's own key, since no other item has its key when the
  time stamps would count.\<close>

definition client_item :: "DHT \<Rightarrow> PLItem \<Rightarrow> bool" where
  "client_item d x \<longleftrightarrow> length (dh_SelfPubkey d) = 32 \<and> (case x of
     ClientP i \<Rightarrow> i < length (dh_clients d) \<and> length (cd_Pubkey (dh_clients d ! i)) = 32 \<and>
                  cd_cmppk (dh_clients d ! i) = SelfKey
   | _ \<Rightarrow> False)"

definition item_dist :: "DHT \<Rightarrow> PLItem \<Rightarrow> nat" where
  "item_dist d x = id_dist (dh_SelfPubkey d) (item_key d x)"

lemma client_itemE:
  assumes "client_item d x"
  obtains i where "x = ClientP i" "i < length (dh_clients d)" "length (dh_SelfPubkey d) = 32"
    "length (cd_Pubkey (dh_clients d ! i)) = 32" "cd_cmppk (dh_clients d ! i) = SelfKey"
  using assms by (cases x) (auto simp: client_item_def)

interpretation client_items: pl_order "item_key d" "item_cmp now d" "client_item d" "client_item d" "item_dist d"
  for d now
proof unfold_locales
  fix a b v
  show "client_item d a \<Longrightarrow> client_item d b \<Longrightarrow> item_cmp now d a b \<noteq> None" by (auto elim!: client_itemE)
  show "client_item d a \<Longrightarrow> client_item d b \<Longrightarrow> item_dist d a = item_dist d b \<longleftrightarrow> item_key d a = item_key d b"
    by (auto elim!: client_itemE simp: item_dist_def id_dist_inject)
  assume "client_item d a" "client_item d b" "item_cmp now d a b = Some v" "item_key d a \<noteq> item_key d b"
  then obtain i j where ij: "a = ClientP i" "b = ClientP j" "length (dh_SelfPubkey d) = 32"
    "length (cd_Pubkey (dh_clients d ! i)) = 32" "length (cd_Pubkey (dh_clients d ! j)) = 32"
    "cd_cmppk (dh_clients d ! i) = SelfKey" "ClientData_Compare d now (dh_clients d ! i) (dh_clients d ! j) = v"
    "cd_Pubkey (dh_clients d ! i) \<noteq> cd_Pubkey (dh_clients d ! j)"
    by (elim client_itemE) simp
  have neq: "item_dist d a \<noteq> item_dist d b"
    unfolding item_dist_def ij(1,2) item_key.simps using ij(3-5,8) id_dist_inject by metis
  have "IDClosest (dh_SelfPubkey d) (cd_Pubkey (dh_clients d ! i)) (cd_Pubkey (dh_clients d ! j)) =
    (if item_dist d a < item_dist d b then 0 else - 1)"
    using IDClosest_dist [of "cd_Pubkey (dh_clients d ! i)" "dh_SelfPubkey d"] ij(3-5) neq
    unfolding item_dist_def ij(1,2) item_key.simps by simp
  then have "v = (if item_dist d a < item_dist d b then 0 else - 1)"
    unfolding ij(7) [symmetric] ClientData_Compare_def ij(6) deref.simps Let_def by simp
  then show "0 \<le> v \<longleftrightarrow> item_dist d a \<le> item_dist d b" using neq by simp
qed


section \<open>The invariant\<close>

definition key_ok :: "KeyPtr \<Rightarrow> bool" where
  "key_ok p \<longleftrightarrow> (case p of SelfKey \<Rightarrow> True | KeyOf k \<Rightarrow> length k = 32)"

definition objs_ok :: "DHT \<Rightarrow> bool" where
  "objs_ok d \<longleftrightarrow> length (dh_SelfPubkey d) = 32 \<and>
    (\<forall>c \<in> set (dh_clients d). length (cd_Pubkey c) = 32 \<and> cd_cmppk c = SelfKey) \<and>
    (\<forall>n \<in> set (dh_nodes d). length (nf_Pubkey n) = 32 \<and> key_ok (nf_cmppk n)) \<and>
    (\<forall>f \<in> set (dh_friends d). length (df_Pubkey f) = 32 \<and> df_cmppk f = KeyOf (df_Pubkey f))"

definition friend_ok :: "DHT \<Rightarrow> DHTFriend \<Rightarrow> bool" where
  "friend_ok d f \<longleftrightarrow> plist d Node 8 (df_ClientList f) \<and> plist d Node 4 (df_ToBootstrap f)"

definition lists_ok :: "DHT \<Rightarrow> bool" where
  "lists_ok d \<longleftrightarrow> plist d Client 1024 (dh_CloseClientList d) \<and> plist d Node 8 (dh_ToBootstrap d) \<and>
    plist d Friend 2147483647 (dh_FriendsList d) \<and> (\<forall>f \<in> set (dh_friends d). friend_ok d f)"

text \<open>All distances the node was told, and the close list as the least 1024 of them.\<close>

definition told :: "DHT \<Rightarrow> nat set" where
  "told d = id_dist (dh_SelfPubkey d) ` cd_Pubkey ` set (dh_clients d)"

definition closest :: "DHT \<Rightarrow> bool" where
  "closest d \<longleftrightarrow> map (item_dist d) (pl_lst (dh_CloseClientList d)) = take 1024 (sorted_list_of_set (told d))"

definition dht_ok :: "DHT \<Rightarrow> bool" where
  "dht_ok d \<longleftrightarrow> objs_ok d \<and> lists_ok d \<and> closest d"

lemma dht_okI: "objs_ok d \<Longrightarrow> lists_ok d \<Longrightarrow> closest d \<Longrightarrow> dht_ok d"
  by (simp add: dht_ok_def)

lemma dht_okD: "dht_ok d \<Longrightarrow> objs_ok d" "dht_ok d \<Longrightarrow> lists_ok d" "dht_ok d \<Longrightarrow> closest d"
  by (simp_all add: dht_ok_def)

lemma NewDHT_ok: "length pk = 32 \<Longrightarrow> dht_ok (NewDHT pk sk)"
  by (simp add: dht_ok_def objs_ok_def lists_ok_def closest_def told_def NewDHT_def)
     (simp add: NewPriorityList_def)

text \<open>What the invariant reads.\<close>

definition tables ::
  "DHT \<Rightarrow> bytes \<times> ClientData list \<times> NodeFormat list \<times> DHTFriend list \<times> PLItem PriorityList \<times> PLItem PriorityList \<times> PLItem PriorityList" where
  "tables d = (dh_SelfPubkey d, dh_clients d, dh_nodes d, dh_friends d, dh_CloseClientList d,
     dh_ToBootstrap d, dh_FriendsList d)"

lemma tables_item:
  assumes "tables d = tables e"
  shows "item_key d = item_key e" "valid d = valid e" "item_dist d = item_dist e"
proof -
  show k: "item_key d = item_key e"
  proof
    show "item_key d x = item_key e x" for x using assms by (cases x) (simp_all add: tables_def)
  qed
  show "valid d = valid e"
  proof (intro ext)
    show "valid d k x = valid e k x" for k x using assms by (cases k; cases x) (simp_all add: tables_def)
  qed
  show "item_dist d = item_dist e"
    using assms k by (intro ext) (simp add: item_dist_def tables_def)
qed

lemma tables_plist: "tables d = tables e \<Longrightarrow> plist d = plist e"
  using tables_item [of d e] by (intro ext) (simp add: plist_def)

lemma tables_ok:
  assumes "tables d = tables e"
  shows "dht_ok d \<longleftrightarrow> dht_ok e"
  using assms tables_item [OF assms] tables_plist [OF assms]
  by (simp add: dht_ok_def objs_ok_def lists_ok_def friend_ok_def closest_def told_def tables_def)

lemma tables_ext: "tables d = tables e \<Longrightarrow> ext d e"
  by (simp add: ext_def tables_def)

lemma lists_ok_ext:
  assumes "lists_ok d" "ext d e" "dh_CloseClientList e = dh_CloseClientList d" "dh_ToBootstrap e = dh_ToBootstrap d"
    "dh_FriendsList e = dh_FriendsList d" "\<And>f. f \<in> set (dh_friends e) \<Longrightarrow> f \<in> set (dh_friends d) \<or> friend_ok e f"
  shows "lists_ok e"
  using assms plist_ext [OF _ assms(2)] unfolding lists_ok_def friend_ok_def by metis

lemma closest_ext:
  assumes "lists_ok d" "closest d" "ext d e" "dh_CloseClientList e = dh_CloseClientList d" "told e = told d"
  shows "closest e"
proof -
  have "item_dist e x = item_dist d x" if "x \<in> set (pl_lst (dh_CloseClientList d))" for x
    using that assms(1) ext_valid(2) [OF assms(3)] plistD assms(3)
    unfolding lists_ok_def item_dist_def ext_def by metis
  then have m: "map (item_dist e) (pl_lst (dh_CloseClientList d)) = map (item_dist d) (pl_lst (dh_CloseClientList d))"
    by simp
  show ?thesis using assms(2) unfolding closest_def assms(4,5) m .
qed

section \<open>Operations on the store\<close>

lemma each_safe:
  assumes "\<And>x s. x \<in> set xs \<Longrightarrow> I s \<Longrightarrow> \<exists>t. f x s = Some t \<and> I t" "I s"
  shows "\<exists>t. each f xs s = Some t \<and> I t"
  using assms
proof (induction xs arbitrary: s)
  case (Cons x xs)
  obtain t where "f x s = Some t" "I t" using Cons.prems by (meson list.set_intros(1))
  moreover have "\<exists>u. each f xs t = Some u \<and> I u" using Cons.IH Cons.prems(1) \<open>I t\<close> by (meson list.set_intros(2))
  ultimately show ?case by simp
qed simp

lemma each_append: "each f (xs @ ys) s = each f xs s \<bind> each f ys"
  by (induction xs arbitrary: s) (auto split: Option.bind_split)

text \<open>A step that keeps the invariant and the keys of the store.\<close>

definition good :: "DHT \<Rightarrow> DHT \<Rightarrow> bool" where
  "good d e \<longleftrightarrow> dht_ok e \<and> ext d e"

lemma good_refl: "dht_ok d \<Longrightarrow> good d d"
  by (simp add: good_def)

lemma good_trans: "good d e \<Longrightarrow> good e f \<Longrightarrow> good d f"
  using ext_trans by (auto simp: good_def)

lemma good_tables: "dht_ok d \<Longrightarrow> tables e = tables d \<Longrightarrow> good d e"
  using tables_ok [of e d] tables_ext [of d e] by (simp add: good_def)


text \<open>A new node, a changed node and a changed time stamp.\<close>

lemma add_node_good:
  assumes "dht_ok d" "length (nf_Pubkey nf) = 32" "key_ok (nf_cmppk nf)"
  shows "good d (d\<lparr>dh_nodes := dh_nodes d @ [nf]\<rparr>)"
proof -
  let ?e = "d\<lparr>dh_nodes := dh_nodes d @ [nf]\<rparr>"
  have x: "ext d ?e" by (simp add: ext_def)
  have "objs_ok ?e" using assms by (auto simp: dht_ok_def objs_ok_def)
  moreover have "lists_ok ?e" by (rule lists_ok_ext [OF dht_okD(2) [OF assms(1)] x]) simp_all
  moreover have "closest ?e"
    by (rule closest_ext [OF dht_okD(2,3) [OF assms(1)] x]) (simp_all add: told_def)
  ultimately show ?thesis using x by (simp add: good_def dht_ok_def)
qed

lemma upd_node_good:
  assumes "dht_ok d" "n < length (dh_nodes d)" "key_ok p"
  shows "good d (upd_node n (\<lambda>nf. nf\<lparr>nf_cmppk := p\<rparr>) d)"
proof -
  let ?e = "upd_node n (\<lambda>nf. nf\<lparr>nf_cmppk := p\<rparr>) d"
  have k: "map nf_Pubkey (dh_nodes ?e) = map nf_Pubkey (dh_nodes d)"
    using assms(2) by (simp add: upd_node_def map_update list_update_same_conv)
  then have x: "ext d ?e" by (simp add: ext_def upd_node_def)
  have sub: "set (dh_nodes ?e) \<subseteq> insert ((dh_nodes d ! n)\<lparr>nf_cmppk := p\<rparr>) (set (dh_nodes d))"
    by (simp add: upd_node_def set_update_subset_insert)
  have "length (nf_Pubkey (dh_nodes d ! n)) = 32"
    using assms(1,2) nth_mem [OF assms(2)] unfolding dht_ok_def objs_ok_def by blast
  then have "objs_ok ?e"
    using assms(1,3) sub unfolding dht_ok_def objs_ok_def by (fastforce simp: upd_node_def)
  moreover have "lists_ok ?e" by (rule lists_ok_ext [OF dht_okD(2) [OF assms(1)] x]) (simp_all add: upd_node_def)
  moreover have "closest ?e"
    by (rule closest_ext [OF dht_okD(2,3) [OF assms(1)] x]) (simp_all add: told_def upd_node_def)
  ultimately show ?thesis using x by (simp add: good_def dht_ok_def)
qed

lemma upd_client_good:
  assumes "dht_ok d" "c < length (dh_clients d)"
  shows "good d (upd_client c (\<lambda>cd. cd\<lparr>cd_LastPinged := t\<rparr>) d)"
proof -
  let ?e = "upd_client c (\<lambda>cd. cd\<lparr>cd_LastPinged := t\<rparr>) d"
  have k: "map cd_Pubkey (dh_clients ?e) = map cd_Pubkey (dh_clients d)"
    using assms(2) by (simp add: upd_client_def map_update list_update_same_conv)
  then have x: "ext d ?e" by (simp add: ext_def upd_client_def)
  have sub: "set (dh_clients ?e) \<subseteq> insert ((dh_clients d ! c)\<lparr>cd_LastPinged := t\<rparr>) (set (dh_clients d))"
    by (simp add: upd_client_def set_update_subset_insert)
  have "length (cd_Pubkey (dh_clients d ! c)) = 32 \<and> cd_cmppk (dh_clients d ! c) = SelfKey"
    using assms(1,2) nth_mem [OF assms(2)] unfolding dht_ok_def objs_ok_def by blast
  then have "objs_ok ?e" using assms(1) sub unfolding dht_ok_def objs_ok_def by (fastforce simp: upd_client_def)
  moreover have "lists_ok ?e" by (rule lists_ok_ext [OF dht_okD(2) [OF assms(1)] x]) (simp_all add: upd_client_def)
  moreover have "told ?e = told d"
    using arg_cong [OF k, of set] by (simp add: told_def) (simp add: upd_client_def)
  then have "closest ?e"
    by (intro closest_ext [OF dht_okD(2,3) [OF assms(1)] x]) (simp_all add: upd_client_def)
  ultimately show ?thesis using x by (simp add: good_def dht_ok_def)
qed

text \<open>New contents for the list of nodes to ask, and for the lists of a friend.\<close>

lemma set_bootstrap_good:
  assumes "dht_ok d" "plist d Node 8 tb"
  shows "good d (d\<lparr>dh_ToBootstrap := tb\<rparr>)"
proof -
  let ?e = "d\<lparr>dh_ToBootstrap := tb\<rparr>"
  have x: "ext d ?e" by (simp add: ext_def)
  have "objs_ok ?e" using assms by (simp add: dht_ok_def objs_ok_def)
  moreover have "lists_ok ?e"
    using dht_okD(2) [OF assms(1)] plist_ext [OF _ x] assms(2) by (simp add: lists_ok_def friend_ok_def)
  moreover have "closest ?e"
    by (rule closest_ext [OF dht_okD(2,3) [OF assms(1)] x]) (simp_all add: told_def)
  ultimately show ?thesis using x by (simp add: good_def dht_ok_def)
qed

lemma upd_friend_good:
  assumes "dht_ok d" "f < length (dh_friends d)" "friend_ok d (g (dh_friends d ! f))"
    "df_Pubkey (g (dh_friends d ! f)) = df_Pubkey (dh_friends d ! f)"
    "df_cmppk (g (dh_friends d ! f)) = df_cmppk (dh_friends d ! f)"
  shows "good d (upd_friend f g d)"
proof -
  let ?e = "upd_friend f g d"
  have k: "map df_Pubkey (dh_friends ?e) = map df_Pubkey (dh_friends d)"
    using assms(2,4) by (simp add: upd_friend_def map_update list_update_same_conv)
  then have x: "ext d ?e" by (simp add: ext_def upd_friend_def)
  have sub: "f1 \<in> set (dh_friends d) \<or> f1 = g (dh_friends d ! f)" if "f1 \<in> set (dh_friends ?e)" for f1
    using that set_update_subset_insert [of "dh_friends d" f "g (dh_friends d ! f)"]
    by (auto simp: upd_friend_def)
  have "objs_ok ?e"
    using assms(1,4,5) sub nth_mem [OF assms(2)] unfolding dht_ok_def objs_ok_def
    by (fastforce simp: upd_friend_def)
  moreover have "friend_ok ?e (g (dh_friends d ! f))"
    using assms(3) plist_ext [OF _ x] by (simp add: friend_ok_def)
  then have "lists_ok ?e"
    using sub by (intro lists_ok_ext [OF dht_okD(2) [OF assms(1)] x]) (auto simp: upd_friend_def)
  moreover have "closest ?e"
    by (rule closest_ext [OF dht_okD(2,3) [OF assms(1)] x]) (simp_all add: told_def upd_friend_def)
  ultimately show ?thesis using x by (simp add: good_def dht_ok_def)
qed

lemma put_node:
  assumes "plist d Node m l" "n < length (dh_nodes d)"
  shows "\<exists>l1. Put (item_key d) (item_cmp now d) (NodeP n) l = Some l1 \<and> plist d Node m l1"
  using assms node_items.Put_keeps [of d l "NodeP n" now] by (auto simp: plist_def)

lemma friend_ok_nth: "dht_ok d \<Longrightarrow> f < length (dh_friends d) \<Longrightarrow> friend_ok d (dh_friends d ! f)"
  using nth_mem unfolding dht_ok_def lists_ok_def by blast

lemma friend_put_safe:
  assumes "dht_ok d" "f < length (dh_friends d)" "n < length (dh_nodes d)"
  shows "\<exists>e. friend_put now f n d = Some e \<and> good d e"
proof -
  have f: "plist d Node 8 (df_ClientList (dh_friends d ! f))" "plist d Node 4 (df_ToBootstrap (dh_friends d ! f))"
    using friend_ok_nth [OF assms(1,2)] by (simp_all add: friend_ok_def)
  obtain cl tb where "Put (item_key d) (item_cmp now d) (NodeP n) (df_ClientList (dh_friends d ! f)) = Some cl"
    "Put (item_key d) (item_cmp now d) (NodeP n) (df_ToBootstrap (dh_friends d ! f)) = Some tb"
    "plist d Node 8 cl" "plist d Node 4 tb"
    using put_node [OF f(1) assms(3)] put_node [OF f(2) assms(3)] by metis
  then show ?thesis
    using upd_friend_good [OF assms(1,2), of "\<lambda>fr. fr\<lparr>df_ClientList := cl, df_ToBootstrap := tb\<rparr>"]
    by (simp add: friend_put_def friend_ok_def)
qed

lemma AddNode_safe:
  assumes "dht_ok d" "f < length (dh_friends d)" "n < length (dh_nodes d)"
  shows "\<exists>e. AddNode now f n d = Some e \<and> good d e"
proof -
  let ?p = "df_cmppk (dh_friends d ! f)" and ?e = "upd_node n (\<lambda>nf. nf\<lparr>nf_cmppk := df_cmppk (dh_friends d ! f)\<rparr>) d"
  have "key_ok ?p"
    using assms(1) nth_mem [OF assms(2)] unfolding dht_ok_def objs_ok_def by (simp add: key_ok_def)
  then have e: "good d ?e" by (rule upd_node_good [OF assms(1,3)])
  have "f < length (dh_friends ?e)" "n < length (dh_nodes ?e)" using assms by (simp_all add: upd_node_def)
  then obtain e1 where "friend_put now f n ?e = Some e1" "good ?e e1"
    using friend_put_safe e by (metis good_def)
  then show ?thesis using friend_put_safe [OF assms] good_trans [OF e] by (auto simp: AddNode_def Let_def)
qed


section \<open>A node that is told\<close>

lemma client_items_ok:
  assumes "objs_ok d" "pl_all (valid d Client) l"
  shows "pl_all (client_item d) l"
proof -
  have "client_item d x" if "valid d Client x" for x
    using that assms(1) nth_mem by (auto elim!: valid_cases simp: client_item_def objs_ok_def)
  then show ?thesis by (rule pl_all_mono [OF assms(2)])
qed

text \<open>A client that is stored and put into the close list.\<close>

lemma put_client:
  assumes "dht_ok d" "length (cd_Pubkey cd) = 32" "cd_cmppk cd = SelfKey"
  defines "e \<equiv> d\<lparr>dh_clients := dh_clients d @ [cd]\<rparr>"
  shows "\<exists>cl. Put (item_key e) (item_cmp now e) (ClientP (length (dh_clients d))) (dh_CloseClientList e) = Some cl \<and>
    good d (e\<lparr>dh_CloseClientList := cl\<rparr>)"
proof -
  let ?x = "ClientP (length (dh_clients d))"
  have x: "ext d e" by (simp add: ext_def e_def)
  have objs: "objs_ok e" using assms by (auto simp: dht_ok_def objs_ok_def e_def)
  have lists: "lists_ok e" by (rule lists_ok_ext [OF dht_okD(2) [OF assms(1)] x]) (simp_all add: e_def)
  then have cl0: "pl_inv (item_key e) (dh_CloseClientList e)" "pl_all (valid e Client) (dh_CloseClientList e)"
    "pl_max (dh_CloseClientList e) = 1024" by (auto simp: lists_ok_def plist_def)
  note cl1 = client_items_ok [OF objs cl0(2)]
  have item: "client_item e ?x" using assms objs by (simp add: client_item_def e_def objs_ok_def)
  obtain cl where cl: "Put (item_key e) (item_cmp now e) ?x (dh_CloseClientList e) = Some cl"
    "pl_inv (item_key e) cl" "pl_all (client_item e) cl" "pl_max cl = 1024"
    using client_items.Put_keeps [OF cl0(1) cl1 item, of now] cl0(3) by auto
  let ?f = "e\<lparr>dh_CloseClientList := cl\<rparr>"
  have k: "item_key ?f = item_key e" "valid ?f = valid e" "item_dist ?f = item_dist e" "ext e ?f"
  proof -
    show i: "item_key ?f = item_key e"
    proof
      show "item_key ?f y = item_key e y" for y by (cases y) simp_all
    qed
    show "valid ?f = valid e"
    proof (intro ext)
      show "valid ?f c y = valid e c y" for c y by (cases c; cases y) simp_all
    qed
    show "item_dist ?f = item_dist e" using i by (intro ext) (simp add: item_dist_def)
    show "ext e ?f" by (simp add: ext_def)
  qed
  have "pl_all (valid e Client) cl"
    by (rule pl_all_mono [OF cl(3)]) (auto elim!: client_itemE)
  then have "plist ?f Client 1024 cl" using cl(2,4) k(1,2) by (simp add: plist_def)
  then have "lists_ok ?f" using lists plist_ext [OF _ k(4)] by (simp add: lists_ok_def friend_ok_def)
  moreover have "objs_ok ?f" using objs by (simp add: objs_ok_def)
  moreover have "closest ?f"
  proof -
    have "item_dist e y = item_dist d y" if "y \<in> set (pl_lst (dh_CloseClientList d))" for y
      using that ext_valid(2) [OF x] plistD x dht_okD(2) [OF assms(1)]
      unfolding lists_ok_def item_dist_def ext_def by metis
    then have "map (item_dist e) (pl_lst (dh_CloseClientList e)) = take 1024 (sorted_list_of_set (told d))"
      using dht_okD(3) [OF assms(1)] unfolding closest_def by (simp add: e_def cong: map_cong)
    then have "map (item_dist e) (pl_lst cl) = take 1024 (sorted_list_of_set (insert (item_dist e ?x) (told d)))"
      using client_items.Put_closest [OF cl0(1) cl1 item _ _ cl(1), of "told d"] cl0(3) cl(4)
      by (simp add: told_def)
    moreover have "told ?f = insert (item_dist e ?x) (told d)" by (simp add: told_def item_dist_def e_def)
    ultimately show ?thesis using k(3) by (simp add: closest_def)
  qed
  ultimately have "good d ?f" using ext_trans [OF x k(4)] by (simp add: good_def dht_ok_def)
  then show ?thesis using cl(1) by blast
qed

lemma list_valid:
  assumes "dht_ok d"
  shows "x \<in> set (pl_lst (dh_FriendsList d)) \<Longrightarrow> valid d Friend x"
    "x \<in> set (pl_lst (dh_CloseClientList d)) \<Longrightarrow> valid d Client x"
    "x \<in> set (pl_lst (dh_ToBootstrap d)) \<Longrightarrow> valid d Node x"
    "f < length (dh_friends d) \<Longrightarrow> x \<in> set (pl_lst (df_ClientList (dh_friends d ! f))) \<Longrightarrow> valid d Node x"
    "f < length (dh_friends d) \<Longrightarrow> x \<in> set (pl_lst (df_ToBootstrap (dh_friends d ! f))) \<Longrightarrow> valid d Node x"
  using dht_okD(2) [OF assms] friend_ok_nth [OF assms] plistD unfolding lists_ok_def friend_ok_def by blast+

lemma tell_friends_safe:
  assumes "dht_ok d" "n < length (dh_nodes d)"
  shows "\<exists>e. each (\<lambda>itemi d. do { f \<leftarrow> as_friend itemi; AddNode t f n d }) (pl_lst (dh_FriendsList d)) d = Some e
    \<and> good d e"
proof (rule each_safe)
  show "good d d" using assms(1) by (rule good_refl)
  fix x s assume x: "x \<in> set (pl_lst (dh_FriendsList d))" and s: "good d s"
  then have e: "dht_ok s" "ext d s" by (simp_all add: good_def)
  have "valid s Friend x" "valid s Node (NodeP n)"
    using ext_valid(1) [OF e(2), of Friend x] ext_valid(1) [OF e(2), of Node "NodeP n"]
      list_valid(1) [OF assms(1) x] assms(2) by simp_all
  then obtain f where f: "x = FriendP f" "f < length (dh_friends s)" "n < length (dh_nodes s)"
    by (auto elim!: valid_cases)
  obtain u where "AddNode t f n s = Some u" "good s u" using AddNode_safe [OF e(1) f(2,3)] by blast
  then show "\<exists>u. (do { f \<leftarrow> as_friend x; AddNode t f n s }) = Some u \<and> good d u"
    using f(1) good_trans [OF s] by simp
qed

text \<open>The node and the client are stored and put into the two lists before the friends are told.\<close>

lemma process_node_stores:
  assumes "dht_ok d" "length nodekey = 32"
  shows "\<exists>d4. good d d4 \<and> length (dh_nodes d) < length (dh_nodes d4) \<and> dh_FriendsList d4 = dh_FriendsList d \<and>
    process_node t1 t2 t3 addro nodekey d =
      each (\<lambda>itemi d'. do { f \<leftarrow> as_friend itemi; AddNode t3 f (length (dh_nodes d)) d' }) (pl_lst (dh_FriendsList d4)) d4"
proof -
  let ?nf = "\<lparr>nf_Pubkey = nodekey, nf_Addr = addro, nf_cmppk = SelfKey\<rparr>"
  define d1 where "d1 = d\<lparr>dh_nodes := dh_nodes d @ [?nf]\<rparr>"
  have g1: "good d d1" using add_node_good [OF assms(1), of ?nf] assms(2) by (simp add: key_ok_def d1_def)
  have n1: "length (dh_nodes d) < length (dh_nodes d1)" by (simp add: d1_def)
  have "plist d1 Node 8 (dh_ToBootstrap d1)" using g1 by (simp add: good_def dht_ok_def lists_ok_def)
  then obtain tb where tb: "Put (item_key d1) (item_cmp t1 d1) (NodeP (length (dh_nodes d))) (dh_ToBootstrap d1) = Some tb"
    "plist d1 Node 8 tb" using put_node [OF _ n1] by blast
  define d2 where "d2 = d1\<lparr>dh_ToBootstrap := tb\<rparr>"
  have g2: "good d1 d2" using g1 tb(2) unfolding d2_def by (intro set_bootstrap_good) (simp_all add: good_def)
  have n2: "length (dh_nodes d) < length (dh_nodes d2)" using n1 by (simp add: d2_def)
  let ?cd = "\<lparr>cd_Pubkey = nodekey, cd_Addr = addro, cd_Timestamp = t1, cd_LastPinged = t2,
    cd_RetAddr = addro, cd_RetTimestamp = t3, cd_cmppk = SelfKey\<rparr>"
  define d3 where "d3 = d2\<lparr>dh_clients := dh_clients d2 @ [?cd]\<rparr>"
  obtain cl where cl: "Put (item_key d3) (item_cmp t3 d3) (ClientP (length (dh_clients d2)))
      (dh_CloseClientList d3) = Some cl" "good d2 (d3\<lparr>dh_CloseClientList := cl\<rparr>)"
    using put_client [of d2 ?cd t3] g2 assms(2) unfolding d3_def good_def by auto
  define d4 where "d4 = d3\<lparr>dh_CloseClientList := cl\<rparr>"
  have g4: "good d d4" using g1 g2 cl(2) good_trans unfolding d4_def by metis
  have d4: "length (dh_nodes d) < length (dh_nodes d4)" "dh_FriendsList d4 = dh_FriendsList d"
    using n2 by (simp_all add: d4_def d3_def d2_def d1_def)
  have "process_node t1 t2 t3 addro nodekey d =
      each (\<lambda>itemi d'. do { f \<leftarrow> as_friend itemi; AddNode t3 f (length (dh_nodes d)) d' }) (pl_lst (dh_FriendsList d4)) d4"
    unfolding process_node_def Let_def
    unfolding d1_def [symmetric] tb(1) Option.bind.bind_lunit
    unfolding d2_def [symmetric] d3_def [symmetric] cl(1) Option.bind.bind_lunit
    unfolding d4_def [symmetric] ..
  then show ?thesis using g4 d4 by blast
qed

lemma process_node_safe:
  assumes "dht_ok d" "length nodekey = 32"
  shows "\<exists>e. process_node t1 t2 t3 addro nodekey d = Some e \<and> good d e"
proof -
  obtain d4 where d4: "good d d4" "length (dh_nodes d) < length (dh_nodes d4)"
    "process_node t1 t2 t3 addro nodekey d =
      each (\<lambda>itemi d'. do { f \<leftarrow> as_friend itemi; AddNode t3 f (length (dh_nodes d)) d' }) (pl_lst (dh_FriendsList d4)) d4"
    using process_node_stores [OF assms] by blast
  have "dht_ok d4" using d4(1) by (simp add: good_def)
  from tell_friends_safe [OF this d4(2), of t3] show ?thesis using good_trans [OF d4(1)] d4(3) by auto
qed

section \<open>Packets keep the tables\<close>

lemma tables_shared_sent [simp]: "tables (snd (GetSharedKeySent nb pk d)) = tables d"
  by (simp add: GetSharedKeySent_def tables_def split_beta Let_def)

lemma tables_shared_recv [simp]: "tables (snd (GetSharedKeyRecv nb pk d)) = tables d"
  by (simp add: GetSharedKeyRecv_def tables_def split_beta Let_def)

lemma tables_WriteTo [simp]: "tables (WriteTo pkt a d) = tables d"
  by (simp add: WriteTo_def tables_def)

lemma tables_pair: "tables d = tables e \<Longrightarrow> dh_clients d = dh_clients e \<and> dh_nodes d = dh_nodes e \<and>
    dh_friends d = dh_friends e \<and> dh_SelfPubkey d = dh_SelfPubkey e \<and> dh_CloseClientList d = dh_CloseClientList e \<and>
    dh_ToBootstrap d = dh_ToBootstrap e \<and> dh_FriendsList d = dh_FriendsList e"
  by (simp add: tables_def)

lemma GetNodes_tables: "GetNodes nb rs a pk cid d = Some e \<Longrightarrow> tables e = tables d"
  using tables_shared_sent [of nb pk d]
  by (auto simp: GetNodes_def split_beta Let_def bind_eq_Some_conv simp del: tables_shared_sent)

lemma CreatePacket_box: "box_ok nb \<Longrightarrow> CreatePacket nb pk k ty n p = Some (ty # pk @ n @ nb_Seal nb k n p)"
  by (simp add: CreatePacket_def EncryptDataSymmetric_ok)

lemma GetNodes_safe:
  assumes "box_ok nb"
  shows "\<exists>e. GetNodes nb rs a pk cid d = Some e \<and> tables e = tables d"
proof -
  have "\<exists>e. GetNodes nb rs a pk cid d = Some e"
    by (simp add: GetNodes_def split_beta Let_def CreatePacket_box [OF assms])
  then show ?thesis using GetNodes_tables by blast
qed

lemma each_tables:
  assumes "\<And>x s. x \<in> set xs \<Longrightarrow> tables s = tables d \<Longrightarrow> \<exists>t. f x s = Some t \<and> tables t = tables s"
    and "tables s = tables d"
  shows "\<exists>t. each f xs s = Some t \<and> tables t = tables d"
proof (rule each_safe)
  show "tables s = tables d" by (rule assms(2))
  show "\<exists>t. f x s = Some t \<and> tables t = tables d" if "x \<in> set xs" "tables s = tables d" for x s
    using assms(1) [OF that] that(2) by simp
qed

lemma getnodes_client_safe: "box_ok nb \<Longrightarrow> \<exists>e. getnodes_client nb rs cid c d = Some e \<and> tables e = tables d"
  using GetNodes_safe by (simp add: getnodes_client_def)

lemma getnodes_node_safe: "box_ok nb \<Longrightarrow> \<exists>e. getnodes_node nb rs cid n d = Some e \<and> tables e = tables d"
  using GetNodes_safe by (simp add: getnodes_node_def)

section \<open>Periodic work does not panic\<close>

lemma valid_tag:
  "valid d Client x \<Longrightarrow> \<exists>i. x = ClientP i \<and> i < length (dh_clients d)"
  "valid d Node x \<Longrightarrow> \<exists>i. x = NodeP i \<and> i < length (dh_nodes d)"
  "valid d Friend x \<Longrightarrow> \<exists>i. x = FriendP i \<and> i < length (dh_friends d)"
  by (auto elim!: valid_cases)

lemma ask_bootstrap_safe:
  assumes "dht_ok d" "box_ok nb"
  shows "\<exists>e. ask_bootstrap nb rs r d = Some e \<and> tables e = tables d"
proof (cases "0 < length (Head (int (Len (dh_ToBootstrap d))) (dh_ToBootstrap d))")
  case True
  let ?items = "Head (int (Len (dh_ToBootstrap d))) (dh_ToBootstrap d)"
  have "?items ! (r mod length ?items) \<in> set (pl_lst (dh_ToBootstrap d))"
    using True nth_mem [of "r mod length ?items" ?items] by (auto simp: Head_def Len_def split: if_splits)
  then obtain n where "?items ! (r mod length ?items) = NodeP n"
    using list_valid(3) [OF assms(1)] valid_tag(2) by blast
  then show ?thesis using True getnodes_node_safe [OF assms(2)] by (simp add: ask_bootstrap_def Let_def)
qed (simp add: ask_bootstrap_def)

text \<open>The nodes that need a request and the good ones are in the store.\<close>

lemma scan_close_safe:
  assumes "dht_ok d"
  shows "\<exists>p. scan_close now d = Some p \<and> (\<forall>c \<in> set (fst p) \<union> set (snd p). c < length (dh_clients d))"
  unfolding scan_close_def
proof (rule each_safe)
  fix x and p :: "nat list \<times> nat list"
  assume "x \<in> set (pl_lst (dh_CloseClientList d))" and p: "\<forall>c \<in> set (fst p) \<union> set (snd p). c < length (dh_clients d)"
  then obtain c where "x = ClientP c" "c < length (dh_clients d)"
    using list_valid(2) [OF assms] valid_tag(1) by blast
  then show "\<exists>t. (case p of (nl, gl) \<Rightarrow> do {
       c \<leftarrow> as_client x;
       let item = dh_clients d ! c;
       let alive = (\<not> IsTimeout4Time now (cd_LastPinged item) 182);
       Some (if alive \<and> IsTimeout4Time now (cd_LastPinged item) 60 then nl @ [c] else nl,
             if alive \<and> \<not> IsTimeout4Time now (cd_Timestamp item) 122 then gl @ [c] else gl) }) = Some t \<and>
      (\<forall>c \<in> set (fst t) \<union> set (snd t). c < length (dh_clients d))"
    using p by (simp add: split_beta Let_def)
qed simp

lemma ask_needy_safe:
  assumes "dht_ok d" "box_ok nb" "\<forall>c \<in> set need. c < length (dh_clients d)"
  shows "\<exists>e. ask_needy nb rs r now need d = Some e \<and> good d e"
proof (cases "r < length need")
  case True
  let ?up = "upd_client (need ! r) (\<lambda>cd. cd\<lparr>cd_LastPinged := now\<rparr>) d"
  have up: "good d ?up" using upd_client_good [OF assms(1)] assms(3) True by simp
  obtain e where e: "getnodes_client nb rs (dh_SelfPubkey d) (need ! r) ?up = Some e" "tables e = tables ?up"
    using getnodes_client_safe [OF assms(2)] by blast
  then have "good d e" using good_trans [OF up good_tables] up by (simp add: good_def)
  then show ?thesis using True e(1) by (simp add: ask_needy_def)
qed (simp add: ask_needy_def good_refl [OF assms(1)])

lemma ask_good_safe: "box_ok nb \<Longrightarrow> \<exists>e. ask_good nb rs r now gn d = Some e \<and> tables e = tables d"
  using getnodes_client_safe [of nb rs "dh_SelfPubkey d" "gn ! (r mod length gn)"
    "d\<lparr>dh_CloseLastGetNodes := now, dh_CloseBootstrapTimes := dh_CloseBootstrapTimes d + 1\<rparr>"]
  by (auto simp: ask_good_def tables_def)

lemma doClosest_safe:
  assumes "dht_ok d" "box_ok nb"
  shows "\<exists>e. doClosest nb rs r1 r2 r3 now d = Some e \<and> good d e"
proof -
  obtain d1 where d1: "ask_bootstrap nb rs r1 d = Some d1" "tables d1 = tables d"
    using ask_bootstrap_safe [OF assms] by blast
  then have g1: "good d d1" by (intro good_tables [OF assms(1)])
  then have ok1: "dht_ok d1" by (simp add: good_def)
  obtain need gn where sc: "scan_close now d1 = Some (need, gn)" "\<forall>c \<in> set need. c < length (dh_clients d1)"
    using scan_close_safe [OF ok1, of now] by auto
  obtain d2 where d2: "ask_needy nb rs r2 now need d1 = Some d2" "good d1 d2"
    using ask_needy_safe [OF ok1 assms(2) sc(2)] by blast
  obtain e where e: "ask_good nb rs r3 now gn d2 = Some e" "tables e = tables d2"
    using ask_good_safe [OF assms(2)] by blast
  have "good d2 e" using d2(2) by (intro good_tables e(2)) (simp add: good_def)
  then have "good d e" using good_trans [OF g1 good_trans [OF d2(2)]] by blast
  then show ?thesis using d1(1) sc(1) d2(1) e(1) by (simp add: doClosest_def)
qed

lemma as_node_each:
  assumes "\<And>x. x \<in> set xs \<Longrightarrow> \<exists>n. x = NodeP n"
  shows "\<exists>b. each (\<lambda>itemi seen. do { n \<leftarrow> as_node itemi; Some (seen \<or> P n) }) xs b0 = Some b"
    "each (\<lambda>itemi u. map_option (\<lambda>_. u) (as_node itemi)) xs u = Some u"
proof -
  show "\<exists>b. each (\<lambda>itemi seen. do { n \<leftarrow> as_node itemi; Some (seen \<or> P n) }) xs b0 = Some b"
    using assms by (induction xs arbitrary: b0) fastforce+
  show "each (\<lambda>itemi u. map_option (\<lambda>_. u) (as_node itemi)) xs u = Some u"
    using assms by (induction xs) fastforce+
qed

lemma as_client_each:
  "(\<And>x. x \<in> set xs \<Longrightarrow> \<exists>n. x = ClientP n) \<Longrightarrow> each (\<lambda>itemi u. map_option (\<lambda>_. u) (as_client itemi)) xs u = Some u"
  by (induction xs) fastforce+


lemma tables_list_valid:
  assumes "dht_ok d" "tables s = tables d" "f < length (dh_friends d)"
  shows "x \<in> set (pl_lst (df_ClientList (dh_friends s ! f))) \<Longrightarrow> \<exists>n. x = NodeP n"
    "x \<in> set (pl_lst (df_ToBootstrap (dh_friends s ! f))) \<Longrightarrow> \<exists>n. x = NodeP n"
    "x \<in> set (pl_lst (dh_CloseClientList s)) \<Longrightarrow> \<exists>n. x = ClientP n"
proof -
  have "dh_friends s = dh_friends d" "dh_CloseClientList s = dh_CloseClientList d"
    using tables_pair [OF assms(2)] by simp_all
  then show "x \<in> set (pl_lst (df_ClientList (dh_friends s ! f))) \<Longrightarrow> \<exists>n. x = NodeP n"
    "x \<in> set (pl_lst (df_ToBootstrap (dh_friends s ! f))) \<Longrightarrow> \<exists>n. x = NodeP n"
    "x \<in> set (pl_lst (dh_CloseClientList s)) \<Longrightarrow> \<exists>n. x = ClientP n"
    using list_valid(2,4,5) [OF assms(1)] assms(3) valid_tag(1,2) by metis+
qed

lemma ask_nodes_safe:
  assumes "box_ok nb" "\<And>x. x \<in> set xs \<Longrightarrow> \<exists>n. x = NodeP n"
  shows "\<exists>t. each (\<lambda>itemi d. do { n \<leftarrow> as_node itemi; getnodes_node nb rs pk n d }) xs s = Some t \<and> tables t = tables s"
proof (rule each_tables)
  fix x u assume "x \<in> set xs"
  then obtain n where "x = NodeP n" using assms(2) by blast
  then show "\<exists>t. (do { n \<leftarrow> as_node x; getnodes_node nb rs pk n u }) = Some t \<and> tables t = tables u"
    using getnodes_node_safe [OF assms(1)] by simp
qed simp

lemma ask_clients_safe:
  assumes "box_ok nb" "\<And>x. x \<in> set xs \<Longrightarrow> \<exists>n. x = ClientP n"
  shows "\<exists>t. each (\<lambda>itemi d. do { c \<leftarrow> as_client itemi; getnodes_client nb rs pk c d }) xs s = Some t \<and> tables t = tables s"
proof (rule each_tables)
  fix x u assume "x \<in> set xs"
  then obtain n where "x = ClientP n" using assms(2) by blast
  then show "\<exists>t. (do { c \<leftarrow> as_client x; getnodes_client nb rs pk c u }) = Some t \<and> tables t = tables u"
    using getnodes_client_safe [OF assms(1)] by simp
qed simp

lemma SelectRandn_set: "set (SelectRandn rnd k l) \<subseteq> set (pl_lst l)"
proof -
  have "set (replace_random k rnd x items slts) \<subseteq> set slts \<union> set items" for k x items and slts :: "'a list"
    by (induction items arbitrary: x slts) (force simp: Let_def dest: set_mp [OF set_update_subset_insert] split: if_splits)+
  from this [of "nat k" 0 "drop (nat k) (pl_lst l)" "take (nat k) (pl_lst l)"] show ?thesis
    using set_take_subset [of "nat k" "pl_lst l"] set_drop_subset [of "nat k" "pl_lst l"]
    unfolding SelectRandn_def Let_def by auto
qed

lemma friend_turn_safe:
  assumes "dht_ok d" "box_ok nb" "valid d Friend x"
  shows "\<exists>e. friend_turn nb rs rnd x d = Some e \<and> tables e = tables d"
proof -
  obtain f where f: "x = FriendP f" "f < length (dh_friends d)" using valid_tag(3) [OF assms(3)] by blast
  note tl = tables_list_valid [OF assms(1) _ f(2)]
  let ?pk = "df_Pubkey (dh_friends d ! f)"
  let ?ask = "\<lambda>itemi d. do { n \<leftarrow> as_node itemi; getnodes_node nb rs ?pk n d }"
  obtain d1 where d1: "each ?ask (pl_lst (df_ToBootstrap (dh_friends d ! f))) d = Some d1" "tables d1 = tables d"
    using ask_nodes_safe [OF assms(2) tl(2) [OF refl], where rs = rs and pk = ?pk and s = d] by blast
  obtain d2 where d2: "each ?ask (pl_lst (df_ClientList (dh_friends d1 ! f))) d1 = Some d2" "tables d2 = tables d1"
    using ask_nodes_safe [OF assms(2) tl(1) [OF d1(2)], where rs = rs and pk = ?pk and s = d1] by blast
  have t2: "tables d2 = tables d" using d1(2) d2(2) by simp
  obtain b where b: "each (\<lambda>itemi seen. do { n \<leftarrow> as_node itemi; Some (seen \<or> item_key d2 (NodeP n) = ?pk) })
      (pl_lst (df_ClientList (dh_friends d2 ! f))) False = Some b"
    using as_node_each(1) [OF tl(1) [OF t2], where P = "\<lambda>n. item_key d2 (NodeP n) = ?pk" and ?b0.0 = False] by blast
  have "\<exists>n. y = ClientP n" if "y \<in> set (SelectRandn rnd 48 (dh_CloseClientList d2))" for y
    by (rule tl(3) [OF t2 set_mp [OF SelectRandn_set that]])
  from ask_clients_safe [OF assms(2) this, where rs = rs and pk = ?pk and s = d2] obtain e where
    e: "each (\<lambda>itemi d. do { c \<leftarrow> as_client itemi; getnodes_client nb rs ?pk c d })
      (SelectRandn rnd 48 (dh_CloseClientList d2)) d2 = Some e" "tables e = tables d2" by blast
  have "friend_turn nb rs rnd x d = (if b then Some d2 else Some e)"
    unfolding friend_turn_def Let_def f(1) as_friend.simps Option.bind.bind_lunit d1(1)
    unfolding d2(1) Option.bind.bind_lunit b
    using as_node_each(2) [of "pl_lst (df_ToBootstrap (dh_friends d2 ! f))" "()"] tl(2) [OF t2]
      as_client_each [of "pl_lst (dh_CloseClientList d2)" "()"] tl(3) [OF t2] by (simp add: e(1))
  then show ?thesis using t2 e(2) by (cases b) auto
qed

lemma doDHTFriends_safe:
  assumes "dht_ok d" "box_ok nb"
  shows "\<exists>e. doDHTFriends nb rs rnd d = Some e \<and> good d e"
proof -
  have "\<exists>e. doDHTFriends nb rs rnd d = Some e \<and> tables e = tables d"
    unfolding doDHTFriends_def
  proof (rule each_tables)
    fix x s assume x: "x \<in> set (pl_lst (dh_FriendsList d))" and s: "tables s = tables d"
    have "dht_ok s" using tables_ok [OF s] assms(1) by simp
    moreover have "valid s Friend x" using list_valid(1) [OF assms(1) x] tables_item(2) [OF s] by simp
    ultimately show "\<exists>t. friend_turn nb rs rnd x s = Some t \<and> tables t = tables s"
      by (rule friend_turn_safe [OF _ assms(2)])
  qed simp
  then show ?thesis using good_tables [OF assms(1)] by blast
qed


section \<open>Adding a friend\<close>

lemma each_None:
  assumes "x \<in> set xs" "\<And>s. f x s = None"
  shows "each f xs s = None"
  using assms(1)
proof (induction xs arbitrary: s)
  case (Cons y ys)
  show ?case
  proof (cases "f y s")
    case (Some t)
    then have "x \<in> set ys" using Cons.prems assms(2) by auto
    then show ?thesis using Cons.IH Some by simp
  qed simp
qed simp

lemma each_id: "(\<And>x s. x \<in> set xs \<Longrightarrow> f x s = Some s) \<Longrightarrow> each f xs s = Some s"
  by (induction xs) auto

text \<open>A friend in the list of friends with a node in its list of clients.\<close>

definition friend_has_client :: "DHT \<Rightarrow> bool" where
  "friend_has_client d \<longleftrightarrow>
    (\<exists>f. FriendP f \<in> set (pl_lst (dh_FriendsList d)) \<and> pl_lst (df_ClientList (dh_friends d ! f)) \<noteq> [])"

lemma add_friend_good:
  assumes "dht_ok d" "length pk = 32"
  shows "good d (d\<lparr>dh_friends := dh_friends d @ [NewDHTFriend pk]\<rparr>)"
proof -
  let ?e = "d\<lparr>dh_friends := dh_friends d @ [NewDHTFriend pk]\<rparr>"
  have x: "ext d ?e" by (simp add: ext_def)
  have "objs_ok ?e" using assms by (auto simp: dht_ok_def objs_ok_def NewDHTFriend_def)
  moreover have "lists_ok ?e"
    by (rule lists_ok_ext [OF dht_okD(2) [OF assms(1)] x]) (auto simp: friend_ok_def NewDHTFriend_def)
  moreover have "closest ?e"
    by (rule closest_ext [OF dht_okD(2,3) [OF assms(1)] x]) (simp_all add: told_def)
  ultimately show ?thesis using x by (simp add: good_def dht_ok_def)
qed

lemma set_friends_good:
  assumes "dht_ok d" "plist d Friend 2147483647 fl"
  shows "good d (d\<lparr>dh_FriendsList := fl\<rparr>)"
proof -
  let ?e = "d\<lparr>dh_FriendsList := fl\<rparr>"
  have x: "ext d ?e" by (simp add: ext_def)
  have "objs_ok ?e" using assms by (simp add: dht_ok_def objs_ok_def)
  moreover have "lists_ok ?e"
    using dht_okD(2) [OF assms(1)] plist_ext [OF _ x] assms(2) by (simp add: lists_ok_def friend_ok_def)
  moreover have "closest ?e"
    by (rule closest_ext [OF dht_okD(2,3) [OF assms(1)] x]) (simp_all add: told_def)
  ultimately show ?thesis using x by (simp add: good_def dht_ok_def)
qed

lemma sltfn_safe:
  assumes "dht_ok d" "length pubkey = 32" "f < length (dh_friends d)" "valid d Client x"
  shows "\<exists>e. sltfn now pubkey f x d = Some e \<and> good d e"
proof -
  obtain c where c: "x = ClientP c" "c < length (dh_clients d)" using valid_tag(1) [OF assms(4)] by blast
  let ?nf = "\<lparr>nf_Pubkey = cd_Pubkey (dh_clients d ! c), nf_Addr = cd_Addr (dh_clients d ! c), nf_cmppk = KeyOf pubkey\<rparr>"
  define d1 where "d1 = d\<lparr>dh_nodes := dh_nodes d @ [?nf]\<rparr>"
  have "length (cd_Pubkey (dh_clients d ! c)) = 32"
    using assms(1) nth_mem [OF c(2)] unfolding dht_ok_def objs_ok_def by blast
  then have g1: "good d d1"
    using add_node_good [OF assms(1), of ?nf] assms(2) by (simp add: d1_def key_ok_def)
  then have ok1: "dht_ok d1" "f < length (dh_friends d1)" "length (dh_nodes d) < length (dh_nodes d1)"
    using assms(3) by (simp_all add: good_def d1_def)
  obtain tb where tb: "Put (item_key d1) (item_cmp now d1) (NodeP (length (dh_nodes d))) (df_ToBootstrap (dh_friends d1 ! f)) = Some tb"
    "plist d1 Node 4 tb"
    using put_node [OF _ ok1(3)] friend_ok_nth [OF ok1(1,2)] unfolding friend_ok_def by blast
  have "good d1 (upd_friend f (\<lambda>fr. fr\<lparr>df_ToBootstrap := tb\<rparr>) d1)"
    using friend_ok_nth [OF ok1(1,2)] tb(2) by (intro upd_friend_good [OF ok1(1,2)]) (simp_all add: friend_ok_def)
  then have g2: "good d (upd_friend f (\<lambda>fr. fr\<lparr>df_ToBootstrap := tb\<rparr>) d1)" using good_trans [OF g1] by blast
  show ?thesis
  proof (cases "IsTimeout4Time now (cd_Timestamp (dh_clients d ! c)) 122")
    case True
    then show ?thesis using good_refl [OF assms(1)] c(1) by (simp add: sltfn_def Let_def)
  next
    case False
    then have "sltfn now pubkey f x d = Some (upd_friend f (\<lambda>fr. fr\<lparr>df_ToBootstrap := tb\<rparr>) d1)"
      unfolding sltfn_def Let_def c(1) as_client.simps Option.bind.bind_lunit
      unfolding d1_def [symmetric] tb(1) by simp
    then show ?thesis using g2 by blast
  qed
qed


text \<open>The lists of friends and of their clients do not change while a friend is set up.\<close>

lemma sltfn_frame:
  assumes "sltfn now pk f x d = Some e" "f < length (dh_friends d)"
  shows "dh_FriendsList e = dh_FriendsList d \<and> length (dh_friends e) = length (dh_friends d) \<and>
    dh_CloseClientList e = dh_CloseClientList d \<and>
    (\<forall>g. df_ClientList (dh_friends e ! g) = df_ClientList (dh_friends d ! g))"
  using assms
  by (auto simp: sltfn_def Let_def bind_eq_Some_conv upd_friend_def nth_list_update split: if_splits)

definition prepared :: "nat \<Rightarrow> DHT \<Rightarrow> DHT \<Rightarrow> bool" where
  "prepared f d s \<longleftrightarrow> good d s \<and> f < length (dh_friends s) \<and> dh_FriendsList s = dh_FriendsList d \<and>
    dh_CloseClientList s = dh_CloseClientList d \<and>
    (\<forall>g. df_ClientList (dh_friends s ! g) = df_ClientList (dh_friends d ! g))"

lemma setup_close:
  assumes "dht_ok d" "length pk = 32" "f < length (dh_friends d)"
  shows "\<exists>e. each (sltfn now pk f) (pl_lst (dh_CloseClientList d)) d = Some e \<and> prepared f d e"
proof (rule each_safe)
  show "prepared f d d" using assms good_refl by (simp add: prepared_def)
  fix x s assume x: "x \<in> set (pl_lst (dh_CloseClientList d))" and s: "prepared f d s"
  then have "dht_ok s" "f < length (dh_friends s)" "valid s Client x"
    using list_valid(2) [OF assms(1)] ext_valid(1) by (auto simp: prepared_def good_def)
  then obtain t where t: "sltfn now pk f x s = Some t" "good s t" using sltfn_safe [OF _ assms(2)] by blast
  have "prepared f d t"
    using s sltfn_frame [OF t(1) \<open>f < length (dh_friends s)\<close>] good_trans [of d s t] t(2) by (simp add: prepared_def)
  then show "\<exists>t. sltfn now pk f x s = Some t \<and> prepared f d t" using t(1) by blast
qed

lemma sltfn_node: "sltfn now pk f (NodeP n) d = None"
  by (simp add: sltfn_def)

text \<open>With a friend that has clients the assertion on the type of these fails.\<close>

lemma setup_friends:
  assumes "dht_ok d"
  shows "each (\<lambda>itemi d. do { g \<leftarrow> as_friend itemi; each (sltfn now pk f) (pl_lst (df_ClientList (dh_friends d ! g))) d })
      (pl_lst (dh_FriendsList d)) d = (if friend_has_client d then None else Some d)"
  (is "each ?f _ _ = _")
proof -
  have one: "?f x d = (case x of FriendP g \<Rightarrow> if pl_lst (df_ClientList (dh_friends d ! g)) = [] then Some d else None | _ \<Rightarrow> None)"
    if x: "x \<in> set (pl_lst (dh_FriendsList d))" for x
  proof -
    obtain g where g: "x = FriendP g" "g < length (dh_friends d)"
      using list_valid(1) [OF assms x] valid_tag(3) by blast
    show ?thesis
    proof (cases "pl_lst (df_ClientList (dh_friends d ! g))")
      case (Cons y ys)
      then obtain n where "y = NodeP n" using list_valid(4) [OF assms g(2), of y] valid_tag(2) by auto
      then show ?thesis using g(1) Cons by (simp add: sltfn_node)
    qed (simp add: g(1))
  qed
  have "each ?f xs d = (if \<exists>g. FriendP g \<in> set xs \<and> pl_lst (df_ClientList (dh_friends d ! g)) \<noteq> [] then None else Some d)"
    if "set xs \<subseteq> set (pl_lst (dh_FriendsList d))" for xs
    using that
  proof (induction xs)
    case (Cons x xs)
    have x: "x \<in> set (pl_lst (dh_FriendsList d))" using Cons.prems by simp
    obtain g where g: "x = FriendP g" using list_valid(1) [OF assms x] valid_tag(3) by blast
    show ?case using Cons.IH Cons.prems one [OF x] g by auto
  qed simp
  then show ?thesis by (simp add: friend_has_client_def)
qed


lemma prepared_has_client: "prepared f d s \<Longrightarrow> friend_has_client s \<longleftrightarrow> friend_has_client d"
  by (simp add: prepared_def friend_has_client_def)

lemma AddFriend_outcome:
  assumes "dht_ok d" "length pk = 32"
  shows "if GetByKey pk (dh_FriendsList d) = None \<and> friend_has_client d then AddFriend now pk d = None
    else \<exists>e. AddFriend now pk d = Some e \<and> good d e"
proof (cases "GetByKey pk (dh_FriendsList d)")
  case None
  define f d1 where "f = length (dh_friends d)" and "d1 = d\<lparr>dh_friends := dh_friends d @ [NewDHTFriend pk]\<rparr>"
  have g1: "good d d1" using add_friend_good [OF assms] by (simp add: d1_def)
  then have ok1: "dht_ok d1" "f < length (dh_friends d1)" by (simp_all add: good_def d1_def f_def)
  have "friend_has_client d1 \<longleftrightarrow> friend_has_client d"
    using list_valid(1) [OF assms(1)] by (fastforce simp: friend_has_client_def d1_def nth_append)
  moreover obtain d2 where d2: "each (sltfn now pk f) (pl_lst (dh_CloseClientList d1)) d1 = Some d2" "prepared f d1 d2"
    using setup_close [OF ok1(1) assms(2) ok1(2)] by blast
  ultimately have has: "friend_has_client d2 \<longleftrightarrow> friend_has_client d" using prepared_has_client by blast
  have ok2: "dht_ok d2" "good d1 d2" "f < length (dh_friends d2)" using d2(2) by (simp_all add: prepared_def good_def)
  have fl: "plist d2 Friend 2147483647 (dh_FriendsList d2)" using ok2(1) by (simp add: dht_ok_def lists_ok_def)
  obtain fl' where fl': "Put (item_key d2) (item_cmp now d2) (FriendP f) (dh_FriendsList d2) = Some fl'"
    "plist d2 Friend 2147483647 fl'"
    using friend_items.Put_keeps [of d2 "dh_FriendsList d2" "FriendP f" now] fl ok2(3) by (auto simp: plist_def)
  have "AddFriend now pk d = (if friend_has_client d then None else Some (d2\<lparr>dh_FriendsList := fl'\<rparr>))"
    unfolding AddFriend_def Let_def f_def [symmetric] d1_def [symmetric]
    using None setup_friends [OF ok2(1), of now pk f] d2(1) fl'(1) has by simp
  moreover have "good d (d2\<lparr>dh_FriendsList := fl'\<rparr>)"
    using g1 ok2(2) set_friends_good [OF ok2(1) fl'(2)] good_trans by blast
  ultimately show ?thesis using None by auto
qed (use good_refl [OF assms(1)] in \<open>simp add: AddFriend_def\<close>)

section \<open>Answering\<close>

lemma put_clients_safe:
  assumes "dht_ok d" "\<And>x. x \<in> set xs \<Longrightarrow> valid d Client x" "pl_inv (item_key d) t" "pl_all (client_item d) t" "0 < pl_max t"
  shows "\<exists>u. each (\<lambda>itemi tmplst. do { c \<leftarrow> as_client itemi; Put (item_key d) (item_cmp now d) (ClientP c) tmplst }) xs t = Some u
    \<and> pl_inv (item_key d) u \<and> pl_all (client_item d) u \<and> 0 < pl_max u \<and> (xs \<noteq> [] \<longrightarrow> pl_lst u \<noteq> [])"
  using assms(2-5)
proof (induction xs arbitrary: t rule: rev_induct)
  case (snoc x xs)
  let ?f = "\<lambda>itemi tmplst. do { c \<leftarrow> as_client itemi; Put (item_key d) (item_cmp now d) (ClientP c) tmplst }"
  have "\<And>y. y \<in> set xs \<Longrightarrow> valid d Client y" using snoc.prems(1) by simp
  from snoc.IH [OF this snoc.prems(2-4)] obtain u where u: "each ?f xs t = Some u" "pl_inv (item_key d) u"
    "pl_all (client_item d) u" "0 < pl_max u" by blast
  obtain c where c: "x = ClientP c" "c < length (dh_clients d)" using snoc.prems(1) [of x] valid_tag(1) by force
  then have "client_item d (ClientP c)"
    using assms(1) nth_mem unfolding dht_ok_def objs_ok_def client_item_def by simp
  then obtain v where v: "Put (item_key d) (item_cmp now d) (ClientP c) u = Some v" "pl_inv (item_key d) v"
    "pl_all (client_item d) v" "pl_max v = pl_max u"
    using client_items.Put_keeps [OF u(2,3)] by blast
  have "each ?f (xs @ [x]) t = Some v" using u(1) v(1) c(1) by (simp add: each_append)
  then show ?case using v u(4) Put_nonempty [OF u(2,4) v(1)] by simp
qed simp

lemma put_friends_clients:
  assumes "dht_ok d"
  shows "each (\<lambda>itemi t. do { f \<leftarrow> as_friend itemi;
        each (\<lambda>itemi tmplst. do { c \<leftarrow> as_client itemi; Put (item_key d) (item_cmp now d) (ClientP c) tmplst })
          (pl_lst (df_ClientList (dh_friends d ! f))) t }) (pl_lst (dh_FriendsList d)) t =
    (if friend_has_client d then None else Some t)" (is "each ?f _ _ = _")
proof (cases "friend_has_client d")
  case True
  then obtain f where f: "FriendP f \<in> set (pl_lst (dh_FriendsList d))" "pl_lst (df_ClientList (dh_friends d ! f)) \<noteq> []"
    by (auto simp: friend_has_client_def)
  have "f < length (dh_friends d)" using list_valid(1) [OF assms f(1)] by simp
  then obtain n ys where "pl_lst (df_ClientList (dh_friends d ! f)) = NodeP n # ys"
    using f(2) list_valid(4) [OF assms] valid_tag(2) by (metis list.set_intros(1) neq_Nil_conv)
  then have "?f (FriendP f) s = None" for s by simp
  then show ?thesis using True each_None [OF f(1), of ?f] by simp
next
  case False
  have "?f x s = Some s" if "x \<in> set (pl_lst (dh_FriendsList d))" for x s
    using that False valid_tag(3) [OF list_valid(1) [OF assms that]] by (auto simp: friend_has_client_def)
  then show ?thesis using False by (simp add: each_id)
qed

definition client_node :: "DHT \<Rightarrow> PLItem \<Rightarrow> Addr \<times> bytes" where
  "client_node d x = (let c = dh_clients d ! the (as_client x) in (cd_Addr c, cd_Pubkey c))"

lemma collect_nodes:
  assumes "\<And>x. x \<in> set xs \<Longrightarrow> client_item d x"
  shows "each (\<lambda>itemx rets. do { c \<leftarrow> as_client itemx;
      Some (rets @ [(cd_Addr (dh_clients d ! c), cd_Pubkey (dh_clients d ! c))]) }) xs r = Some (r @ map (client_node d) xs)"
  using assms
proof (induction xs arbitrary: r)
  case (Cons x xs)
  obtain c where c: "x = ClientP c" using Cons.prems [of x] by (auto elim: client_itemE)
  have "\<And>x. x \<in> set xs \<Longrightarrow> client_item d x" using Cons.prems by simp
  from Cons.IH [OF this] show ?case by (simp add: c client_node_def Let_def)
qed simp

lemma client_node_in: "client_item d x \<Longrightarrow> \<exists>c \<in> set (dh_clients d). client_node d x = (cd_Addr c, cd_Pubkey c)"
  by (auto elim!: client_itemE simp: client_node_def Let_def)

text \<open>\<^verbatim>\<open>get_close_nodes\<close> fails exactly when a friend has a client.\<close>

lemma get_close_nodes_outcome:
  assumes "dht_ok d"
  shows "if friend_has_client d then get_close_nodes now rnd d = None
    else \<exists>ns. get_close_nodes now rnd d = Some ns \<and> length ns \<le> 4 \<and>
      (pl_lst (dh_CloseClientList d) \<noteq> [] \<longrightarrow> ns \<noteq> []) \<and> (\<forall>n \<in> set ns. \<exists>c \<in> set (dh_clients d). n = (cd_Addr c, cd_Pubkey c))"
proof -
  have p: "0 < pl_max (NewPriorityList 1000 :: PLItem PriorityList)" by (simp add: NewPriorityList_def)
  obtain t where t: "each (\<lambda>itemi tmplst. do { c \<leftarrow> as_client itemi; Put (item_key d) (item_cmp now d) (ClientP c) tmplst })
      (pl_lst (dh_CloseClientList d)) (NewPriorityList 1000) = Some t" "pl_inv (item_key d) t" "pl_all (client_item d) t"
    "pl_lst (dh_CloseClientList d) \<noteq> [] \<longrightarrow> pl_lst t \<noteq> []"
    using put_clients_safe [OF assms list_valid(2) [OF assms] pl_inv_New pl_all_New p] by blast
  have c: "client_item d x" if "x \<in> set (SelectRandn rnd 4 t)" for x
    using t(3) set_mp [OF SelectRandn_set that] by (simp add: pl_all_def)
  have "distinct (pl_lst t)" using pl_invD(2) [OF t(2)] distinct_map by blast
  then have "length (SelectRandn rnd 4 t) = min 4 (length (pl_lst t))" using SelectRandn_sub [of t rnd 4] by simp
  then have "length (SelectRandn rnd 4 t) \<le> 4" "pl_lst t \<noteq> [] \<longrightarrow> SelectRandn rnd 4 t \<noteq> []"
    by (auto simp: min_def split: if_splits)
  moreover have "get_close_nodes now rnd d =
      (if friend_has_client d then None else Some (map (client_node d) (SelectRandn rnd 4 t)))"
    unfolding get_close_nodes_def Let_def t(1) Option.bind.bind_lunit put_friends_clients [OF assms]
    using collect_nodes [of "SelectRandn rnd 4 t" d "[]"] c by simp
  ultimately show ?thesis using client_node_in [OF c] t(4) by auto
qed


section \<open>Steps\<close>

lemma NewCryptoKey_length: "res_option (NewCryptoKey b) = Some k \<Longrightarrow> k = b \<and> length k = 32"
  by (auto simp: NewCryptoKey_def res_option_def split: if_splits)

lemma read_node_length: "read_node g plain off = Some (a, k, off') \<Longrightarrow> length k = 32"
  by (auto simp: read_node_def bind_eq_Some_conv split_beta Let_def dest: NewCryptoKey_length)

lemma read_nodes_good:
  "read_nodes g clk plain i k off d = Some e \<Longrightarrow> dht_ok d \<Longrightarrow> good d e"
proof (induction g clk plain i k off d arbitrary: e rule: read_nodes.induct)
  case (1 g clk plain i off d)
  then show ?case by (simp add: good_refl)
next
  case (2 g clk plain i k off d)
  obtain t1 t2 t3 where t: "clk i = (t1, t2, t3)" by (cases "clk i") auto
  from "2.prems"(1) obtain a nk off1 d1 where r: "read_node g plain off = Some (a, nk, off1)"
    "process_node t1 t2 t3 a nk d = Some d1" "read_nodes g clk plain (i + 1) k off1 d1 = Some e"
    by (auto simp: bind_eq_Some_conv t)
  have g1: "good d d1" using process_node_safe [OF "2.prems"(2) read_node_length [OF r(1)], of t1 t2 t3 a] r(2) by force
  have "good d1 e"
    using "2.IH" [OF r(1) refl refl t [symmetric] refl refl r(2) r(3)] g1 by (simp add: good_def)
  then show ?case using good_trans [OF g1] by blast
qed

lemma HandleSendNodes_good:
  assumes "HandleSendNodesIpv6 nb g clk data d = Some e" "dht_ok d"
  shows "good d e"
proof -
  obtain pk plain d1 where "d1 = snd (GetSharedKeySent nb pk d)"
    "read_nodes g clk plain 0 (unat (fst (buf_byte plain))) 1 d1 = Some e"
    using assms(1) by (auto simp: HandleSendNodesIpv6_def bind_eq_Some_conv split_beta Let_def split: if_splits)
  moreover have "good d d1" using calculation(1) good_tables [OF assms(2)] by simp
  ultimately show ?thesis using read_nodes_good good_trans unfolding good_def by metis
qed

lemma sendnodes_tables: "sendnodes_ipv6 nb g rs now rnd a sb k d = Some e \<Longrightarrow> tables e = tables d"
  by (auto simp: sendnodes_ipv6_def bind_eq_Some_conv split: if_splits)

lemma HandleGetNodes_tables: "HandleGetNodes nb g rs now rnd a data d = Some e \<Longrightarrow> tables e = tables d"
  by (auto simp: HandleGetNodes_def bind_eq_Some_conv split_beta Let_def split: if_splits dest!: sendnodes_tables)

lemma HandlePingRequest_tables: "HandlePingRequest nb rs a data d = Some e \<Longrightarrow> tables e = tables d"
  by (auto simp: HandlePingRequest_def SendPingResponse_def bind_eq_Some_conv split_beta Let_def split: if_splits)

lemma SendPingRequest_tables: "SendPingRequest nb rs a pk d = Some e \<Longrightarrow> tables e = tables d"
  by (auto simp: SendPingRequest_def bind_eq_Some_conv split_beta Let_def split: if_splits)

lemma doClosest_good: "doClosest nb rs r1 r2 r3 now d = Some e \<Longrightarrow> box_ok nb \<Longrightarrow> dht_ok d \<Longrightarrow> good d e"
  using doClosest_safe [of d nb rs r1 r2 r3 now] by auto

lemma doDHTFriends_good: "doDHTFriends nb rs rnd d = Some e \<Longrightarrow> box_ok nb \<Longrightarrow> dht_ok d \<Longrightarrow> good d e"
  using doDHTFriends_safe [of d nb rs rnd] by auto

lemma AddFriend_good: "AddFriend now pk d = Some e \<Longrightarrow> length pk = 32 \<Longrightarrow> dht_ok d \<Longrightarrow> good d e"
  using AddFriend_outcome [of d pk now] by (auto split: if_splits)

text \<open>What happens to a node: packets, its two timers, and the calls of its user.\<close>

inductive dht_step :: "nacl \<Rightarrow> gopp \<Rightarrow> DHT \<Rightarrow> DHT \<Rightarrow> bool" for nb g where
  get_nodes: "HandleGetNodes nb g rs now rnd a data d = Some e \<Longrightarrow> dht_step nb g d e"
| send_nodes: "HandleSendNodesIpv6 nb g clk data d = Some e \<Longrightarrow> dht_step nb g d e"
| ping_request: "HandlePingRequest nb rs a data d = Some e \<Longrightarrow> dht_step nb g d e"
| closest_timer: "doClosest nb rs r1 r2 r3 now d = Some e \<Longrightarrow> dht_step nb g d e"
| friends_timer: "doDHTFriends nb rs rnd d = Some e \<Longrightarrow> dht_step nb g d e"
| add_friend: "AddFriend now pk d = Some e \<Longrightarrow> length pk = 32 \<Longrightarrow> dht_step nb g d e"
| bootstrap: "Bootstrap nb rs a pk d = Some e \<Longrightarrow> dht_step nb g d e"
| send_ping: "SendPingRequest nb rs a pk d = Some e \<Longrightarrow> dht_step nb g d e"

lemma dht_step_good: "dht_step nb g d e \<Longrightarrow> box_ok nb \<Longrightarrow> dht_ok d \<Longrightarrow> good d e"
proof (induction rule: dht_step.induct)
  case (bootstrap rs a pk d e)
  then show ?case using GetNodes_tables good_tables by (auto simp: Bootstrap_def)
qed (auto intro: HandleSendNodes_good doClosest_good doDHTFriends_good AddFriend_good
      dest: HandleGetNodes_tables HandlePingRequest_tables SendPingRequest_tables good_tables)

lemma dht_reach_good: "(dht_step nb g)\<^sup>*\<^sup>* d e \<Longrightarrow> box_ok nb \<Longrightarrow> dht_ok d \<Longrightarrow> good d e"
proof (induction rule: rtranclp_induct)
  case base
  then show ?case by (simp add: good_refl)
next
  case (step e f)
  then show ?case using dht_step_good good_trans unfolding good_def by metis
qed

lemma dht_reachable_ok:
  assumes "(dht_step nb g)\<^sup>*\<^sup>* (NewDHT pk sk) d" "box_ok nb" "length pk = 32"
  shows "dht_ok d" "dh_SelfPubkey d = pk"
  using dht_reach_good [OF assms(1,2) NewDHT_ok [OF assms(3)]]
  by (simp_all add: good_def ext_def) (simp add: NewDHT_def)

end
