(* ===== verification/Dht_Service.thy ===== *)
theory Dht_Service
  imports Dht_Tables
begin

text \<open>
  What the DHT node does for its peers and its user: the list of close nodes it keeps, the requests it
  cannot survive once it has a friend, and the exchange of nodes between two of them.
\<close>

section \<open>The close list\<close>

lemma sort_key_dist:
  fixes f :: "'a \<Rightarrow> nat"
  assumes "inj_on f (set xs)"
  shows "map f (sort_key f (remdups xs)) = sorted_list_of_set (f ` set xs)"
proof -
  have "sorted (map f (sort_key f (remdups xs)))" by (rule sorted_sort_key)
  moreover have "distinct (map f (sort_key f (remdups xs)))"
    using assms by (simp add: distinct_map)
  moreover have "set (map f (sort_key f (remdups xs))) = f ` set xs" by simp
  ultimately show ?thesis
    using sorted_distinct_set_unique [of "map f (sort_key f (remdups xs))" "sorted_list_of_set (f ` set xs)"] by simp
qed

lemma closest_keys:
  assumes "dht_ok d"
  shows "map (item_key d) (pl_lst (dh_CloseClientList d)) =
    take 1024 (sort_key (id_dist (dh_SelfPubkey d)) (remdups (map cd_Pubkey (dh_clients d))))"
proof -
  let ?f = "id_dist (dh_SelfPubkey d)" and ?ks = "map cd_Pubkey (dh_clients d)"
  have len: "length k = length (dh_SelfPubkey d)" if "k \<in> set ?ks" for k
    using that assms by (auto simp: dht_ok_def objs_ok_def)
  then have inj: "inj_on ?f (set ?ks)" by (simp add: inj_on_def id_dist_inject)
  have sub: "set (map (item_key d) (pl_lst (dh_CloseClientList d))) \<subseteq> set ?ks"
    using list_valid(2) [OF assms] valid_tag(1) by fastforce
  have "map ?f (map (item_key d) (pl_lst (dh_CloseClientList d))) = take 1024 (sorted_list_of_set (told d))"
    using dht_okD(3) [OF assms] item_dist_def [of d, abs_def] by (simp add: closest_def comp_def)
  also have "told d = ?f ` set ?ks" by (simp add: told_def)
  also have "take 1024 (sorted_list_of_set (?f ` set ?ks)) = map ?f (take 1024 (sort_key ?f (remdups ?ks)))"
    unfolding sort_key_dist [OF inj, symmetric] by (simp only: take_map)
  finally show ?thesis
  proof (rule map_inj_on)
    show "inj_on ?f (set (map (item_key d) (pl_lst (dh_CloseClientList d))) \<union> set (take 1024 (sort_key ?f (remdups ?ks))))"
      by (rule inj_on_subset [OF inj]) (use sub in \<open>auto dest: in_set_takeD\<close>)
  qed
qed

text \<open>C9: in every state a node can come to, whatever packets it got and whatever its timers and its user did,
  its close list holds, in the order of their distance, the 1024 keys closest to its own among all keys it was
  ever told, each once.\<close>

theorem close_list_is_closest:
  assumes "(dht_step nb g)\<^sup>*\<^sup>* (NewDHT pk sk) d" "box_ok nb" "length pk = 32"
  shows "map (item_key d) (pl_lst (dh_CloseClientList d)) =
    take 1024 (sort_key (id_dist pk) (remdups (map cd_Pubkey (dh_clients d))))"
  using closest_keys [OF dht_reachable_ok(1) [OF assms]] dht_reachable_ok(2) [OF assms] by simp


section \<open>Nodes on the wire\<close>

lemma gopp_okD:
  assumes "gopp_ok g"
  shows "n + length x \<le> length b \<Longrightarrow> gp_WBufAt g b n x = go_copy_at n b x"
    "n \<le> length b \<Longrightarrow> gp_RBufAt g b (int n) = Some (drop n b)"
    "n \<le> length b \<Longrightarrow> gp_Readn g b n = (take n b, drop n b)"
  using assms by (simp_all add: gopp_ok_def)

text \<open>An address the wire format carries: UDP over IPv4.\<close>

definition wire_addr :: "Addr \<Rightarrow> bool" where
  "wire_addr a \<longleftrightarrow> \<not> ad_tcp a \<and> length (ad_IP a) = 4 \<and> 0 \<le> ad_Port a \<and> ad_Port a < 65536"

lemma pack_ip_port_v4:
  assumes "gopp_ok g" "wire_addr a"
  shows "pack_ip_port g a = Some (2 # ad_IP a @ put_u16 (of_int (ad_Port a)))"
proof -
  have "go_copy_at 5 (2 # ad_IP a @ [0, 0]) (put_u16 w) = 2 # ad_IP a @ put_u16 w" for w
    using assms(2) by (simp add: go_copy_at_def wire_addr_def)
  then show ?thesis
    using assms by (simp add: pack_ip_port_def bracketed_def wire_addr_def To4_def gopp_okD(1) [OF assms(1)] Let_def)
qed

lemma buf_read_append: "length ip = n \<Longrightarrow> buf_read n (ip @ r) = (ip, r)"
  by (simp add: buf_read_def go_copy_def)

lemma buf_u16_append: "buf_u16 (put_u16 w @ r) = (w, r)"
  by (simp add: buf_u16_def)

lemma uint_port: "0 \<le> p \<Longrightarrow> p < 65536 \<Longrightarrow> uint (of_int p :: u16) = p"
  by (simp add: uint_word_of_int)

lemma read_node_v4:
  assumes "gopp_ok g" "length ip = 4" "length k = 32"
  shows "read_node g (pre @ (2 # ip @ put_u16 w) @ k @ rest) (length pre) =
    Some (\<lparr>ad_tcp = False, ad_IP = ip, ad_Port = uint w\<rparr>, k, length pre + 39)"
proof -
  have "gp_RBufAt g (pre @ (2 # ip @ put_u16 w) @ k @ rest) (int (length pre)) = Some (2 # ip @ put_u16 w @ k @ rest)"
    using gopp_okD(2) [OF assms(1), of "length pre" "pre @ (2 # ip @ put_u16 w) @ k @ rest"] by simp
  moreover have "gp_Readn g (k @ rest) 32 = (k, rest)" using gopp_okD(3) [OF assms(1), of 32 "k @ rest"] assms(3) by simp
  ultimately show ?thesis
    using assms(2,3)
    by (simp add: read_node_def buf_byte_def Let_def buf_read_append buf_u16_append NewCryptoKey_def res_option_def)
qed

text \<open>The nodes of a packet, told one after the other.\<close>

fun learn :: "(nat \<Rightarrow> int \<times> int \<times> int) \<Rightarrow> nat \<Rightarrow> (Addr \<times> bytes) list \<Rightarrow> DHT \<Rightarrow> DHT option" where
  "learn clk i [] d = Some d"
| "learn clk i ((a, k) # ns) d = (let (t1, t2, t3) = clk i in process_node t1 t2 t3 a k d \<bind> learn clk (i + 1) ns)"

definition wire_node :: "Addr \<times> bytes \<Rightarrow> bool" where
  "wire_node n \<longleftrightarrow> wire_addr (fst n) \<and> length (snd n) = 32"

definition node_bytes :: "Addr \<times> bytes \<Rightarrow> bytes" where
  "node_bytes n = (2 # ad_IP (fst n) @ put_u16 (of_int (ad_Port (fst n)))) @ snd n"

lemma length_node_bytes: "wire_node n \<Longrightarrow> length (node_bytes n) = 39"
  by (simp add: node_bytes_def wire_node_def wire_addr_def)

lemma pack_nodes:
  assumes "gopp_ok g" "\<forall>n \<in> set ns. wire_node n"
  shows "each (\<lambda>(a, k) buf. do { p \<leftarrow> pack_ip_port g a; Some (buf @ p @ k) }) ns b = Some (b @ concat (map node_bytes ns))"
  using assms(2)
  by (induction ns arbitrary: b) (auto simp: pack_ip_port_v4 [OF assms(1)] wire_node_def node_bytes_def)

lemma read_nodes_packed:
  assumes "gopp_ok g" "\<forall>n \<in> set ns. wire_node n"
  shows "read_nodes g clk (pre @ concat (map node_bytes ns) @ rest) i (length ns) (length pre) d = learn clk i ns d"
  using assms(2)
proof (induction ns arbitrary: pre i d)
  case (Cons n ns)
  obtain a k where n: "n = (a, k)" by (cases n)
  have w: "wire_addr a" "length k = 32" using Cons.prems n by (simp_all add: wire_node_def)
  obtain t1 t2 t3 where t: "clk i = (t1, t2, t3)" by (cases "clk i") auto
  have "\<lparr>ad_tcp = False, ad_IP = ad_IP a, ad_Port = uint (of_int (ad_Port a) :: u16)\<rparr> = a"
    using w(1) uint_port by (simp add: wire_addr_def)
  then have "read_node g (pre @ concat (map node_bytes (n # ns)) @ rest) (length pre) = Some (a, k, length pre + 39)"
    using read_node_v4 [OF assms(1), of "ad_IP a" k pre "of_int (ad_Port a)" "concat (map node_bytes ns) @ rest"] w
    by (simp add: n node_bytes_def wire_addr_def)
  moreover have "read_nodes g clk (pre @ concat (map node_bytes (n # ns)) @ rest) (i + 1) (length ns) (length pre + 39) =
      learn clk (i + 1) ns"
  proof
    show "read_nodes g clk (pre @ concat (map node_bytes (n # ns)) @ rest) (i + 1) (length ns) (length pre + 39) e =
        learn clk (i + 1) ns e" for e
      using Cons.IH [of "pre @ node_bytes n" "i + 1" e] Cons.prems length_node_bytes [of n] by simp
  qed
  ultimately show ?case by (simp add: n t)
qed simp


section \<open>A lookup\<close>

text \<open>Cached keys are the ones that would be computed.\<close>

definition cached :: "nacl \<Rightarrow> DHT \<Rightarrow> bool" where
  "cached nb d \<longleftrightarrow>
    (\<forall>k v. dh_SharedKeysSent d k = Some v \<longrightarrow> sk_Shrkey v = nb_Precompute nb k (dh_SelfSeckey d)) \<and>
    (\<forall>k v. dh_SharedKeysRecv d k = Some v \<longrightarrow> sk_Shrkey v = nb_Precompute nb k (dh_SelfSeckey d))"

lemma cached_keys:
  assumes "cached nb d"
  shows "fst (GetSharedKeySent nb k d) = nb_Precompute nb k (dh_SelfSeckey d)"
    "fst (GetSharedKeyRecv nb k d) = nb_Precompute nb k (dh_SelfSeckey d)"
  using assms by (auto simp: cached_def GetSharedKeySent_def GetSharedKeyRecv_def GetSharedKey_def CBBeforeNm_def
      Let_def split: option.splits)

lemma GetSharedKeySent_again:
  "GetSharedKeySent nb k (WriteTo p a (snd (GetSharedKeySent nb k d))) =
    (fst (GetSharedKeySent nb k d), WriteTo p a (snd (GetSharedKeySent nb k d)))"
  by (auto simp: GetSharedKeySent_def GetSharedKey_def WriteTo_def Let_def split: option.splits)

lemma GetNodes_packet:
  assumes "box_ok nb" "cached nb d"
  shows "GetNodes nb rs addr pk cid d =
    Some (WriteTo (2 # dh_SelfPubkey d @ snd (rs (length (dh_sent d))) @
        nb_Seal nb (nb_Precompute nb pk (dh_SelfSeckey d)) (snd (rs (length (dh_sent d))))
          (cid @ put_u64 (fst (rs (length (dh_sent d)))))) addr (snd (GetSharedKeySent nb pk d)))"
proof -
  have "dh_SelfPubkey (snd (GetSharedKeySent nb pk d)) = dh_SelfPubkey d"
    using tables_pair [OF tables_shared_sent [of nb pk d]] by simp
  then show ?thesis
    using cached_keys(1) [OF assms(2)] by (simp add: GetNodes_def CreatePacket_box [OF assms(1)] split_beta Let_def)
qed

lemma sent_frame [simp]:
  "dh_sent (snd (GetSharedKeySent nb k d)) = dh_sent d" "dh_SelfSeckey (snd (GetSharedKeySent nb k d)) = dh_SelfSeckey d"
  "dh_sent (snd (GetSharedKeyRecv nb k d)) = dh_sent d"
  by (simp_all add: GetSharedKeySent_def GetSharedKeyRecv_def split_beta Let_def)

lemma get_close_nodes_tables:
  assumes "tables d = tables e"
  shows "get_close_nodes now rnd d = get_close_nodes now rnd e"
proof -
  have "deref d p = deref e p" for p using tables_pair [OF assms] by (cases p) simp_all
  then have "item_cmp now d x y = item_cmp now e x y" for x y
    using tables_pair [OF assms] by (cases x; cases y) (simp_all add: ClientData_Compare_def NodeFormat_Compare_def)
  then have "item_cmp now d = item_cmp now e" by (intro ext)
  then show ?thesis
    using tables_item(1) [OF assms] tables_pair [OF assms] by (simp add: get_close_nodes_def)
qed

text \<open>The answer to a request.\<close>

lemma HandleGetNodes_answer:
  assumes "box_ok nb" "gopp_ok g" "cached nb b" "length pka = 32" "length nonce = 24" "length cid = 32" "length ping = 8"
    and "get_close_nodes now rnd b = Some ns" "ns \<noteq> []" "\<forall>n \<in> set ns. wire_node n"
  shows "HandleGetNodes nb g rs now rnd addr
      (2 # pka @ nonce @ nb_Seal nb (nb_Precompute nb pka (dh_SelfSeckey b)) nonce (cid @ ping)) b =
    Some (WriteTo (4 # dh_SelfPubkey b @ snd (rs (length (dh_sent b))) @
        nb_Seal nb (nb_Precompute nb pka (dh_SelfSeckey b)) (snd (rs (length (dh_sent b))))
          (of_nat (length ns) # concat (map node_bytes ns) @ ping)) addr (snd (GetSharedKeyRecv nb pka b)))"
proof -
  define b1 where "b1 = snd (GetSharedKeyRecv nb pka b)"
  have t: "tables b1 = tables b" by (simp add: b1_def)
  have "sendnodes_ipv6 nb g rs now rnd addr ping (nb_Precompute nb pka (dh_SelfSeckey b)) b1 =
    Some (WriteTo (4 # dh_SelfPubkey b @ snd (rs (length (dh_sent b))) @
        nb_Seal nb (nb_Precompute nb pka (dh_SelfSeckey b)) (snd (rs (length (dh_sent b))))
          (of_nat (length ns) # concat (map node_bytes ns) @ ping)) addr b1)"
    using assms(8,9) get_close_nodes_tables [OF t, of now rnd] pack_nodes [OF assms(2,10)] tables_pair [OF t]
    by (simp add: sendnodes_ipv6_def CreatePacket_box [OF assms(1)]) (simp add: b1_def)
  then show ?thesis
    using assms(4-7) cached_keys(2) [OF assms(3)] DecryptDataSymmetric_ok [OF assms(1)]
    by (simp add: HandleGetNodes_def NewCryptoKey_def NewCBNonce_def res_option_def decrypt_or_empty_def split_beta
        Let_def b1_def)
qed

lemma put_nodes_clients:
  "AddNode t f n d = Some e \<Longrightarrow> dh_clients e = dh_clients d"
  by (auto simp: AddNode_def friend_put_def upd_node_def upd_friend_def Let_def bind_eq_Some_conv split: if_splits)

lemma each_inv:
  "each f xs s = Some t \<Longrightarrow> (\<And>x s t. x \<in> set xs \<Longrightarrow> f x s = Some t \<Longrightarrow> P s \<Longrightarrow> P t) \<Longrightarrow> P s \<Longrightarrow> P t"
  by (induction xs arbitrary: s) (auto simp: bind_eq_Some_conv)

lemma process_node_clients:
  assumes "process_node t1 t2 t3 a k d = Some e"
  shows "map (\<lambda>c. (cd_Addr c, cd_Pubkey c)) (dh_clients e) = map (\<lambda>c. (cd_Addr c, cd_Pubkey c)) (dh_clients d) @ [(a, k)]"
proof -
  obtain xs d4 where e: "each (\<lambda>itemi d'. do { f \<leftarrow> as_friend itemi; AddNode t3 f (length (dh_nodes d)) d' })
      xs d4 = Some e" "dh_clients d4 = dh_clients d @ [\<lparr>cd_Pubkey = k, cd_Addr = a, cd_Timestamp = t1,
       cd_LastPinged = t2, cd_RetAddr = a, cd_RetTimestamp = t3, cd_cmppk = SelfKey\<rparr>]"
    using assms unfolding process_node_def Let_def bind_eq_Some_conv
    by (elim exE conjE) (rule that, assumption, simp)
  have "dh_clients e = dh_clients d4"
    by (rule each_inv [OF e(1), where P = "\<lambda>s. dh_clients s = dh_clients d4"])
       (auto simp: bind_eq_Some_conv dest: put_nodes_clients)
  then show ?thesis using e by simp
qed


lemma learn_clients:
  assumes "dht_ok d" "\<forall>n \<in> set ns. length (snd n) = 32"
  shows "\<exists>e. learn clk i ns d = Some e \<and> good d e \<and>
    map (\<lambda>c. (cd_Addr c, cd_Pubkey c)) (dh_clients e) = map (\<lambda>c. (cd_Addr c, cd_Pubkey c)) (dh_clients d) @ ns"
  using assms
proof (induction ns arbitrary: i d)
  case (Cons n ns)
  obtain a k where n: "n = (a, k)" by (cases n)
  obtain t1 t2 t3 where t: "clk i = (t1, t2, t3)" by (cases "clk i") auto
  obtain d1 where d1: "process_node t1 t2 t3 a k d = Some d1" "good d d1"
    using process_node_safe [OF Cons.prems(1)] Cons.prems(2) n by (metis list.set_intros(1) snd_conv)
  have "dht_ok d1" using d1(2) by (simp add: good_def)
  moreover have "\<forall>n \<in> set ns. length (snd n) = 32" using Cons.prems(2) by simp
  ultimately obtain e where e: "learn clk (i + 1) ns d1 = Some e" "good d1 e"
    "map (\<lambda>c. (cd_Addr c, cd_Pubkey c)) (dh_clients e) = map (\<lambda>c. (cd_Addr c, cd_Pubkey c)) (dh_clients d1) @ ns"
    using Cons.IH by blast
  have "learn clk i (n # ns) d = Some e" using d1(1) e(1) by (simp add: n t)
  then show ?case using e(3) process_node_clients [OF d1(1)] good_trans [OF d1(2) e(2)] n by auto
qed (simp add: good_refl)

text \<open>The handling of an answer.\<close>

lemma HandleSendNodes_answer:
  assumes "box_ok nb" "gopp_ok g" "GetSharedKeySent nb pkb a = (k, a)" "length pkb = 32" "length nonce = 24" "length ping = 8"
    and "\<forall>n \<in> set ns. wire_node n" "length ns \<le> 4"
  shows "HandleSendNodesIpv6 nb g clk (4 # pkb @ nonce @
      nb_Seal nb k nonce (of_nat (length ns) # concat (map node_bytes ns) @ ping)) a = learn clk 0 ns a"
proof -
  let ?plain = "of_nat (length ns) # concat (map node_bytes ns) @ ping"
  have num: "unat (of_nat (length ns) :: byte) = length ns" using assms(8) by (simp add: unat_of_nat)
  have "int (length ?plain) - 8 = int (length ?plain - 8)" using assms(6) by simp
  then have "gp_RBufAt g ?plain (int (length ?plain) - 8) = Some (drop (length ?plain - 8) ?plain)"
    using gopp_okD(2) [OF assms(2), of "length ?plain - 8" ?plain] by (metis diff_le_self)
  moreover have "read_nodes g clk ?plain 0 (length ns) 1 a = learn clk 0 ns a"
    using read_nodes_packed [OF assms(2,7), of clk "[of_nat (length ns)]" ping 0 a] by simp
  ultimately show ?thesis
    using assms(3-5) num DecryptDataSymmetric_ok [OF assms(1)]
    by (simp add: HandleSendNodesIpv6_def NewCryptoKey_def NewCBNonce_def res_option_def decrypt_or_empty_def
        buf_byte_def Let_def del: gopp.simps)
qed

lemma picked_nodes:
  assumes "dht_ok d" "get_close_nodes now rnd d = Some ns"
  shows "length ns \<le> 4" "\<forall>n \<in> set ns. length (snd n) = 32"
proof -
  have "\<not> friend_has_client d" using get_close_nodes_outcome [OF assms(1), of now rnd] assms(2) by auto
  then have ns: "length ns \<le> 4" "\<forall>n \<in> set ns. \<exists>c \<in> set (dh_clients d). n = (cd_Addr c, cd_Pubkey c)"
    using get_close_nodes_outcome [OF assms(1), of now rnd] assms(2) by auto
  show "length ns \<le> 4" by (rule ns(1))
  show "\<forall>n \<in> set ns. length (snd n) = 32" using ns(2) assms(1) unfolding dht_ok_def objs_ok_def by fastforce
qed

text \<open>C10: A lookup works end to end.  A node that asks another for nodes sends it one packet; the other answers
  that packet with one packet, which carries the nodes it picked from its tables; and the first, given the answer,
  ends with exactly these nodes added to those it was told before, with their addresses and in their order.
  The nodes are on UDP and IPv4.\<close>

theorem lookup_roundtrip:
  assumes "box_ok nb" "dh_ok nb base" "gopp_ok g" "length ska = 32" "length skb = 32" "length cid = 32"
    and "dh_SelfPubkey a = base ska" "dh_SelfSeckey a = ska" "dh_SelfPubkey b = base skb" "dh_SelfSeckey b = skb"
    and "cached nb a" "cached nb b" "dht_ok a" "dht_ok b"
    and "\<forall>n. length (snd (rs n)) = 24"
    and "get_close_nodes now rnd b = Some ns" "ns \<noteq> []" "\<forall>n \<in> set ns. wire_addr (fst n)"
  shows "\<exists>a1 req b1 reply a2.
    GetNodes nb rs addrb (base skb) cid a = Some a1 \<and> dh_sent a1 = dh_sent a @ [(req, addrb)] \<and>
    HandleGetNodes nb g rs now rnd addra req b = Some b1 \<and> dh_sent b1 = dh_sent b @ [(reply, addra)] \<and>
    HandleSendNodesIpv6 nb g clk reply a1 = Some a2 \<and> dht_ok a2 \<and>
    map (\<lambda>c. (cd_Addr c, cd_Pubkey c)) (dh_clients a2) = map (\<lambda>c. (cd_Addr c, cd_Pubkey c)) (dh_clients a) @ ns"
proof -
  let ?k = "nb_Precompute nb (base ska) skb" and ?na = "snd (rs (length (dh_sent a)))" and ?nb = "snd (rs (length (dh_sent b)))"
  let ?ping = "put_u64 (fst (rs (length (dh_sent a))))"
  have dh: "nb_Precompute nb (base skb) ska = ?k" "length (base ska) = 32" "length (base skb) = 32"
    using assms(2,4,5) by (auto simp: dh_ok_def)
  note len = picked_nodes(1) [OF assms(14,16)] and keys = picked_nodes(2) [OF assms(14,16)]
  have wire: "\<forall>n \<in> set ns. wire_node n" using assms(18) keys by (simp add: wire_node_def)
  define a0 req a1 where "a0 = snd (GetSharedKeySent nb (base skb) a)"
    and "req = 2 # base ska @ ?na @ nb_Seal nb ?k ?na (cid @ ?ping)" and "a1 = WriteTo req addrb a0"
  have a1: "GetNodes nb rs addrb (base skb) cid a = Some a1"
    using GetNodes_packet [OF assms(1,11), of rs addrb "base skb" cid] dh(1) assms(7,8) by (simp add: a1_def req_def a0_def)
  define reply where "reply = 4 # base skb @ ?nb @ nb_Seal nb ?k ?nb (of_nat (length ns) # concat (map node_bytes ns) @ ?ping)"
  have b1: "HandleGetNodes nb g rs now rnd addra req b = Some (WriteTo reply addra (snd (GetSharedKeyRecv nb (base ska) b)))"
    using HandleGetNodes_answer [OF assms(1,3,12) dh(2) _ assms(6) _ assms(16,17) wire, of ?na ?ping rs addra] assms(9,10,15)
    by (simp add: req_def reply_def)
  have "GetSharedKeySent nb (base skb) a1 = (?k, a1)"
    using GetSharedKeySent_again [of nb "base skb" req addrb a] cached_keys(1) [OF assms(11)] dh(1) assms(8)
    by (simp add: a1_def a0_def)
  then have h: "HandleSendNodesIpv6 nb g clk reply a1 = learn clk 0 ns a1"
    using HandleSendNodes_answer [OF assms(1,3) _ dh(3) _ _ wire len, of a1 ?k ?nb ?ping clk] assms(15)
    by (simp add: reply_def)
  have t: "tables a1 = tables a" by (simp add: a1_def a0_def)
  have "dht_ok a1" "dh_clients a1 = dh_clients a" using tables_ok [OF t] assms(13) tables_pair [OF t] by simp_all
  then obtain a2 where a2: "learn clk 0 ns a1 = Some a2" "good a1 a2"
    "map (\<lambda>c. (cd_Addr c, cd_Pubkey c)) (dh_clients a2) = map (\<lambda>c. (cd_Addr c, cd_Pubkey c)) (dh_clients a) @ ns"
    using learn_clients [OF _ keys, of a1 clk 0] by auto
  let ?b1 = "WriteTo reply addra (snd (GetSharedKeyRecv nb (base ska) b))"
  have s: "dh_sent a1 = dh_sent a @ [(req, addrb)]" "dh_sent ?b1 = dh_sent b @ [(reply, addra)]"
    by (simp_all add: a1_def a0_def WriteTo_def)
  have ok: "dht_ok a2" using a2(2) by (simp add: good_def)
  show ?thesis
    by (intro exI conjI, rule a1, rule s(1), rule b1, rule s(2), rule h [unfolded a2(1)], rule ok, rule a2(3))
qed


section \<open>Requests to a node with a friend\<close>

definition has_client :: "nat \<Rightarrow> DHT \<Rightarrow> bool" where
  "has_client f d \<longleftrightarrow> pl_lst (df_ClientList (dh_friends d ! f)) \<noteq> []"

lemma friend_put_client:
  assumes "friend_put now f n d = Some e" "dht_ok d" "f < length (dh_friends d)"
  shows "has_client f e" "has_client g d \<Longrightarrow> has_client g e"
proof -
  have cl: "pl_inv (item_key d) (df_ClientList (dh_friends d ! f))" "pl_max (df_ClientList (dh_friends d ! f)) = 8"
    using friend_ok_nth [OF assms(2,3)] by (simp_all add: friend_ok_def plist_def)
  obtain l tb where l: "Put (item_key d) (item_cmp now d) (NodeP n) (df_ClientList (dh_friends d ! f)) = Some l"
    "e = upd_friend f (\<lambda>fr. fr\<lparr>df_ClientList := l, df_ToBootstrap := tb\<rparr>) d"
    using assms(1) by (auto simp: friend_put_def bind_eq_Some_conv)
  have ne: "pl_lst l \<noteq> []" using Put_nonempty [OF cl(1) _ l(1)] cl(2) by simp
  then show "has_client f e" using l(2) assms(3) by (simp add: has_client_def upd_friend_def)
  show "has_client g d \<Longrightarrow> has_client g e"
    using ne l(2) assms(3) by (cases "g = f") (simp_all add: has_client_def upd_friend_def)
qed

lemma AddNode_client:
  assumes "AddNode now f n d = Some e" "dht_ok d" "f < length (dh_friends d)" "n < length (dh_nodes d)"
  shows "has_client f e" "has_client g d \<Longrightarrow> has_client g e" "dh_FriendsList e = dh_FriendsList d"
proof -
  let ?p = "df_cmppk (dh_friends d ! f)"
  let ?u = "upd_node n (\<lambda>nf. nf\<lparr>nf_cmppk := ?p\<rparr>) d"
  have "key_ok ?p"
    using assms(2) nth_mem [OF assms(3)] unfolding dht_ok_def objs_ok_def by (simp add: key_ok_def)
  then have u: "dht_ok ?u" using upd_node_good [OF assms(2,4)] by (simp add: good_def)
  have f: "f < length (dh_friends ?u)" "has_client g ?u \<longleftrightarrow> has_client g d"
    using assms(3) by (simp_all add: upd_node_def has_client_def)
  show "has_client f e" "has_client g d \<Longrightarrow> has_client g e"
    using assms(1) friend_put_client [OF _ u f(1)] friend_put_client [OF _ assms(2,3)] f(2)
    by (auto simp: AddNode_def Let_def split: if_splits)
  show "dh_FriendsList e = dh_FriendsList d"
    using assms(1)
    by (auto simp: AddNode_def friend_put_def upd_friend_def upd_node_def bind_eq_Some_conv Let_def split: if_splits)
qed

lemma tell_friends_client:
  assumes "each (\<lambda>itemi d. do { f \<leftarrow> as_friend itemi; AddNode t f n d }) xs d = Some e"
    and "dht_ok d" "n < length (dh_nodes d)" "\<And>x. x \<in> set xs \<Longrightarrow> valid d Friend x"
  shows "(xs \<noteq> [] \<longrightarrow> (\<exists>f. hd xs = FriendP f \<and> has_client f e)) \<and> (has_client g d \<longrightarrow> has_client g e) \<and>
    dh_FriendsList e = dh_FriendsList d"
  using assms
proof (induction xs arbitrary: d g)
  case (Cons x xs)
  obtain f where f: "x = FriendP f" "f < length (dh_friends d)" using valid_tag(3) Cons.prems(4) by force
  obtain d1 where d1: "AddNode t f n d = Some d1"
    "each (\<lambda>itemi d. do { f \<leftarrow> as_friend itemi; AddNode t f n d }) xs d1 = Some e"
    using Cons.prems(1) by (auto simp: f(1) bind_eq_Some_conv)
  have "good d d1" using AddNode_safe [OF Cons.prems(2) f(2) Cons.prems(3), of t] d1(1) by simp
  then have ok1: "dht_ok d1" "ext d d1" by (simp_all add: good_def)
  have "n < length (dh_nodes d1)" using ext_valid(1) [OF ok1(2), of Node "NodeP n"] Cons.prems(3) by simp
  moreover have "valid d1 Friend y" if "y \<in> set xs" for y using ext_valid(1) [OF ok1(2)] Cons.prems(4) that by simp
  ultimately have rest: "(has_client h d1 \<longrightarrow> has_client h e) \<and> dh_FriendsList e = dh_FriendsList d1" for h
    using Cons.IH [OF d1(2) ok1(1)] by blast
  show ?case
    using rest AddNode_client [OF d1(1) Cons.prems(2) f(2) Cons.prems(3)] f(1) by auto
qed simp


lemma process_node_client:
  assumes "dht_ok d" "length k = 32" "pl_lst (dh_FriendsList d) \<noteq> []" "process_node t1 t2 t3 a k d = Some e"
  shows "friend_has_client e"
proof -
  obtain d4 where d4: "good d d4" "length (dh_nodes d) < length (dh_nodes d4)" "dh_FriendsList d4 = dh_FriendsList d"
    "process_node t1 t2 t3 a k d =
      each (\<lambda>itemi d'. do { f \<leftarrow> as_friend itemi; AddNode t3 f (length (dh_nodes d)) d' }) (pl_lst (dh_FriendsList d4)) d4"
    using process_node_stores [OF assms(1,2)] by blast
  have ok: "dht_ok d4" using d4(1) by (simp add: good_def)
  obtain f where "hd (pl_lst (dh_FriendsList d4)) = FriendP f" "has_client f e" "dh_FriendsList e = dh_FriendsList d4"
    using tell_friends_client [OF _ ok d4(2) list_valid(1) [OF ok]] assms(3,4) d4(3,4) by metis
  then show ?thesis
    using d4(3) hd_in_set [OF assms(3)] unfolding friend_has_client_def has_client_def by (intro exI [of _ f]) simp
qed

lemma no_answer: "get_close_nodes now rnd d = None \<Longrightarrow> sendnodes_ipv6 nb g rs now rnd addr sb k d = None"
  by (simp add: sendnodes_ipv6_def)

lemma HandleGetNodes_fails:
  assumes "dht_ok d" "friend_has_client d"
  shows "HandleGetNodes nb g rs now rnd addr data d = None"
proof -
  have "get_close_nodes now rnd d = None" using get_close_nodes_outcome [OF assms(1), of now rnd] assms(2) by simp
  then have "get_close_nodes now rnd (snd (GetSharedKeyRecv nb pk d)) = None" for pk
    using get_close_nodes_tables [OF tables_shared_recv] by simp
  then have "sendnodes_ipv6 nb g rs now rnd addr sb k (snd (GetSharedKeyRecv nb pk d)) = None" for sb k pk
    by (rule no_answer)
  then show ?thesis
    by (simp add: HandleGetNodes_def split_beta Let_def split: Option.bind_split)
qed

text \<open>C37: A node that has a friend and is told of any node panics on the next request for nodes, whoever sends it
  and whatever it holds: the friend's list of clients then has an item of type \<^verbatim>\<open>*NodeFormat\<close>, which
  \<^verbatim>\<open>get_close_nodes\<close> asserts to be a \<^verbatim>\<open>*ClientData\<close>.  Its user cannot add another friend either.\<close>

theorem friend_makes_requests_fatal:
  assumes "(dht_step nb g)\<^sup>*\<^sup>* (NewDHT pk sk) d" "box_ok nb" "length pk = 32"
    and "pl_lst (dh_FriendsList d) \<noteq> []" "length k = 32"
  shows "\<exists>e. process_node t1 t2 t3 a k d = Some e \<and> HandleGetNodes nb g rs now rnd addr data e = None \<and>
    (length fk = 32 \<and> GetByKey fk (dh_FriendsList e) = None \<longrightarrow> AddFriend now fk e = None)"
proof -
  have ok: "dht_ok d" by (rule dht_reachable_ok [OF assms(1-3)])
  obtain e where e: "process_node t1 t2 t3 a k d = Some e" "dht_ok e"
    using process_node_safe [OF ok assms(5), of t1 t2 t3 a] by (auto simp: good_def)
  have "friend_has_client e" by (rule process_node_client [OF ok assms(5,4) e(1)])
  then show ?thesis using e HandleGetNodes_fails AddFriend_outcome [OF e(2), of fk now] by auto
qed


text \<open>C12: In every state a node can come to, each list holds items of one type that are in the store; so neither of
  the timers can fail a type assertion, and a request for nodes fails one exactly when a friend has a client.\<close>

theorem dht_item_types:
  assumes "(dht_step nb g)\<^sup>*\<^sup>* (NewDHT pk sk) d" "box_ok nb" "length pk = 32"
  shows "(\<forall>x \<in> set (pl_lst (dh_CloseClientList d)). \<exists>i < length (dh_clients d). x = ClientP i) \<and>
    (\<forall>x \<in> set (pl_lst (dh_ToBootstrap d)). \<exists>i < length (dh_nodes d). x = NodeP i) \<and>
    (\<forall>x \<in> set (pl_lst (dh_FriendsList d)). \<exists>f < length (dh_friends d). x = FriendP f \<and>
       (\<forall>y \<in> set (pl_lst (df_ClientList (dh_friends d ! f))). \<exists>i < length (dh_nodes d). y = NodeP i)) \<and>
    doClosest nb rs r1 r2 r3 now d \<noteq> None \<and> doDHTFriends nb rs rnd d \<noteq> None \<and>
    (get_close_nodes now rnd d = None \<longleftrightarrow> friend_has_client d)"
proof -
  have ok: "dht_ok d" by (rule dht_reachable_ok [OF assms])
  have "doClosest nb rs r1 r2 r3 now d \<noteq> None" "doDHTFriends nb rs rnd d \<noteq> None"
    using doClosest_safe [OF ok assms(2)] doDHTFriends_safe [OF ok assms(2)] by (metis option.distinct(1))+
  moreover have "get_close_nodes now rnd d = None \<longleftrightarrow> friend_has_client d"
    using get_close_nodes_outcome [OF ok, of now rnd] by (auto split: if_splits)
  ultimately show ?thesis
    using list_valid [OF ok] valid_tag by (metis (no_types, opaque_lifting))
qed

text \<open>A node with an IPv6 address is not understood by its receiver: the port is written over the fifth and
  sixth byte of the address, and the receiver reads a changed address with port 0.\<close>

theorem ipv6_node_is_changed:
  assumes "gopp_ok g" "\<not> ad_tcp a" "length (ad_IP a) = 16" "take 12 (ad_IP a) \<noteq> v4InV6Prefix" "length k = 32"
  shows "\<exists>p. pack_ip_port g a = Some p \<and> read_node g (p @ k @ rest) 0 =
    Some (\<lparr>ad_tcp = False, ad_IP = take 4 (ad_IP a) @ put_u16 (of_int (ad_Port a)) @ drop 6 (ad_IP a), ad_Port = 0\<rparr>, k, 51)"
proof -
  let ?w = "put_u16 (of_int (ad_Port a))" and ?ip = "ad_IP a"
  let ?p = "10 # (take 4 ?ip @ ?w @ drop 6 ?ip) @ put_u16 0"
  have z: "put_u16 0 = [0, 0]" by (simp add: put_u16_def numeral_2_eq_2)
  have "go_copy_at 5 (10 # ?ip @ [0, 0]) ?w = ?p"
    using assms(3) by (simp add: go_copy_at_def go_copy_def z)
  then have pack: "pack_ip_port g a = Some ?p"
    using assms gopp_okD(1) [OF assms(1), of 5 ?w "10 # ?ip @ [0, 0]"] by (simp add: pack_ip_port_def bracketed_def Let_def)
  have "gp_RBufAt g (?p @ k @ rest) (int 0) = Some (?p @ k @ rest)"
    using gopp_okD(2) [OF assms(1), of 0 "?p @ k @ rest"] by simp
  moreover have "buf_read 16 ((take 4 ?ip @ ?w @ drop 6 ?ip) @ put_u16 0 @ k @ rest) =
      (take 4 ?ip @ ?w @ drop 6 ?ip, put_u16 0 @ k @ rest)"
    using assms(3) by (intro buf_read_append) simp
  moreover have "gp_Readn g (k @ rest) 32 = (k, rest)" using gopp_okD(3) [OF assms(1), of 32 "k @ rest"] assms(5) by simp
  ultimately have "read_node g (?p @ k @ rest) 0 =
      Some (\<lparr>ad_tcp = False, ad_IP = take 4 ?ip @ ?w @ drop 6 ?ip, ad_Port = 0\<rparr>, k, 51)"
    using assms(3,5)
    by (simp add: read_node_def buf_byte_def buf_u16_append NewCryptoKey_def res_option_def Let_def)
  then show ?thesis using pack by blast
qed


section \<open>An example\<close>

definition demo_gopp :: gopp where
  "demo_gopp = \<lparr>gp_WBufAt = (\<lambda>b n x. go_copy_at n b x),
     gp_RBufAt = (\<lambda>b n. if 0 \<le> n \<and> n \<le> int (length b) then Some (drop (nat n) b) else None),
     gp_Readn = (\<lambda>b n. (take n b, drop n b))\<rparr>"

lemma demo_gopp_ok: "gopp_ok demo_gopp"
  by (simp add: gopp_ok_def demo_gopp_def)

definition demo_nodes :: "(Addr \<times> bytes) list" where
  "demo_nodes = [(\<lparr>ad_tcp = False, ad_IP = [10, 0, 0, 1], ad_Port = 33445\<rparr>, replicate 31 0 @ [5]),
     (\<lparr>ad_tcp = False, ad_IP = [10, 0, 0, 2], ad_Port = 33446\<rparr>, replicate 31 0 @ [1])]"

definition demo_rs :: rsupply where
  "demo_rs = (\<lambda>_. (7, replicate 24 9))"

abbreviation demo_addr :: Addr where
  "demo_addr \<equiv> \<lparr>ad_tcp = False, ad_IP = [10, 0, 0, 9], ad_Port = 33447\<rparr>"

lemma demo_nodes_wire: "\<forall>n \<in> set demo_nodes. wire_node n"
  by (simp add: demo_nodes_def wire_node_def wire_addr_def)

text \<open>What being told nodes does not change.\<close>

definition session :: "DHT \<Rightarrow> bytes \<times> bytes \<times> (bytes \<rightharpoonup> SharedKey) \<times> (bytes \<rightharpoonup> SharedKey) \<times> PLItem PriorityList" where
  "session d = (dh_SelfPubkey d, dh_SelfSeckey d, dh_SharedKeysSent d, dh_SharedKeysRecv d, dh_FriendsList d)"

lemma AddNode_session: "AddNode t f n d = Some e \<Longrightarrow> session e = session d"
  by (auto simp: session_def AddNode_def friend_put_def upd_node_def upd_friend_def Let_def bind_eq_Some_conv
      split: if_splits)

lemma process_node_session:
  assumes "process_node t1 t2 t3 a k d = Some e"
  shows "session e = session d"
proof -
  obtain xs d4 where e: "each (\<lambda>itemi d'. do { f \<leftarrow> as_friend itemi; AddNode t3 f (length (dh_nodes d)) d' })
      xs d4 = Some e" "session d4 = session d"
    using assms unfolding process_node_def Let_def bind_eq_Some_conv
    by (elim exE conjE) (rule that, assumption, simp add: session_def)
  show ?thesis
    by (rule each_inv [OF e(1), where P = "\<lambda>s. session s = session d"])
       (use e(2) in \<open>auto simp: bind_eq_Some_conv dest: AddNode_session\<close>)
qed

lemma learn_session: "learn clk i ns d = Some e \<Longrightarrow> session e = session d"
proof (induction ns arbitrary: i d)
  case (Cons n ns)
  obtain d1 where d1: "learn clk (i + 1) ns d1 = Some e" "session d1 = session d"
    using Cons.prems by (cases n) (auto simp: bind_eq_Some_conv split_beta Let_def dest: process_node_session)
  then show ?case using Cons.IH [OF d1(1)] by simp
qed simp

text \<open>A node that has asked another and got the two nodes.\<close>

lemma demo_reach:
  assumes "length pk = 32"
  shows "\<exists>d. (dht_step demo_box demo_gopp)\<^sup>*\<^sup>* (NewDHT pk sk) d \<and> map (\<lambda>c. (cd_Addr c, cd_Pubkey c)) (dh_clients d) = demo_nodes"
proof -
  let ?b = "replicate 32 1" and ?d = "NewDHT pk sk"
  have c: "cached demo_box ?d" by (simp add: cached_def NewDHT_def)
  obtain p where p: "Bootstrap demo_box demo_rs demo_addr ?b ?d = Some (WriteTo p demo_addr (snd (GetSharedKeySent demo_box ?b ?d)))"
    using GetNodes_packet [OF demo_box_ok c] by (simp add: Bootstrap_def)
  define a where "a = WriteTo p demo_addr (snd (GetSharedKeySent demo_box ?b ?d))"
  have s1: "dht_step demo_box demo_gopp ?d a" using p unfolding a_def by (rule dht_step.bootstrap)
  then have ok: "dht_ok a" using dht_step_good [OF _ demo_box_ok NewDHT_ok [OF assms]] by (auto simp: good_def)
  obtain e where e: "learn (\<lambda>_. (0, 0, 0)) 0 demo_nodes a = Some e"
    "map (\<lambda>c. (cd_Addr c, cd_Pubkey c)) (dh_clients e) = map (\<lambda>c. (cd_Addr c, cd_Pubkey c)) (dh_clients a) @ demo_nodes"
    using learn_clients [OF ok, where ns = demo_nodes and clk = "\<lambda>_. (0, 0, 0)" and i = 0] demo_nodes_wire
    by (auto simp: wire_node_def)
  have "dh_clients a = []"
    using tables_pair [of a ?d] by (simp add: a_def) (simp add: NewDHT_def)
  moreover have "dht_step demo_box demo_gopp a e"
    using HandleSendNodes_answer [OF demo_box_ok demo_gopp_ok, of ?b a "fst (GetSharedKeySent demo_box ?b ?d)" "replicate 24 0"
      "replicate 8 0" demo_nodes "\<lambda>_. (0, 0, 0)"] GetSharedKeySent_again [of demo_box ?b p demo_addr ?d] demo_nodes_wire e(1)
    by (intro dht_step.send_nodes) (simp add: a_def demo_nodes_def)
  ultimately show ?thesis using s1 e(2) by (intro exI [of _ e]) (simp add: converse_rtranclp_into_rtranclp)
qed


theorem close_list_is_closest_witness:
  "\<exists>d. (dht_step demo_box demo_gopp)\<^sup>*\<^sup>* (NewDHT (replicate 32 0) []) d \<and>
    map (item_key d) (pl_lst (dh_CloseClientList d)) = [replicate 31 0 @ [1], replicate 31 0 @ [5]]"
proof -
  obtain d where d: "(dht_step demo_box demo_gopp)\<^sup>*\<^sup>* (NewDHT (replicate 32 0) []) d"
    "map (\<lambda>c. (cd_Addr c, cd_Pubkey c)) (dh_clients d) = demo_nodes"
    using demo_reach [of "replicate 32 0"] by auto
  have "map snd (map (\<lambda>c. (cd_Addr c, cd_Pubkey c)) (dh_clients d)) = map snd demo_nodes" using d(2) by simp
  then have "map cd_Pubkey (dh_clients d) = [replicate 31 0 @ [5], replicate 31 0 @ [1]]"
    by (simp add: comp_def demo_nodes_def)
  moreover have "sort_key (id_dist (replicate 32 0)) (remdups [replicate 31 0 @ [5], replicate 31 0 @ [1]]) =
      [replicate 31 0 @ [1], replicate 31 0 @ [5]]"
    by code_simp
  ultimately show ?thesis using d(1) close_list_is_closest [OF d(1) demo_box_ok] by auto
qed

theorem lookup_roundtrip_witness:
  "\<exists>a a1 req b b1 reply a2 ns. ns \<noteq> [] \<and> GetNodes demo_box demo_rs demo_addr (replicate 32 1) (replicate 32 2) a = Some a1 \<and>
    dh_sent a1 = dh_sent a @ [(req, demo_addr)] \<and>
    HandleGetNodes demo_box demo_gopp demo_rs 0 (\<lambda>_. 0) demo_addr req b = Some b1 \<and> dh_sent b1 = dh_sent b @ [(reply, demo_addr)] \<and>
    HandleSendNodesIpv6 demo_box demo_gopp (\<lambda>_. (0, 0, 0)) reply a1 = Some a2 \<and>
    map (\<lambda>c. (cd_Addr c, cd_Pubkey c)) (dh_clients a2) = map (\<lambda>c. (cd_Addr c, cd_Pubkey c)) (dh_clients a) @ ns"
proof -
  let ?a = "NewDHT (replicate 32 2) (replicate 32 2)" and ?b = "NewDHT (replicate 32 1) (replicate 32 1)"
  obtain b where b: "learn (\<lambda>_. (0, 0, 0)) 0 demo_nodes ?b = Some b" "good ?b b"
    "map (\<lambda>c. (cd_Addr c, cd_Pubkey c)) (dh_clients b) = demo_nodes"
    using learn_clients [OF NewDHT_ok, of "replicate 32 1" demo_nodes "\<lambda>_. (0, 0, 0)" 0 "replicate 32 1"] demo_nodes_wire
    by (auto simp: wire_node_def NewDHT_def)
  have ses: "dh_SelfPubkey b = replicate 32 1" "dh_SelfSeckey b = replicate 32 1" "cached demo_box b" "pl_lst (dh_FriendsList b) = []"
    using learn_session [OF b(1)] by (simp_all add: session_def NewDHT_def cached_def NewPriorityList_def)
  have "dht_ok b" using b(2) by (simp add: good_def)
  have "closest b" using \<open>dht_ok b\<close> by (rule dht_okD)
  moreover have "told b \<noteq> {}" using b(3) by (auto simp: told_def demo_nodes_def)
  moreover have "finite (told b)" by (simp add: told_def)
  ultimately have "pl_lst (dh_CloseClientList b) \<noteq> []" by (auto simp: closest_def)
  then obtain ns where ns: "get_close_nodes 0 (\<lambda>_. 0) b = Some ns" "ns \<noteq> []"
    "\<forall>n \<in> set ns. \<exists>c \<in> set (dh_clients b). n = (cd_Addr c, cd_Pubkey c)"
    using get_close_nodes_outcome [OF \<open>dht_ok b\<close>, of 0 "\<lambda>_. 0"] ses(4) by (auto simp: friend_has_client_def)
  have "set ns \<subseteq> set demo_nodes" using ns(3) unfolding b(3) [symmetric] by auto
  then have w: "\<forall>n \<in> set ns. wire_addr (fst n)" using demo_nodes_wire by (auto simp: wire_node_def)
  have a: "cached demo_box ?a" "dht_ok ?a" "dh_SelfPubkey ?a = replicate 32 2" "dh_SelfSeckey ?a = replicate 32 2"
    by (simp add: cached_def NewDHT_def) (simp_all add: NewDHT_ok, simp_all add: NewDHT_def)
  have "\<forall>n. length (snd (demo_rs n)) = 24" by (simp add: demo_rs_def)
  from lookup_roundtrip [OF demo_box_ok demo_dh_ok demo_gopp_ok _ _ _ a(3,4) ses(1,2) a(1) ses(3) a(2) \<open>dht_ok b\<close> this ns(1,2) w,
      of "replicate 32 2" demo_addr demo_addr "\<lambda>_. (0, 0, 0)"]
  show ?thesis using ns(2) by (simp only: length_replicate simp_thms) blast
qed

theorem friend_makes_requests_fatal_witness:
  "\<exists>d e. (dht_step demo_box demo_gopp)\<^sup>*\<^sup>* (NewDHT (replicate 32 2) []) d \<and> pl_lst (dh_FriendsList d) = [FriendP 0] \<and>
    process_node 0 0 0 demo_addr (replicate 32 5) d = Some e \<and>
    HandleGetNodes demo_box demo_gopp demo_rs 0 (\<lambda>_. 0) demo_addr [2] e = None"
proof -
  let ?d = "NewDHT (replicate 32 2) []"
  obtain d where d: "AddFriend 0 (replicate 32 3) ?d = Some d" "pl_lst (dh_FriendsList d) = [FriendP 0]"
    by (simp add: AddFriend_def NewDHT_def NewPriorityList_def GetByKey_def Put_def put_pos_Nil drop_excess_def Let_def)
  have r: "(dht_step demo_box demo_gopp)\<^sup>*\<^sup>* ?d d" by (rule r_into_rtranclp, rule dht_step.add_friend [OF d(1)]) simp
  have ne: "pl_lst (dh_FriendsList d) \<noteq> []" by (simp add: d(2))
  show ?thesis
    using friend_makes_requests_fatal [OF r demo_box_ok length_replicate ne length_replicate, where ?t1.0 = 0 and ?t2.0 = 0
        and ?t3.0 = 0 and a = demo_addr and rs = demo_rs and now = 0 and rnd = "\<lambda>_. 0" and addr = demo_addr and data = "[2]" and fk = "[]"]
      r d(2) by blast
qed

theorem dht_item_types_witness:
  "\<exists>d. (dht_step demo_box demo_gopp)\<^sup>*\<^sup>* (NewDHT (replicate 32 2) []) d \<and> dh_clients d \<noteq> [] \<and>
    (\<forall>x \<in> set (pl_lst (dh_CloseClientList d)). \<exists>i < length (dh_clients d). x = ClientP i) \<and>
    doClosest demo_box demo_rs 0 0 0 0 d \<noteq> None \<and> doDHTFriends demo_box demo_rs (\<lambda>_. 0) d \<noteq> None"
proof -
  obtain d where d: "(dht_step demo_box demo_gopp)\<^sup>*\<^sup>* (NewDHT (replicate 32 2) []) d"
    "map (\<lambda>c. (cd_Addr c, cd_Pubkey c)) (dh_clients d) = demo_nodes"
    using demo_reach [of "replicate 32 2"] by auto
  then have "dh_clients d \<noteq> []" by (auto simp: demo_nodes_def)
  then show ?thesis
    using d(1) dht_item_types [OF d(1) demo_box_ok, of demo_rs 0 0 0 0 "\<lambda>_. 0"] by (intro exI [of _ d]) simp
qed

lemma demo_port: "put_u16 (of_int 33445) = [130, 165]"
proof -
  have "unat (33445 :: u16) = 33445" by simp
  moreover have "be_bytes (Suc (Suc 0)) 33445 = [130, 165]" by simp
  ultimately show ?thesis unfolding put_u16_def of_int_numeral by (simp only: numeral_2_eq_2)
qed

theorem ipv6_node_is_changed_witness:
  "\<exists>p. pack_ip_port demo_gopp \<lparr>ad_tcp = False, ad_IP = replicate 16 1, ad_Port = 33445\<rparr> = Some p \<and>
    read_node demo_gopp (p @ replicate 32 7) 0 =
      Some (\<lparr>ad_tcp = False, ad_IP = replicate 4 1 @ [130, 165] @ replicate 10 1, ad_Port = 0\<rparr>, replicate 32 7, 51)"
proof -
  let ?ip = "replicate 16 1 :: bytes"
  have "take 12 ?ip \<noteq> v4InV6Prefix"
  proof
    assume "take 12 ?ip = v4InV6Prefix"
    then have "hd (take 12 ?ip) = hd v4InV6Prefix" by simp
    then show False by (simp add: v4InV6Prefix_def)
  qed
  then show ?thesis
    using ipv6_node_is_changed [OF demo_gopp_ok, of "\<lparr>ad_tcp = False, ad_IP = ?ip, ad_Port = 33445\<rparr>" "replicate 32 7" "[]"]
    unfolding Addr.simps length_replicate demo_port take_replicate drop_replicate append_Nil2 by simp
qed

end
