(* ===== verification/Onion_Announce.thy ===== *)
theory Onion_Announce
  imports Dht_Service
begin

text \<open>
  The announcements of \<^verbatim>\<open>mintox/onion_announce.go\<close>, with the response of \<^verbatim>\<open>onion.go\<close>: a client that proves
  with a ping identifier that it can be reached is stored, and whoever searches for its key is given the key its
  data is to be encrypted with.  Entries are never changed in place, so the priority list holds them as values.
  The hash is an argument.
\<close>

section \<open>Entries\<close>

record Onion_Announce_Entry =
  ae_Pubkey :: bytes
  ae_RetAddr :: Addr
  ae_RetDat :: bytes
  ae_DatPubkey :: bytes
  ae_Timestamp :: int

definition Entry_Compare :: "bytes \<Rightarrow> int \<Rightarrow> Onion_Announce_Entry \<Rightarrow> Onion_Announce_Entry \<Rightarrow> int" where
  "Entry_Compare cmppk now this that =
    (let t1 = IsTimeout4Time now (ae_Timestamp this) 300; t2 = IsTimeout4Time now (ae_Timestamp that) 300 in
     if t1 \<and> t2 then 0 else if t1 then - 1 else if t2 then 1
     else IDClosest cmppk (ae_Pubkey this) (ae_Pubkey that))"

record OnionAnnounce =
  oa_Entries :: "Onion_Announce_Entry PriorityList"
  oa_SecBytes :: bytes
  oa_SharedKeysRecv :: "bytes \<rightharpoonup> SharedKey"

definition NewOnionAnnounce :: "bytes \<Rightarrow> OnionAnnounce" where
  "NewOnionAnnounce secbytes = \<lparr>oa_Entries = NewPriorityList 160, oa_SecBytes = secbytes, oa_SharedKeysRecv = Map.empty\<rparr>"

definition generate_ping_id :: "(bytes \<Rightarrow> bytes) \<Rightarrow> int \<Rightarrow> bytes \<Rightarrow> Addr \<Rightarrow> OnionAnnounce \<Rightarrow> bytes option" where
  "generate_ping_id sha256 t pubkey retaddr oa =
    (if ad_tcp retaddr then None
     else let ts = (t div 1000000000) div 20 in
       Some (sha256 (oa_SecBytes oa @ put_u64 (of_int ts) @ pubkey @ ad_IP retaddr @ put_u16 (of_int (ad_Port retaddr)))))"

definition find_in_entries ::
  "int \<Rightarrow> bytes \<Rightarrow> OnionAnnounce \<Rightarrow> (Onion_Announce_Entry option \<times> OnionAnnounce) option" where
  "find_in_entries now searchpk oa = (case GetByKey searchpk (oa_Entries oa) of
      None \<Rightarrow> Some (None, oa)
    | Some item \<Rightarrow>
        if IsTimeout4Time now (ae_Timestamp item) 300
        then (case Remove ae_Pubkey item (oa_Entries oa) of
                None \<Rightarrow> None
              | Some (ok, l) \<Rightarrow> Some (None, oa\<lparr>oa_Entries := l\<rparr>))
        else Some (Some item, oa))"

definition add_to_entries ::
  "bytes \<Rightarrow> int \<Rightarrow> Addr \<Rightarrow> bytes \<Rightarrow> bytes \<Rightarrow> bytes \<Rightarrow> OnionAnnounce \<Rightarrow> (Onion_Announce_Entry option \<times> OnionAnnounce) option" where
  "add_to_entries selfpk now retaddr pubkey datpubkey retdat oa =
    (let entry = \<lparr>ae_Pubkey = pubkey, ae_RetAddr = retaddr, ae_RetDat = retdat, ae_DatPubkey = datpubkey, ae_Timestamp = now\<rparr> in
     case Put ae_Pubkey (\<lambda>a b. Some (Entry_Compare selfpk now a b)) entry (oa_Entries oa) of
       None \<Rightarrow> None
     | Some l \<Rightarrow> find_in_entries now pubkey (oa\<lparr>oa_Entries := l\<rparr>))"

section \<open>Requests\<close>

text \<open>What the answer says of the entry: nothing stored, stored for another client (with its data key), or
  stored for the client that asks.\<close>

definition entry_status :: "bytes \<Rightarrow> bytes \<Rightarrow> bytes \<Rightarrow> Onion_Announce_Entry option \<Rightarrow> bytes" where
  "entry_status pktpk datpubkey pingid2 inentry = (case inentry of
      None \<Rightarrow> 0 # pingid2
    | Some e \<Rightarrow>
        if ae_Pubkey e = pktpk
        then (if ae_DatPubkey e \<noteq> datpubkey then 0 # pingid2 else 2 # pingid2)
        else 1 # ae_DatPubkey e)"

text \<open>A client that shows a valid ping identifier is stored; any other request is a search.\<close>

definition store_or_find ::
  "bool \<Rightarrow> bytes \<Rightarrow> int \<Rightarrow> Addr \<Rightarrow> bytes \<Rightarrow> bytes \<Rightarrow> bytes \<Rightarrow> bytes \<Rightarrow> OnionAnnounce \<Rightarrow>
   (Onion_Announce_Entry option \<times> OnionAnnounce) option" where
  "store_or_find valid_id selfpk now addr pktpk searchpk datpubkey retdat oa =
    (if valid_id then add_to_entries selfpk now addr pktpk datpubkey retdat oa else find_in_entries now searchpk oa)"

definition SendOnionResponse :: "Addr \<Rightarrow> bytes \<Rightarrow> bytes \<Rightarrow> DHT \<Rightarrow> DHT" where
  "SendOnionResponse dest data retdat d = WriteTo (0x8c # retdat @ data) dest d"

text \<open>A request has 354 bytes: the nonce, the key of the sender, 120 encrypted bytes and the return path.\<close>

definition handleAnnounceRequest ::
  "(bytes \<Rightarrow> bytes) \<Rightarrow> nacl \<Rightarrow> gopp \<Rightarrow> bytes \<Rightarrow> int \<Rightarrow> (nat \<Rightarrow> nat) \<Rightarrow> Addr \<Rightarrow> bytes \<Rightarrow> DHT \<times> OnionAnnounce \<Rightarrow>
   (DHT \<times> OnionAnnounce) option" where
  "handleAnnounceRequest sha256 nb g rspnonce now rnd addr data = (\<lambda>(d, oa).
    if length data \<noteq> 354 then None
    else do {
      nonce \<leftarrow> res_option (NewCBNonce (take 24 (drop 1 data)));
      pktpk \<leftarrow> res_option (NewCryptoKey (take 32 (drop 25 data)));
      let (shrkey, keys) = GetSharedKey nb (dh_SelfSeckey d) (oa_SharedKeysRecv oa) pktpk;
      let oa1 = oa\<lparr>oa_SharedKeysRecv := keys\<rparr>;
      plnpkt \<leftarrow> decrypt_or_empty nb shrkey nonce (take 120 (drop 57 data));
      if length plnpkt < 96 then None else do {
      let pingid = take 32 plnpkt;
      searchpk \<leftarrow> res_option (NewCryptoKey (take 32 (drop 32 plnpkt)));
      datpubkey \<leftarrow> res_option (NewCryptoKey (take 32 (drop 64 plnpkt)));
      let sbdata = drop 96 plnpkt;
      let retdat = drop 177 data;
      pingid1 \<leftarrow> generate_ping_id sha256 now pktpk addr oa1;
      pingid2 \<leftarrow> generate_ping_id sha256 (now + 20000000000) pktpk addr oa1;
      nodes \<leftarrow> get_close_nodes now rnd d;
      (inentry, oa2) \<leftarrow> store_or_find (pingid1 = pingid \<or> pingid2 = pingid) (dh_SelfPubkey d) now addr pktpk searchpk
        datpubkey retdat oa1;
      plbuf \<leftarrow> each (\<lambda>(a, k) buf. do { p \<leftarrow> pack_ip_port g a; Some (buf @ p @ k) }) nodes
                 (entry_status pktpk datpubkey pingid2 inentry);
      encplpkt \<leftarrow> (case EncryptDataSymmetric nb shrkey rspnonce plbuf of
        Ok c \<Rightarrow> Some c | Err e \<Rightarrow> Some [] | Panic \<Rightarrow> None);
      Some (SendOnionResponse addr (0x84 # sbdata @ rspnonce @ encplpkt) retdat d, oa2)
    }})"

section \<open>The entries as items\<close>

interpretation announce_items: pl_items ae_Pubkey "\<lambda>a b. Some (Entry_Compare selfpk now a b)" "\<lambda>_. True" "\<lambda>_. True"
  for selfpk now
  by unfold_locales simp_all

definition announce_inv :: "OnionAnnounce \<Rightarrow> bool" where
  "announce_inv oa \<longleftrightarrow> pl_inv ae_Pubkey (oa_Entries oa) \<and> pl_max (oa_Entries oa) = 160"

lemma NewOnionAnnounce_inv: "announce_inv (NewOnionAnnounce s)"
  by (simp add: announce_inv_def NewOnionAnnounce_def) (simp add: NewPriorityList_def)

lemma Remove_max: "Remove key item l = Some (b, l1) \<Longrightarrow> pl_max l1 = pl_max l"
  by (auto simp: Remove_def Let_def split: if_splits)

lemma find_in_entries_inv:
  assumes "announce_inv oa"
  shows "\<exists>r oa1. find_in_entries now pk oa = Some (r, oa1) \<and> announce_inv oa1 \<and>
    (\<forall>e. r = Some e \<longrightarrow> oa1 = oa \<and> GetByKey pk (oa_Entries oa) = Some e \<and> \<not> IsTimeout4Time now (ae_Timestamp e) 300)"
proof (cases "GetByKey pk (oa_Entries oa)")
  case None
  then show ?thesis using assms by (simp add: find_in_entries_def)
next
  case (Some e)
  obtain b l where l: "Remove ae_Pubkey e (oa_Entries oa) = Some (b, l)" "pl_inv ae_Pubkey l"
    using Remove_inv [of ae_Pubkey "oa_Entries oa" e] assms by (auto simp: announce_inv_def)
  then show ?thesis
    using assms Some Remove_max [OF l(1)] by (simp add: find_in_entries_def announce_inv_def)
qed

lemma add_to_entries_inv:
  assumes "announce_inv oa"
  shows "\<exists>r oa1. add_to_entries self now a pk dpk rd oa = Some (r, oa1) \<and> announce_inv oa1"
proof -
  let ?e = "\<lparr>ae_Pubkey = pk, ae_RetAddr = a, ae_RetDat = rd, ae_DatPubkey = dpk, ae_Timestamp = now\<rparr>"
  obtain l where l: "Put ae_Pubkey (\<lambda>a b. Some (Entry_Compare self now a b)) ?e (oa_Entries oa) = Some l"
    "pl_inv ae_Pubkey l" "pl_max l = 160"
    using announce_items.Put_keeps [where l = "oa_Entries oa" and item = ?e and selfpk = self and now = now] assms by (auto simp: announce_inv_def pl_all_def)
  then have "announce_inv (oa\<lparr>oa_Entries := l\<rparr>)" by (simp add: announce_inv_def)
  from find_in_entries_inv [OF this, of now pk] show ?thesis using l(1) by (auto simp: add_to_entries_def Let_def)
qed


section \<open>A request and its answer\<close>

text \<open>The packet of a client, in the layout the handler expects.\<close>

definition announce_packet :: "nacl \<Rightarrow> bytes \<Rightarrow> bytes \<Rightarrow> bytes \<Rightarrow> bytes \<Rightarrow> bytes \<Rightarrow> bytes \<Rightarrow> bytes \<Rightarrow> bytes \<Rightarrow> bytes" where
  "announce_packet nb k nonce pk pingid search dat sb ret = 0x83 # nonce @ pk @ nb_Seal nb k nonce (pingid @ search @ dat @ sb) @ ret"

definition announce_answer :: "nacl \<Rightarrow> bytes \<Rightarrow> bytes \<Rightarrow> bytes \<Rightarrow> bytes \<Rightarrow> (Addr \<times> bytes) list \<Rightarrow> bytes \<Rightarrow> bytes" where
  "announce_answer nb k rn sb ret ns status =
    0x8c # ret @ 0x84 # sb @ rn @ nb_Seal nb k rn (status @ concat (map node_bytes ns))"

text \<open>The sizes of the fields of a request.\<close>

definition sizes_ok :: "bytes \<Rightarrow> bytes \<Rightarrow> bytes \<Rightarrow> bytes \<Rightarrow> bytes \<Rightarrow> bytes \<Rightarrow> bytes \<Rightarrow> bool" where
  "sizes_ok nonce pk pingid search dat sb ret \<longleftrightarrow> length nonce = 24 \<and> length pk = 32 \<and> length pingid = 32 \<and>
    length search = 32 \<and> length dat = 32 \<and> length sb = 8 \<and> length ret = 177"

definition announce_cached :: "nacl \<Rightarrow> bytes \<Rightarrow> OnionAnnounce \<Rightarrow> bool" where
  "announce_cached nb sk oa \<longleftrightarrow> (\<forall>k v. oa_SharedKeysRecv oa k = Some v \<longrightarrow> sk_Shrkey v = nb_Precompute nb k sk)"

definition cache_key :: "nacl \<Rightarrow> bytes \<Rightarrow> bytes \<Rightarrow> OnionAnnounce \<Rightarrow> OnionAnnounce" where
  "cache_key nb sk pk oa = oa\<lparr>oa_SharedKeysRecv := snd (GetSharedKey nb sk (oa_SharedKeysRecv oa) pk)\<rparr>"

lemma cache_key_simps [simp]:
  "oa_Entries (cache_key nb sk pk oa) = oa_Entries oa" "oa_SecBytes (cache_key nb sk pk oa) = oa_SecBytes oa"
  "announce_inv (cache_key nb sk pk oa) \<longleftrightarrow> announce_inv oa"
  "generate_ping_id sha t pk' a (cache_key nb sk pk oa) = generate_ping_id sha t pk' a oa"
  by (simp_all add: cache_key_def announce_inv_def generate_ping_id_def)

lemma set_entries_simps [simp]:
  "generate_ping_id sha t pk a (oa\<lparr>oa_Entries := l\<rparr>) = generate_ping_id sha t pk a oa"
  "announce_cached nb sk (oa\<lparr>oa_Entries := l\<rparr>) \<longleftrightarrow> announce_cached nb sk oa"
  by (simp_all add: generate_ping_id_def announce_cached_def)

lemma announce_cached_key:
  assumes "announce_cached nb sk oa"
  shows "fst (GetSharedKey nb sk (oa_SharedKeysRecv oa) pk) = nb_Precompute nb pk sk"
    "announce_cached nb sk (cache_key nb sk pk oa)"
  using assms by (auto simp: announce_cached_def GetSharedKey_def cache_key_def CBBeforeNm_def Let_def split: option.splits if_splits)

lemma handleAnnounceRequest_answers:
  assumes "box_ok nb" "gopp_ok g" "sizes_ok nonce pk pingid search dat sb ret" "\<not> ad_tcp addr"
    and "announce_cached nb (dh_SelfSeckey d) oa" "k = nb_Precompute nb pk (dh_SelfSeckey d)"
    and "get_close_nodes now rnd d = Some ns" "\<forall>n \<in> set ns. wire_node n"
    and "generate_ping_id sha now pk addr oa = Some p1" "generate_ping_id sha (now + 20000000000) pk addr oa = Some p2"
    and "store_or_find (p1 = pingid \<or> p2 = pingid) (dh_SelfPubkey d) now addr pk search dat ret
      (cache_key nb (dh_SelfSeckey d) pk oa) = Some (r, oa2)"
  shows "handleAnnounceRequest sha nb g rn now rnd addr (announce_packet nb k nonce pk pingid search dat sb ret) (d, oa) =
    Some (WriteTo (announce_answer nb k rn sb ret ns (entry_status pk dat p2 r)) addr d, oa2)"
proof -
  let ?c = "nb_Seal nb k nonce (pingid @ search @ dat @ sb)"
  have len: "length ?c = 120" using assms(3) box_okD(2) [OF assms(1)] by (simp add: sizes_ok_def)
  have sz: "length nonce = 24" "length pk = 32" "length pingid = 32" "length search = 32" "length dat = 32" "length sb = 8" "length ret = 177"
    using assms(3) by (simp_all add: sizes_ok_def)
  have "oa\<lparr>oa_SharedKeysRecv := snd (GetSharedKey nb (dh_SelfSeckey d) (oa_SharedKeysRecv oa) pk)\<rparr> = cache_key nb (dh_SelfSeckey d) pk oa"
    by (simp add: cache_key_def)
  moreover have "fst (GetSharedKey nb (dh_SelfSeckey d) (oa_SharedKeysRecv oa) pk) = k"
    using announce_cached_key(1) [OF assms(5)] assms(6) by simp
  ultimately show ?thesis
    using len sz assms(7,9-11) DecryptDataSymmetric_ok [OF assms(1)] pack_nodes [OF assms(2,8)]
    by (simp add: handleAnnounceRequest_def announce_packet_def NewCBNonce_def NewCryptoKey_def res_option_def
        decrypt_or_empty_def split_beta Let_def EncryptDataSymmetric_ok [OF assms(1)] SendOnionResponse_def
        announce_answer_def)
qed


section \<open>Announcing and searching\<close>

definition slot :: "int \<Rightarrow> int" where
  "slot t = (t div 1000000000) div 20"

lemma slot_next: "slot (t + 20000000000) = slot t + 1"
proof -
  have "(t + 20000000000) div 1000000000 = t div 1000000000 + 20"
    using div_mult_self2 [of 1000000000 t 20] by simp
  then show ?thesis by (simp add: slot_def)
qed

lemma generate_ping_id_slot: "slot t = slot t' \<Longrightarrow> generate_ping_id sha t pk a oa = generate_ping_id sha t' pk a oa"
  by (simp add: generate_ping_id_def slot_def Let_def)

lemma slot_mono: "t \<le> t' \<Longrightarrow> slot t \<le> slot t'"
  by (simp add: slot_def zdiv_mono1)

lemma not_timed_out: "now \<le> t + 300000000000 \<Longrightarrow> t \<le> now \<Longrightarrow> \<not> IsTimeout4Time now t 300"
  by (simp add: IsTimeout4Time_def seconds_def)

lemma timed_out: "t + 301000000000 \<le> now \<Longrightarrow> IsTimeout4Time now t 300"
  by (simp add: IsTimeout4Time_def seconds_def)

lemma Put_fresh_lookup:
  assumes "pl_inv key l" "GetByKey (key item) l = None" "length (pl_lst l) < pl_max l" "Put key cmp item l = Some l1"
  shows "GetByKey (key item) l1 = Some item"
proof -
  have fresh: "key item \<notin> key ` set (pl_lst l)" using GetByKey_None [OF assms(1)] assms(2) by blast
  then obtain i where i: "put_pos cmp item (pl_lst l) 0 = Some i"
    using assms(2,4) by (auto simp: Put_def GetByKey_def split: option.splits)
  have all: "take (pl_max l) (take i (pl_lst l) @ [item] @ drop i (pl_lst l)) = take i (pl_lst l) @ [item] @ drop i (pl_lst l)"
    using assms(3) by (intro take_all) simp
  have l1: "pl_inv key l1" "pl_lst l1 = take i (pl_lst l) @ [item] @ drop i (pl_lst l)"
    "set (pl_keys l1) \<subseteq> insert (key item, item) (set (pl_keys l))"
    using Put_fresh [OF assms(1) fresh i] assms(4) all by auto
  then obtain x where x: "GetByKey (key item) l1 = Some x" using GetByKey_None [OF l1(1), of "key item"] by force
  then have "(key item, x) \<in> set (pl_keys l1)" by (simp add: GetByKey_def map_of_SomeD)
  moreover have "(key item, x) \<notin> set (pl_keys l)" using assms(2) by (force simp: GetByKey_def map_of_eq_None_iff)
  ultimately show ?thesis using l1(3) x by auto
qed

lemma add_to_entries_fresh:
  fixes pk rd dpk :: bytes and a :: Addr and now :: int
  assumes "announce_inv oa" "GetByKey pk (oa_Entries oa) = None" "length (pl_lst (oa_Entries oa)) < 160"
  defines "e \<equiv> \<lparr>ae_Pubkey = pk, ae_RetAddr = a, ae_RetDat = rd, ae_DatPubkey = dpk, ae_Timestamp = now\<rparr>"
  shows "\<exists>l. add_to_entries self now a pk dpk rd oa = Some (Some e, oa\<lparr>oa_Entries := l\<rparr>) \<and> GetByKey pk l = Some e \<and>
    announce_inv (oa\<lparr>oa_Entries := l\<rparr>)"
proof -
  obtain l where l: "Put ae_Pubkey (\<lambda>a b. Some (Entry_Compare self now a b)) e (oa_Entries oa) = Some l"
    "pl_inv ae_Pubkey l" "pl_max l = 160"
    using announce_items.Put_keeps [where l = "oa_Entries oa" and item = e and selfpk = self and now = now] assms(1)
    by (auto simp: announce_inv_def pl_all_def)
  have g: "GetByKey pk l = Some e"
    using Put_fresh_lookup [OF _ _ _ l(1)] assms(1-3) by (simp add: announce_inv_def e_def)
  have "\<not> IsTimeout4Time now (ae_Timestamp e) 300" by (simp add: e_def IsTimeout4Time_def seconds_def)
  then have "add_to_entries self now a pk dpk rd oa = Some (Some e, oa\<lparr>oa_Entries := l\<rparr>)"
    using l(1) g by (simp add: add_to_entries_def find_in_entries_def Let_def e_def)
  then show ?thesis using g l(2,3) by (auto simp: announce_inv_def)
qed

lemma get_close_nodes_WriteTo [simp]: "get_close_nodes now rnd (WriteTo p a d) = get_close_nodes now rnd d"
  by (rule get_close_nodes_tables) simp

lemma get_close_nodes_now: "get_close_nodes now rnd d = get_close_nodes now' rnd d"
proof -
  have "item_cmp now d x y = item_cmp now' d x y" for x y
    by (cases x; cases y) (simp_all add: ClientData_Compare_def)
  then have "item_cmp now d = item_cmp now' d" by (intro ext)
  then show ?thesis by (simp add: get_close_nodes_def)
qed

lemma WriteTo_keys [simp]: "dh_SelfSeckey (WriteTo p a d) = dh_SelfSeckey d" "dh_SelfPubkey (WriteTo p a d) = dh_SelfPubkey d"
  "dh_sent (WriteTo p a d) = dh_sent d @ [(p, a)]"
  by (simp_all add: WriteTo_def)

text \<open>A search, and the storing of a client, as requests.\<close>

lemma handle_search:
  assumes "box_ok nb" "gopp_ok g" "get_close_nodes now rnd d = Some ns" "\<forall>n \<in> set ns. wire_node n"
    and "announce_cached nb (dh_SelfSeckey d) oa" "sizes_ok nonce pk pid search dat sb ret" "\<not> ad_tcp addr"
    and "\<forall>t. generate_ping_id sha t pk addr oa \<noteq> Some pid"
    and "find_in_entries now search (cache_key nb (dh_SelfSeckey d) pk oa) = Some (r, oa2)"
  shows "\<exists>p. generate_ping_id sha (now + 20000000000) pk addr oa = Some p \<and>
    handleAnnounceRequest sha nb g rn now rnd addr
      (announce_packet nb (nb_Precompute nb pk (dh_SelfSeckey d)) nonce pk pid search dat sb ret) (d, oa) =
    Some (WriteTo (announce_answer nb (nb_Precompute nb pk (dh_SelfSeckey d)) rn sb ret ns (entry_status pk dat p r)) addr d, oa2)"
proof -
  obtain p1 p2 where p: "generate_ping_id sha now pk addr oa = Some p1" "generate_ping_id sha (now + 20000000000) pk addr oa = Some p2"
    using assms(7) by (simp add: generate_ping_id_def Let_def)
  then have "p1 \<noteq> pid" "p2 \<noteq> pid" using assms(8) by metis+
  then have "store_or_find (p1 = pid \<or> p2 = pid) (dh_SelfPubkey d) now addr pk search dat ret (cache_key nb (dh_SelfSeckey d) pk oa) = Some (r, oa2)"
    using assms(9) by (simp add: store_or_find_def)
  from handleAnnounceRequest_answers [OF assms(1,2,6,7,5) refl assms(3,4) p this] show ?thesis using p(2) by blast
qed

lemma handle_store:
  assumes "box_ok nb" "gopp_ok g" "get_close_nodes now rnd d = Some ns" "\<forall>n \<in> set ns. wire_node n"
    and "announce_cached nb (dh_SelfSeckey d) oa" "sizes_ok nonce pk pid search dat sb ret" "\<not> ad_tcp addr"
    and "generate_ping_id sha now pk addr oa = Some pid \<or> generate_ping_id sha (now + 20000000000) pk addr oa = Some pid"
    and "add_to_entries (dh_SelfPubkey d) now addr pk dat ret (cache_key nb (dh_SelfSeckey d) pk oa) = Some (r, oa2)"
  shows "\<exists>p. handleAnnounceRequest sha nb g rn now rnd addr
      (announce_packet nb (nb_Precompute nb pk (dh_SelfSeckey d)) nonce pk pid search dat sb ret) (d, oa) =
    Some (WriteTo (announce_answer nb (nb_Precompute nb pk (dh_SelfSeckey d)) rn sb ret ns (entry_status pk dat p r)) addr d, oa2)"
proof -
  obtain p1 p2 where p: "generate_ping_id sha now pk addr oa = Some p1" "generate_ping_id sha (now + 20000000000) pk addr oa = Some p2"
    using assms(7) by (simp add: generate_ping_id_def Let_def)
  then have "p1 = pid \<or> p2 = pid" using assms(8) by auto
  then have "store_or_find (p1 = pid \<or> p2 = pid) (dh_SelfPubkey d) now addr pk search dat ret (cache_key nb (dh_SelfSeckey d) pk oa) = Some (r, oa2)"
    using assms(9) by (simp add: store_or_find_def)
  from handleAnnounceRequest_answers [OF assms(1,2,6,7,5) refl assms(3,4) p this] show ?thesis by blast
qed

lemma ping_id_valid:
  assumes "generate_ping_id sha (t1 + 20000000000) pk a oa = Some pid" "t1 \<le> t2" "slot t2 \<le> slot t1 + 1"
  shows "generate_ping_id sha t2 pk a oa = Some pid \<or> generate_ping_id sha (t2 + 20000000000) pk a oa = Some pid"
proof -
  consider "slot t2 = slot (t1 + 20000000000)" | "slot (t2 + 20000000000) = slot (t1 + 20000000000)"
    using slot_mono [OF assms(2)] assms(3) slot_next [of t1] slot_next [of t2] by linarith
  then show ?thesis using assms(1) generate_ping_id_slot by cases metis+
qed




text \<open>C38: An announcement that is renewed is lost 301 seconds after the first one.  Storing a client again replaces
  its entry in the list but not in the map that searches use, so at that time a search sees the old entry, takes it
  for expired and removes the new one with it, though the client was stored again less than 300 seconds before.\<close>

theorem renewed_announcement_expires:
  assumes "announce_inv oa" "GetByKey pk (oa_Entries oa) = Some e0"
    and "ae_Timestamp e0 \<le> t1" "t1 \<le> ae_Timestamp e0 + 300000000000" "ae_Timestamp e0 + 301000000000 \<le> t2" "t2 \<le> t1 + 300000000000"
  shows "\<exists>oa1 oa2. add_to_entries self t1 a pk dpk rd oa = Some (Some e0, oa1) \<and>
    (\<exists>e1 \<in> set (pl_lst (oa_Entries oa1)). ae_Pubkey e1 = pk \<and> \<not> IsTimeout4Time t2 (ae_Timestamp e1) 300) \<and>
    find_in_entries t2 pk oa1 = Some (None, oa2) \<and> pk \<notin> ae_Pubkey ` set (pl_lst (oa_Entries oa2))"
proof -
  let ?e = "\<lparr>ae_Pubkey = pk, ae_RetAddr = a, ae_RetDat = rd, ae_DatPubkey = dpk, ae_Timestamp = t1\<rparr>"
  have inv: "pl_inv ae_Pubkey (oa_Entries oa)" using assms(1) by (simp add: announce_inv_def)
  have key: "pk \<in> ae_Pubkey ` set (pl_lst (oa_Entries oa))" using GetByKey_None [OF inv, of pk] assms(2) by auto
  define l where "l = replaceItem ae_Pubkey ?e (oa_Entries oa)"
  have put: "Put ae_Pubkey (\<lambda>a b. Some (Entry_Compare self t1 a b)) ?e (oa_Entries oa) = Some l"
    using announce_items.Put_replaces [OF inv, of ?e] key by (simp add: l_def)
  have l: "pl_inv ae_Pubkey l" "GetByKey pk l = Some e0" "?e \<in> set (pl_lst l)" "ae_Pubkey e0 = pk"
    using replaceItem_inv [OF inv, of ?e] assms(2) GetByKey_key [OF inv assms(2)] in_replace_first [of ae_Pubkey ?e] key
    by (simp_all add: l_def) (simp_all add: replaceItem_def GetByKey_def)
  have "add_to_entries self t1 a pk dpk rd oa = Some (Some e0, oa\<lparr>oa_Entries := l\<rparr>)"
    using put l(2) not_timed_out [OF assms(4,3)] by (simp add: add_to_entries_def find_in_entries_def Let_def)
  moreover have "\<not> IsTimeout4Time t2 (ae_Timestamp ?e) 300" using not_timed_out [of t2 t1] assms(4-6) by simp
  moreover have "ae_Pubkey e0 \<in> ae_Pubkey ` set (pl_lst l)" using imageI [OF l(3), of ae_Pubkey] l(4) by simp
  define l2 where "l2 = l\<lparr>pl_lst := filter (\<lambda>x. ae_Pubkey x \<noteq> ae_Pubkey e0) (pl_lst l),
    pl_keys := AList.delete (ae_Pubkey e0) (pl_keys l)\<rparr>"
  have "Remove ae_Pubkey e0 l = Some (True, l2)" "pk \<notin> ae_Pubkey ` set (pl_lst l2)"
    using Remove_present [OF l(1) \<open>ae_Pubkey e0 \<in> _\<close>] l(4) by (simp add: l2_def, auto simp: l2_def)
  then have "find_in_entries t2 pk (oa\<lparr>oa_Entries := l\<rparr>) = Some (None, oa\<lparr>oa_Entries := l2\<rparr>)" "pk \<notin> ae_Pubkey ` set (pl_lst l2)"
    using l(2) timed_out [OF assms(5)] by (simp_all add: find_in_entries_def)
  ultimately show ?thesis using l(3) by (intro exI [of _ "oa\<lparr>oa_Entries := l\<rparr>"] exI [of _ "oa\<lparr>oa_Entries := l2\<rparr>"]) force
qed

section \<open>Examples\<close>

definition demo_entry :: Onion_Announce_Entry where
  "demo_entry = \<lparr>ae_Pubkey = replicate 32 1, ae_RetAddr = demo_addr, ae_RetDat = [], ae_DatPubkey = replicate 32 4, ae_Timestamp = 0\<rparr>"

definition demo_oa :: OnionAnnounce where
  "demo_oa = (NewOnionAnnounce [])\<lparr>oa_Entries := \<lparr>pl_max = 160, pl_keys = [(replicate 32 1, demo_entry)], pl_lst = [demo_entry]\<rparr>\<rparr>"

theorem renewed_announcement_expires_witness:
  "\<exists>oa1 oa2. add_to_entries [] 200000000000 demo_addr (replicate 32 1) (replicate 32 4) [] demo_oa = Some (Some demo_entry, oa1) \<and>
    find_in_entries 301000000000 (replicate 32 1) oa1 = Some (None, oa2) \<and>
    replicate 32 1 \<notin> ae_Pubkey ` set (pl_lst (oa_Entries oa2))"
proof -
  have "announce_inv demo_oa" by (simp add: announce_inv_def pl_inv_def demo_oa_def demo_entry_def)
  moreover have "GetByKey (replicate 32 1) (oa_Entries demo_oa) = Some demo_entry" by (simp add: demo_oa_def GetByKey_def)
  ultimately show ?thesis
    using renewed_announcement_expires [of demo_oa "replicate 32 1" demo_entry 200000000000 301000000000 "[]" demo_addr "replicate 32 4" "[]"]
    by (auto simp: demo_entry_def)
qed


end
