(* ===== verification/Detect.thy ===== *)
theory Detect
  imports Relay_Streams Base58
begin

text \<open>
  Probing a relay (\<^verbatim>\<open>relayhub/detect.go\<close>): the identify message, the requests \<^verbatim>\<open>DetectRelay\<close> makes one after
  the other on the streams of a session, and the printing of multiaddresses.  The TLS handshake and
  the multiplexer are libraries; they are arguments.  So is SHA-256.
\<close>

section \<open>The identify message\<close>

record IdentifyInfo =
  II_PeerID :: string
  II_Agent :: bytes
  II_Protos :: "bytes list"
  II_SignedPeerRecord :: bytes

definition empty_info :: IdentifyInfo where
  "empty_info = \<lparr>II_PeerID = '''', II_Agent = [], II_Protos = [], II_SignedPeerRecord = []\<rparr>"

definition identify_field :: "(bytes \<Rightarrow> bytes) \<Rightarrow> u64 \<Rightarrow> bytes \<Rightarrow> IdentifyInfo \<Rightarrow> IdentifyInfo" where
  "identify_field sha256 field val info =
    (if field = 1 then info\<lparr>II_PeerID := base58Encode ([0x12, 0x20] @ sha256 val)\<rparr>
     else if field = 3 then info\<lparr>II_Protos := II_Protos info @ [val]\<rparr>
     else if field = 6 then info\<lparr>II_Agent := val\<rparr>
     else if field = 8 then info\<lparr>II_SignedPeerRecord := val\<rparr>
     else info)"

text \<open>The length is compared as a signed number and used as an unsigned one: a length of 2^63 or more passes
  the test and the slice panics.\<close>

partial_function (option) parseIdentify_loop ::
  "(bytes \<Rightarrow> bytes) \<Rightarrow> bytes \<Rightarrow> IdentifyInfo \<Rightarrow> (unit, IdentifyInfo) res option" where
  "parseIdentify_loop sha256 rest info =
    (if rest = [] then Some (Ok info)
     else case decodeVarint rest of (tag, n) \<Rightarrow>
       if n \<le> 0 then Some (Ok info)
       else
         let rest1 = drop (nat n) rest; field = drop_bit 3 tag; wt = tag AND 7 in
         if wt \<noteq> 2 then
           (if wt = 0 then
              (case decodeVarint rest1 of (_, n1) \<Rightarrow>
                 if n1 \<le> 0 then Some (Ok info) else parseIdentify_loop sha256 (drop (nat n1) rest1) info)
            else Some (Ok info))
         else
           (case decodeVarint rest1 of (l, n1) \<Rightarrow>
              if n1 \<le> 0 \<or> int (length (drop (nat n1) rest1)) < sint l then Some (Ok info)
              else let rest2 = drop (nat n1) rest1 in
                if length rest2 < unat l then Some Panic
                else parseIdentify_loop sha256 (drop (unat l) rest2)
                  (identify_field sha256 field (take (unat l) rest2) info)))"

definition parseIdentify :: "(bytes \<Rightarrow> bytes) \<Rightarrow> bytes \<Rightarrow> (unit, IdentifyInfo) res option" where
  "parseIdentify sha256 data = parseIdentify_loop sha256 data empty_info"

definition computePeerID :: "(bytes \<Rightarrow> bytes) \<Rightarrow> bytes \<Rightarrow> bytes" where
  "computePeerID sha256 pk = [0x12, 0x20] @ sha256 ([0x08, 0x01, 0x12, 0x20] @ pk)"

section \<open>The probes\<close>

text \<open>Each probe opens a stream (None: the session cannot) and closes it when it returns.  The outer option is
  the loop of \<^verbatim>\<open>parseIdentify\<close>.\<close>

definition detectIdentify ::
  "(bytes \<Rightarrow> bytes) \<Rightarrow> yamux_stream option \<Rightarrow> ((unit, IdentifyInfo option) res \<times> yamux_stream option) option" where
  "detectIdentify sha256 opened = (case opened of
      None \<Rightarrow> Some (Ok None, None)
    | Some s \<Rightarrow>
        (case st_run (msSelect identifyProtoID) s of
           (Err e, s1) \<Rightarrow> Some (Ok None, Some (st_close s1))
         | (Panic, s1) \<Rightarrow> Some (Panic, Some (st_close s1))
         | (Ok _, s1) \<Rightarrow>
             (case st_readOnePb s1 of
                (Err e, s2) \<Rightarrow> Some (Ok None, Some (st_close s2))
              | (Panic, s2) \<Rightarrow> Some (Panic, Some (st_close s2))
              | (Ok data, s2) \<Rightarrow>
                  map_option (\<lambda>r. case r of
                      Ok info \<Rightarrow> (Ok (Some info), Some (st_close s2))
                    | Err e \<Rightarrow> (Err e, Some (st_close s2))
                    | Panic \<Rightarrow> (Panic, Some (st_close s2))) (parseIdentify sha256 data))))"

definition can_hop :: CircuitV1Message where
  "can_hop = \<lparr>V1_Type = CircuitV1TypeCanHop, V1_SrcPeer = None, V1_DstPeer = None, V1_Code = 0\<rparr>"

definition detectV1 :: "yamux_stream option \<Rightarrow> (unit, bool \<times> u64 \<times> string) res \<times> yamux_stream option" where
  "detectV1 opened = (case opened of
      None \<Rightarrow> (Ok (False, 0, ''''), None)
    | Some s \<Rightarrow>
        (case request CircuitV1ProtoID (encodeCircuitV1 can_hop) decodeCircuitV1 s of
           (Ok resp, s1) \<Rightarrow> (Ok (True, V1_Code resp, circuitV1StatusString (V1_Code resp)), Some (st_close s1))
         | (Err (ReadResponse e), s1) \<Rightarrow> (Ok (False, 0, circuitV1StatusString 0), Some (st_close s1))
         | (Err (DecodeResponse e), s1) \<Rightarrow> (Ok (True, 0, ''PARSE_ERROR''), Some (st_close s1))
         | (Err e, s1) \<Rightarrow> (Ok (False, 0, ''''), Some (st_close s1))
         | (Panic, s1) \<Rightarrow> (Panic, Some (st_close s1))))"

record V2Hop =
  vh_ok :: bool
  vh_status :: u32
  vh_expire :: u64
  vh_limitDur :: u32
  vh_limitData :: u64
  vh_addrs :: "bytes list"
  vh_voucher :: "bytes option"

definition no_V2Hop :: V2Hop where
  "no_V2Hop = \<lparr>vh_ok = False, vh_status = 0, vh_expire = 0, vh_limitDur = 0, vh_limitData = 0, vh_addrs = [],
     vh_voucher = None\<rparr>"

definition detectV2Hop :: "yamux_stream option \<Rightarrow> (unit, V2Hop) res \<times> yamux_stream option" where
  "detectV2Hop opened = (case opened of
      None \<Rightarrow> (Ok no_V2Hop, None)
    | Some s \<Rightarrow>
        (case request hopProtoID (encodeHopMessage hop_reserve) decodeHopMessage s of
           (Err e, s1) \<Rightarrow> (Ok no_V2Hop, Some (st_close s1))
         | (Panic, s1) \<Rightarrow> (Panic, Some (st_close s1))
         | (Ok resp, s1) \<Rightarrow>
             let r1 = (case Hop_Reservation resp of
                   None \<Rightarrow> no_V2Hop
                 | Some v \<Rightarrow> no_V2Hop\<lparr>vh_expire := Resv_Expire v, vh_addrs := Resv_Addrs v, vh_voucher := Resv_Voucher v\<rparr>);
                 r2 = (case Hop_Limit resp of
                   None \<Rightarrow> r1
                 | Some l \<Rightarrow> r1\<lparr>vh_limitDur := Limit_Duration l, vh_limitData := Limit_Data l\<rparr>)
             in (Ok (r2\<lparr>vh_ok := True, vh_status := Hop_Status resp\<rparr>), Some (st_close s1))))"

text \<open>\<^verbatim>\<open>dur\<close> is the time that passed until the answer was read or the read failed.\<close>

definition detectV2Connect ::
  "(bytes \<Rightarrow> bytes) \<Rightarrow> bytes \<Rightarrow> int \<Rightarrow> yamux_stream option \<Rightarrow> (unit, bool \<times> u32 \<times> int) res \<times> yamux_stream option" where
  "detectV2Connect sha256 pub dur opened = (case opened of
      None \<Rightarrow> (Ok (False, 0, 0), None)
    | Some s \<Rightarrow>
        (case request hopProtoID (encodeHopMessage (hop_connect (computePeerID sha256 pub))) decodeHopMessage s of
           (Ok resp, s1) \<Rightarrow> (Ok (True, Hop_Status resp, dur), Some (st_close s1))
         | (Err (ReadResponse e), s1) \<Rightarrow> (Ok (False, 0, dur), Some (st_close s1))
         | (Err (DecodeResponse e), s1) \<Rightarrow> (Ok (False, 0, dur), Some (st_close s1))
         | (Err e, s1) \<Rightarrow> (Ok (False, 0, 0), Some (st_close s1))
         | (Panic, s1) \<Rightarrow> (Panic, Some (st_close s1))))"

definition detectV2Stop :: "yamux_stream option \<Rightarrow> (unit, bool) res \<times> yamux_stream option" where
  "detectV2Stop opened = (case opened of
      None \<Rightarrow> (Ok False, None)
    | Some s \<Rightarrow>
        (case st_run (msSelect stopProtoID) s of
           (Ok _, s1) \<Rightarrow> (Ok True, Some (st_close s1))
         | (Err e, s1) \<Rightarrow> (Ok False, Some (st_close s1))
         | (Panic, s1) \<Rightarrow> (Panic, Some (st_close s1))))"

record DetectResult =
  dr_TCPOK :: bool
  dr_TCPDuration :: int
  dr_TLSOK :: bool
  dr_YamuxOK :: bool
  dr_Identify :: "IdentifyInfo option"
  dr_V1 :: "bool \<times> u64 \<times> string"
  dr_V2Hop :: V2Hop
  dr_V2Connect :: "bool \<times> u32 \<times> int"
  dr_V2StopOK :: bool

text \<open>What the outside answers: the connection of the dial, the connection the TLS client makes of it,
  and the session of the multiplexer, which is the streams that its calls of \<^verbatim>\<open>Open\<close> give, in order.\<close>

record relay_env =
  re_raw :: "yamux_stream option"
  re_tls :: "yamux_stream \<Rightarrow> yamux_stream option"
  re_yamux :: "yamux_stream \<Rightarrow> (nat \<Rightarrow> yamux_stream option) option"
  re_sha256 :: "bytes \<Rightarrow> bytes"
  re_dialTime :: int
  re_connectTime :: int

text \<open>The probes on an open session.  \<^verbatim>\<open>None\<close> is a panic of one of them, or a loop that does not end.\<close>

definition ok_value :: "(unit, 'a) res \<times> 'b \<Rightarrow> 'a option" where
  "ok_value p = (case fst p of Ok a \<Rightarrow> Some a | _ \<Rightarrow> None)"

definition detect_session ::
  "relay_env \<Rightarrow> bytes \<Rightarrow> (nat \<Rightarrow> yamux_stream option) \<Rightarrow> DetectResult \<Rightarrow> DetectResult option" where
  "detect_session env pub sess r =
    Option.bind (Option.bind (detectIdentify (re_sha256 env) (sess 0)) ok_value) (\<lambda>ident.
    Option.bind (ok_value (detectV1 (sess 1))) (\<lambda>v1.
    Option.bind (ok_value (detectV2Hop (sess 2))) (\<lambda>hop.
    Option.bind (if vh_status hop = StatusOK
       then ok_value (detectV2Connect (re_sha256 env) pub (re_connectTime env) (sess 3)) else Some (False, 0, 0)) (\<lambda>conn.
    Option.bind (ok_value (detectV2Stop (sess (if vh_status hop = StatusOK then 4 else 3)))) (\<lambda>stop.
    Some (r\<lparr>dr_Identify := ident, dr_V1 := v1, dr_V2Hop := hop, dr_V2Connect := conn, dr_V2StopOK := stop\<rparr>))))))"

definition DetectRelay :: "relay_env \<Rightarrow> bytes \<Rightarrow> DetectResult option" where
  "DetectRelay env pub =
    (let r0 = \<lparr>dr_TCPOK = False, dr_TCPDuration = re_dialTime env, dr_TLSOK = False, dr_YamuxOK = False,
           dr_Identify = None, dr_V1 = (False, 0, ''''), dr_V2Hop = no_V2Hop, dr_V2Connect = (False, 0, 0),
           dr_V2StopOK = False\<rparr> in
     case re_raw env of
       None \<Rightarrow> Some r0
     | Some raw \<Rightarrow>
         let r1 = r0\<lparr>dr_TCPOK := True\<rparr> in
         case st_run (msSelect (ascii ''/tls/1.0.0'')) raw of
           (Panic, _) \<Rightarrow> None
         | (Err e, _) \<Rightarrow> Some r1
         | (Ok _, raw1) \<Rightarrow>
             (case re_tls env raw1 of
                None \<Rightarrow> Some r1
              | Some tlsConn \<Rightarrow>
                  let r2 = r1\<lparr>dr_TLSOK := True\<rparr> in
                  case st_run (msSelect (ascii ''/yamux/1.0.0'')) tlsConn of
                    (Panic, _) \<Rightarrow> None
                  | (Err e, _) \<Rightarrow> Some r2
                  | (Ok _, tls1) \<Rightarrow>
                      (case re_yamux env tls1 of
                         None \<Rightarrow> Some r2
                       | Some sess \<Rightarrow> detect_session env pub sess (r2\<lparr>dr_YamuxOK := True\<rparr>))))"

section \<open>Multiaddresses\<close>

text \<open>The name of a protocol code and the size of its value; -1 is a value with a length in front.\<close>

definition maProtos :: "u64 \<rightharpoonup> string \<times> int" where
  "maProtos = map_of [(0x04, ''ip4'', 4), (0x06, ''tcp'', 2), (0x29, ''ip6'', 16), (0x35, ''dns'', -1),
     (0x36, ''dns4'', -1), (0x37, ''dns6'', -1), (0x0111, ''udp'', 2), (0x0118, ''webrtc-direct'', 0),
     (0x0119, ''webrtc'', 0), (0x0122, ''p2p-circuit'', 0), (0x01a5, ''p2p'', -1), (0x01bb, ''https'', 0),
     (0x01c0, ''tls'', 0), (0x01c6, ''noise'', 0), (0x01cc, ''quic'', 0), (0x01cd, ''quic-v1'', 0),
     (0x01d1, ''webtransport'', 0), (0x01d2, ''certhash'', -1), (0x01dd, ''ws'', -1), (0x01de, ''wss'', -1)]"

definition byte_dec :: "byte \<Rightarrow> string" where
  "byte_dec b = show_nat (unat b)"

text \<open>The printed value; \<^verbatim>\<open>ip4\<close>, \<^verbatim>\<open>ip6\<close>, \<^verbatim>\<open>tcp\<close> and \<^verbatim>\<open>udp\<close> have values of a fixed size.\<close>

definition ma_value :: "string \<Rightarrow> bytes \<Rightarrow> bytes" where
  "ma_value name val =
    (if name = ''ip4'' then
       ascii (''/'' @ byte_dec (val ! 0) @ ''.'' @ byte_dec (val ! 1) @ ''.'' @ byte_dec (val ! 2) @ ''.'' @ byte_dec (val ! 3))
     else if name = ''ip6'' then
       ascii (''/'' @ hex_encode [val ! 0, val ! 1] @ '':'' @ hex_encode [val ! 2, val ! 3] @ '':''
         @ hex_encode [val ! 4, val ! 5] @ '':'' @ hex_encode [val ! 6, val ! 7] @ '':''
         @ hex_encode [val ! 8, val ! 9] @ '':'' @ hex_encode [val ! 10, val ! 11] @ '':''
         @ hex_encode [val ! 12, val ! 13] @ '':'' @ hex_encode [val ! 14, val ! 15])
     else if name = ''tcp'' \<or> name = ''udp'' then
       ascii (''/'' @ show_nat (unat (push_bit 8 (ucast (val ! 0)) OR ucast (val ! 1) :: u64)))
     else if name = ''p2p'' then ascii (''/'' @ base58Encode val)
     else if name = ''certhash'' then ascii (''/'' @ hex_encode val)
     else ascii ''/'' @ val)"

text \<open>In the branch of an unknown code the length is converted to a signed number before it is compared, so a
  huge one is negative, passes both tests and makes the slice panic, unless the length field is
  long enough to make up for it.\<close>

partial_function (option) ma_loop :: "bytes \<Rightarrow> bytes \<Rightarrow> (unit, bytes) res option" where
  "ma_loop b s =
    (if b = [] then Some (Ok s)
     else case decodeVarint b of (code, n) \<Rightarrow>
       if n \<le> 0 then Some (Ok s)
       else let b1 = drop (nat n) b in
         (case maProtos code of
            None \<Rightarrow>
              let s1 = s @ ascii (''/<proto-'' @ show_nat (unat code) @ ''>'') in
              (case decodeVarint b1 of (v, k) \<Rightarrow>
                 if 0 < k \<and> sint v \<le> int (length b1) - k \<and> sint v < 256 then
                   (if k + sint v < 0 then Some Panic else ma_loop (drop (nat (k + sint v)) b1) s1)
                 else ma_loop b1 s1)
          | Some (name, sz) \<Rightarrow>
              let s1 = s @ ascii (''/'' @ name) in
              if sz = 0 then ma_loop b1 s1
              else if 0 < sz then
                (if int (length b1) < sz then Some (Ok s1)
                 else ma_loop (drop (nat sz) b1) (s1 @ ma_value name (take (nat sz) b1)))
              else
                (case decodeVarint b1 of (v, k) \<Rightarrow>
                   if k \<le> 0 \<or> length b1 - nat k < unat v then Some (Ok s1)
                   else ma_loop (drop (nat k + unat v) b1)
                     (s1 @ ma_value name (take (unat v) (drop (nat k) b1))))))"

definition MultiaddrString :: "bytes \<Rightarrow> (unit, bytes) res option" where
  "MultiaddrString b = ma_loop b []"


section \<open>The loops end\<close>

lemma parseIdentify_loop_returns: "\<exists>r. parseIdentify_loop sha256 rest info = Some r"
proof (induction "length rest" arbitrary: rest info rule: less_induct)
  case less
  obtain tag n where tag: "decodeVarint rest = (tag, n)" by fastforce
  obtain l k where l: "decodeVarint (drop (nat n) rest) = (l, k)" by fastforce
  have step: "\<exists>r. parseIdentify_loop sha256 (drop j (drop (nat n) rest)) i = Some r" if "0 < n" "rest \<noteq> []" for j i
    using that less [of "drop j (drop (nat n) rest)" i] by (cases rest) auto
  show ?case
    using step by (subst parseIdentify_loop.simps) (auto simp: tag l Let_def simp flip: add.assoc)
qed

lemma ma_loop_returns: "\<exists>r. ma_loop b s = Some r"
proof (induction "length b" arbitrary: b s rule: less_induct)
  case less
  obtain code n where code: "decodeVarint b = (code, n)" by fastforce
  obtain v k where v: "decodeVarint (drop (nat n) b) = (v, k)" by fastforce
  have step: "\<exists>r. ma_loop (drop j (drop (nat n) b)) t = Some r" if "0 < n" "b \<noteq> []" for j t
    using that less [of "drop j (drop (nat n) b)" t] by (cases b) auto
  have step0: "\<exists>r. ma_loop (drop (nat n) b) t = Some r" if "0 < n" "b \<noteq> []" for t
    using step [OF that, of 0] by simp
  show ?case
  proof (cases "maProtos code")
    case None
    then show ?thesis using step step0 by (subst ma_loop.simps) (auto simp: code v Let_def simp del: drop_drop)
  next
    case (Some p)
    then show ?thesis using step step0
      by (cases p, subst ma_loop.simps) (auto simp: code v Let_def simp del: drop_drop)
  qed
qed

section \<open>What the identify handler sends is what the probe reads\<close>

lemma tag_word:
  assumes "f < 2 ^ 60" "wt < 8"
  shows "drop_bit 3 (push_bit 3 (of_nat f) OR of_nat wt :: u64) = of_nat f"
    and "(push_bit 3 (of_nat f) OR of_nat wt :: u64) AND 7 = of_nat wt"
proof -
  have "unat (of_nat f :: u64) = f" "unat (of_nat wt :: u64) = wt" using assms by (simp_all add: unat_of_nat)
  then show "drop_bit 3 (push_bit 3 (of_nat f) OR of_nat wt :: u64) = of_nat f"
    and "(push_bit 3 (of_nat f) OR of_nat wt :: u64) AND 7 = of_nat wt"
    using tag_fields [OF assms] by (metis word_unat_eq_iff)+
qed

lemma parse_field:
  assumes "f < 2 ^ 60" "length b \<le> max_alloc"
  shows "parseIdentify_loop sha256 (pbEncodeLengthDelimField f b @ suf) info =
    parseIdentify_loop sha256 suf (identify_field sha256 (of_nat f) b info)"
proof -
  have len: "unat (of_nat (length b) :: u64) = length b" "sint (of_nat (length b) :: u64) = int (length b)"
    using assms(2) by (simp_all add: unat_of_nat max_alloc_def sint_of_nat_small)
  show ?thesis
    using tag_word [OF assms(1), of 2] encodeVarint_length(1)
    by (subst parseIdentify_loop.simps)
      (simp add: pbEncodeLengthDelimField_def encodeTag_def Let_def len not_le)
qed

lemma parse_fields:
  assumes "list_all (\<lambda>b. length b \<le> max_alloc) bs"
  shows "parseIdentify_loop sha256 (concat (map (\<lambda>p. pbEncodeLengthDelimField 3 p) bs) @ suf) info =
    parseIdentify_loop sha256 suf (info\<lparr>II_Protos := II_Protos info @ bs\<rparr>)"
  using assms
proof (induction bs arbitrary: info)
  case (Cons b bs)
  then show ?case
    using parse_field [of 3 b sha256 "concat (map (\<lambda>p. pbEncodeLengthDelimField 3 p) bs) @ suf" info]
    by (simp add: identify_field_def)
qed simp

lemma parse_end [simp]: "parseIdentify_loop sha256 [] info = Some (Ok info)"
  by (simp add: parseIdentify_loop.simps)

definition signed_record :: "identity \<Rightarrow> u64 \<Rightarrow> bytes \<Rightarrow> bytes" where
  "signed_record me seq pubKey =
    (let pr = encodePeerRecord seq (me_id me) []
     in encodeEnvelope pubKey [0x81, 0x06] pr (me_sign me (ascii ''libp2p-envelope'' @ pubKey @ [0x81, 0x06] @ pr)))"

lemma length_delim: "length b < length (pbEncodeLengthDelimField f b)"
  by (simp add: pbEncodeLengthDelimField_def)

lemma parse_buildIdentifyResponse:
  assumes "length (buildIdentifyResponse me seq pubKey protos) \<le> max_alloc"
  shows "parseIdentify sha256 (buildIdentifyResponse me seq pubKey protos) = Some (Ok
    \<lparr>II_PeerID = base58Encode ([0x12, 0x20] @ sha256 pubKey), II_Agent = ascii ''relayhub/0.1.0'', II_Protos = protos,
     II_SignedPeerRecord = signed_record me seq pubKey\<rparr>)"
proof -
  let ?e = "signed_record me seq pubKey"
  let ?c = "concat (map (\<lambda>p. pbEncodeLengthDelimField 3 p) protos)"
  have b: "buildIdentifyResponse me seq pubKey protos = pbEncodeLengthDelimField 1 pubKey @ ?c
      @ pbEncodeLengthDelimField 6 (ascii ''relayhub/0.1.0'') @ pbEncodeLengthDelimField 8 ?e"
    by (simp add: buildIdentifyResponse_def signed_record_def Let_def)
  have "length b \<le> length ?c" if "b \<in> set protos" for b
    using that length_delim [of b 3] by (induction protos) auto
  then have protos: "list_all (\<lambda>b. length b \<le> max_alloc) protos"
    using assms b by (fastforce simp: list_all_iff)
  have "length pubKey \<le> max_alloc" "length ?e \<le> max_alloc"
    using assms b length_delim [of pubKey 1] length_delim [of ?e 8] by simp_all
  then show ?thesis
    using parse_field [of 1 pubKey] parse_fields [OF protos] parse_field [of 6 "ascii ''relayhub/0.1.0''"]
      parse_field [of 8 ?e sha256 "[]"]
    by (simp add: parseIdentify_def b identify_field_def empty_info_def max_alloc_def)
qed


lemma identify_proto: "identifyProtoID \<noteq> ascii ''na''" "length identifyProtoID < max_alloc"
  "trimRight identifyProtoID = identifyProtoID" "identifyProtoID \<noteq> CircuitV1ProtoID" "identifyProtoID \<noteq> stopProtoID"
  by (simp_all add: identifyProtoID_def CircuitV1ProtoID_def stopProtoID_def ascii_def max_alloc_def trimRight_def)

abbreviation identify_answer :: "identity \<Rightarrow> u64 \<Rightarrow> bytes" where
  "identify_answer me seq \<equiv>
    buildIdentifyResponse me seq (marshalEd25519PubKey (me_pub me)) [CircuitV1ProtoID, identifyProtoID]"

definition info_of :: "(bytes \<Rightarrow> bytes) \<Rightarrow> identity \<Rightarrow> u64 \<Rightarrow> IdentifyInfo" where
  "info_of sha256 me seq = \<lparr>II_PeerID = base58Encode (computePeerID sha256 (me_pub me)),
     II_Agent = ascii ''relayhub/0.1.0'', II_Protos = [CircuitV1ProtoID, identifyProtoID],
     II_SignedPeerRecord = signed_record me seq (marshalEd25519PubKey (me_pub me))\<rparr>"

lemma handleIncoming_identify:
  assumes "st_in t = ms_answer identifyProtoID @ rest" "3 \<le> st_left t"
  shows "handleIncoming me seq t = (Ok None, t\<lparr>st_in := rest,
    st_out := st_out t @ ms_answer identifyProtoID @ writePbMessage (identify_answer me seq), st_left := st_left t - 3\<rparr>)"
  using st_run_MSRespond [OF assms(1) _ identify_proto(1,2)] assms(2) identify_proto
  by (simp add: handleIncoming_def st_write_def)

lemma detectIdentify_answered:
  assumes "st_in s = ms_answer identifyProtoID @ writePbMessage (identify_answer me seq) @ rest" "2 \<le> st_left s"
    and "length (identify_answer me seq) \<le> 4096" "length (me_pub me) = 32"
  shows "detectIdentify sha256 (Some s) = Some (Ok (Some (info_of sha256 me seq)), Some (s\<lparr>st_in := rest,
    st_out := st_out s @ ms_answer identifyProtoID, st_left := st_left s - 2, st_closed := True\<rparr>))"
proof -
  have "marshalEd25519PubKey (me_pub me) = [0x08, 0x01, 0x12, 0x20] @ me_pub me"
    using assms(4) by (simp add: marshalEd25519PubKey_def encodeVarint_small)
  then have "parseIdentify sha256 (identify_answer me seq) = Some (Ok (info_of sha256 me seq))"
    using parse_buildIdentifyResponse [of me seq "marshalEd25519PubKey (me_pub me)" "[CircuitV1ProtoID, identifyProtoID]" sha256]
      assms(3)
    by (simp add: info_of_def computePeerID_def max_alloc_def)
  then show ?thesis
    using st_run_msSelect [OF assms(1,2) identify_proto(1,2)] assms(3)
    by (simp add: detectIdentify_def st_readOnePb_def readOnePb_writePbMessage st_close_def)
qed

section \<open>The answers of a relay\<close>

lemma detectV1_answered:
  assumes "st_in s = ms_answer CircuitV1ProtoID @ writePbMessage (encodeCircuitV1 m) @ rest" "3 \<le> st_left s"
    and "length (encodeCircuitV1 m) \<le> 4096"
  shows "ok_value (detectV1 (Some s)) = Some (True, V1_Code (v1_sent m), circuitV1StatusString (V1_Code (v1_sent m)))"
  using v1_msg.request_answered [OF assms(1,2) proto_names(3,4) assms(3)]
  by (simp add: detectV1_def ok_value_def)

definition hop_report :: "HopMessage \<Rightarrow> V2Hop" where
  "hop_report m = \<lparr>vh_ok = True, vh_status = Hop_Status m,
     vh_expire = (case Hop_Reservation m of Some v \<Rightarrow> Resv_Expire v | None \<Rightarrow> 0),
     vh_limitDur = (case Hop_Limit m of Some l \<Rightarrow> Limit_Duration l | None \<Rightarrow> 0),
     vh_limitData = (case Hop_Limit m of Some l \<Rightarrow> Limit_Data l | None \<Rightarrow> 0),
     vh_addrs = (case Hop_Reservation m of Some v \<Rightarrow> Resv_Addrs v | None \<Rightarrow> []),
     vh_voucher = (case Hop_Reservation m of Some v \<Rightarrow> Resv_Voucher v | None \<Rightarrow> None)\<rparr>"

lemma detectV2Hop_answered:
  assumes "st_in s = ms_answer hopProtoID @ writePbMessage (encodeHopMessage m) @ rest" "3 \<le> st_left s"
    and "length (encodeHopMessage m) \<le> 4096"
  shows "ok_value (detectV2Hop (Some s)) = Some (hop_report (hop_sent m))"
  using hop_msg.request_answered [OF assms(1,2) proto_names(1,2) assms(3)]
  by (simp add: detectV2Hop_def ok_value_def hop_report_def no_V2Hop_def Let_def split: option.split)

lemma detectV2Connect_answered:
  assumes "st_in s = ms_answer hopProtoID @ writePbMessage (encodeHopMessage m) @ rest" "3 \<le> st_left s"
    and "length (encodeHopMessage m) \<le> 4096"
  shows "ok_value (detectV2Connect sha256 pub dur (Some s)) = Some (True, Hop_Status (hop_sent m), dur)"
  using hop_msg.request_answered [OF assms(1,2) proto_names(1,2) assms(3)]
  by (simp add: detectV2Connect_def ok_value_def)

lemma detectV2Stop_answered:
  assumes "st_in s = ms_answer stopProtoID @ rest" "2 \<le> st_left s"
  shows "ok_value (detectV2Stop (Some s)) = Some True"
  using st_run_msSelect [OF assms proto_names(5,6)] by (simp add: detectV2Stop_def ok_value_def)


text \<open>A stream on which the peer agrees to the protocol and sends \<^verbatim>\<open>m\<close>, and which takes three writes.\<close>

definition answered :: "bytes \<Rightarrow> bytes \<Rightarrow> yamux_stream \<Rightarrow> bool" where
  "answered p m s \<longleftrightarrow> take (length (ms_answer p @ m)) (st_in s) = ms_answer p @ m \<and> 3 \<le> st_left s"

lemma answeredE:
  assumes "answered p m s"
  obtains rest where "st_in s = ms_answer p @ m @ rest" "3 \<le> st_left s" "2 \<le> st_left s"
proof -
  have "st_in s = ms_answer p @ m @ drop (length (ms_answer p @ m)) (st_in s)"
    using assms append_take_drop_id [of "length (ms_answer p @ m)" "st_in s"] by (simp add: answered_def)
  then show thesis using assms by (intro that) (simp_all add: answered_def)
qed

lemma detect_session_answered:
  assumes "sess 0 = Some s0" "answered identifyProtoID (writePbMessage (identify_answer me seq)) s0"
    and "length (identify_answer me seq) \<le> 4096" "length (me_pub me) = 32"
    and "sess 1 = Some s1" "answered CircuitV1ProtoID (writePbMessage (encodeCircuitV1 m1)) s1" "length (encodeCircuitV1 m1) \<le> 4096"
    and "sess 2 = Some s2" "answered hopProtoID (writePbMessage (encodeHopMessage m2)) s2" "length (encodeHopMessage m2) \<le> 4096"
    and "Hop_Status m2 = StatusOK"
    and "sess 3 = Some s3" "answered hopProtoID (writePbMessage (encodeHopMessage m3)) s3" "length (encodeHopMessage m3) \<le> 4096"
    and "sess 4 = Some s4" "answered stopProtoID [] s4"
  shows "detect_session env pub sess r = Some (r\<lparr>dr_Identify := Some (info_of (re_sha256 env) me seq),
    dr_V1 := (True, V1_Code (v1_sent m1), circuitV1StatusString (V1_Code (v1_sent m1))),
    dr_V2Hop := hop_report (hop_sent m2), dr_V2Connect := (True, Hop_Status (hop_sent m3), re_connectTime env),
    dr_V2StopOK := True\<rparr>)"
proof -
  have st: "vh_status (hop_report (hop_sent m2)) = StatusOK"
    using assms(11) by (simp add: hop_report_def hop_sent_def StatusOK_def)
  have i: "Option.bind (detectIdentify (re_sha256 env) (Some s0)) ok_value = Some (Some (info_of (re_sha256 env) me seq))"
    using assms(2) by (rule answeredE) (simp add: detectIdentify_answered [OF _ _ assms(3,4)] ok_value_def)
  have v1: "ok_value (detectV1 (Some s1)) = Some (True, V1_Code (v1_sent m1), circuitV1StatusString (V1_Code (v1_sent m1)))"
    using assms(6) by (rule answeredE) (rule detectV1_answered [OF _ _ assms(7)])
  have hop: "ok_value (detectV2Hop (Some s2)) = Some (hop_report (hop_sent m2))"
    using assms(9) by (rule answeredE) (rule detectV2Hop_answered [OF _ _ assms(10)])
  have conn: "ok_value (detectV2Connect (re_sha256 env) pub (re_connectTime env) (Some s3)) =
      Some (True, Hop_Status (hop_sent m3), re_connectTime env)"
    using assms(13) by (rule answeredE) (rule detectV2Connect_answered [OF _ _ assms(14)])
  have "ok_value (detectV2Stop (Some s4)) = Some True"
    using assms(16) by (rule answeredE) (simp add: detectV2Stop_answered)
  then show ?thesis
    using assms(1,5,8,12,15) i v1 hop conn by (simp add: detect_session_def st)
qed

section \<open>Printing a well-formed multiaddress\<close>

text \<open>A component is a code of the table and a value of the size the table gives; its encoding and its text.\<close>

definition ma_wf :: "u64 \<times> bytes \<Rightarrow> bool" where
  "ma_wf c = (case maProtos (fst c) of
      None \<Rightarrow> False
    | Some (name, sz) \<Rightarrow> if sz < 0 then length (snd c) < 2 ^ 63 else int (length (snd c)) = sz)"

definition ma_enc :: "u64 \<times> bytes \<Rightarrow> bytes" where
  "ma_enc c = encodeVarint (fst c) @
    (case maProtos (fst c) of
       Some (name, sz) \<Rightarrow> (if sz < 0 then encodeVarint (of_nat (length (snd c))) else []) @ snd c
     | None \<Rightarrow> [])"

definition ma_text :: "u64 \<times> bytes \<Rightarrow> bytes" where
  "ma_text c = (case maProtos (fst c) of
      Some (name, sz) \<Rightarrow> ascii (''/'' @ name) @ (if sz = 0 then [] else ma_value name (snd c))
    | None \<Rightarrow> [])"

lemma ma_loop_component:
  assumes "ma_wf c"
  shows "ma_loop (ma_enc c @ b) s = ma_loop b (s @ ma_text c)"
proof -
  obtain code val where c: "c = (code, val)" by (cases c)
  then obtain name sz where p: "maProtos code = Some (name, sz)"
    using assms by (auto simp: ma_wf_def split: option.splits)
  have "unat (of_nat (length val) :: u64) = length val" if "sz < 0"
    using assms that by (simp add: ma_wf_def c p unat_of_nat)
  then show ?thesis
    using assms p c encodeVarint_length(1)
    by (subst ma_loop.simps) (auto simp: ma_wf_def ma_enc_def ma_text_def Let_def not_le)
qed

lemma ma_loop_components:
  "list_all ma_wf cs \<Longrightarrow> ma_loop (concat (map ma_enc cs)) s = Some (Ok (s @ concat (map ma_text cs)))"
proof (induction cs arbitrary: s)
  case (Cons c cs)
  then show ?case using ma_loop_component [of c "concat (map ma_enc cs)" s] by simp
qed (simp add: ma_loop.simps)

text \<open>A length of 2^63 or more in an identify message is a panic.\<close>

lemma identify_huge_length_panics:
  assumes "f < 2 ^ 60" "sint l < 0" "length rest < 2 ^ 63"
  shows "parseIdentify sha256 (encodeTag f 2 @ encodeVarint l @ rest) = Some Panic"
proof -
  have "length rest < unat l"
  proof (rule ccontr)
    assume "\<not> length rest < unat l"
    then have "unat l < 2 ^ 63" using assms(3) by simp
    then have "sint l = int (unat l)" using sint_of_nat_small [of "unat l"] by simp
    then show False using assms(2) by simp
  qed
  then show ?thesis
    using tag_word [OF assms(1), of 2] encodeVarint_length(1) assms(2)
    by (simp add: parseIdentify_def, subst parseIdentify_loop.simps) (simp add: encodeTag_def Let_def not_le)
qed


text \<open>The multiaddress format gives \<^verbatim>\<open>ws\<close> no value.  The table gives it one, so a peer id behind \<^verbatim>\<open>ws\<close> is taken for
  the length of that value and the rest of the address is not printed.\<close>

lemma ws_hides_peer_id:
  assumes "length rest < 0x1a5"
  shows "MultiaddrString (encodeVarint 0x1dd @ encodeVarint 0x1a5 @ rest) = Some (Ok (ascii ''/ws''))"
  using assms encodeVarint_length(1)
  by (simp add: MultiaddrString_def, subst ma_loop.simps) (simp add: maProtos_def Let_def not_le)

section \<open>Properties\<close>

text \<open>C15: The probe finds a relay that works: if the dial, TLS and the multiplexer succeed and the relay answers each
  request, the report holds the identity of the relay, its status for circuits of version one, the
  reservation and the limits it granted, the status of the connect request (which is only made
  because the reservation has status OK), and that it speaks the stop protocol.\<close>

theorem relay_is_reported:
  assumes raw: "re_raw env = Some raw" "answered (ascii ''/tls/1.0.0'') [] raw"
    and tls: "\<And>x. re_tls env x = Some tlsConn" "answered (ascii ''/yamux/1.0.0'') [] tlsConn"
    and mux: "\<And>x. re_yamux env x = Some sess"
    and ident: "sess 0 = Some s0" "answered identifyProtoID (writePbMessage (identify_answer me seq)) s0"
      "length (identify_answer me seq) \<le> 4096" "length (me_pub me) = 32"
    and v1: "sess 1 = Some s1" "answered CircuitV1ProtoID (writePbMessage (encodeCircuitV1 m1)) s1"
      "length (encodeCircuitV1 m1) \<le> 4096"
    and hop: "sess 2 = Some s2" "answered hopProtoID (writePbMessage (encodeHopMessage m2)) s2"
      "length (encodeHopMessage m2) \<le> 4096" "Hop_Status m2 = StatusOK"
    and conn: "sess 3 = Some s3" "answered hopProtoID (writePbMessage (encodeHopMessage m3)) s3"
      "length (encodeHopMessage m3) \<le> 4096"
    and stop: "sess 4 = Some s4" "answered stopProtoID [] s4"
  shows "DetectRelay env pub = Some \<lparr>dr_TCPOK = True, dr_TCPDuration = re_dialTime env, dr_TLSOK = True, dr_YamuxOK = True,
    dr_Identify = Some (info_of (re_sha256 env) me seq),
    dr_V1 = (True, V1_Code (v1_sent m1), circuitV1StatusString (V1_Code (v1_sent m1))),
    dr_V2Hop = hop_report (hop_sent m2), dr_V2Connect = (True, Hop_Status (hop_sent m3), re_connectTime env),
    dr_V2StopOK = True\<rparr>"
proof -
  have p: "ascii ''/tls/1.0.0'' \<noteq> ascii ''na''" "length (ascii ''/tls/1.0.0'') < max_alloc"
    "ascii ''/yamux/1.0.0'' \<noteq> ascii ''na''" "length (ascii ''/yamux/1.0.0'') < max_alloc"
    by (simp_all add: ascii_def max_alloc_def)
  obtain x y where "st_run (msSelect (ascii ''/tls/1.0.0'')) raw = (Ok (), x)"
    "st_run (msSelect (ascii ''/yamux/1.0.0'')) tlsConn = (Ok (), y)"
    using raw(2) tls(2) st_run_msSelect [OF _ _ p(1,2)] st_run_msSelect [OF _ _ p(3,4)]
    by (auto elim!: answeredE)
  then show ?thesis
    using raw(1) tls(1) mux detect_session_answered [OF ident v1 hop conn stop, of env pub]
    by (simp add: DetectRelay_def Let_def)
qed


lemma length_delim_le: "length (pbEncodeLengthDelimField f b) \<le> 20 + length b"
  using encodeVarint_length(2) [of "of_nat (length b)"] encodeVarint_length(2) [of "push_bit 3 (of_nat f) OR of_nat 2"]
  by (simp add: pbEncodeLengthDelimField_def encodeTag_def)

lemma length_varint_le: "length (pbEncodeVarintField f v) \<le> 20"
  using encodeVarint_length(2) [of v] encodeVarint_length(2) [of "push_bit 3 (of_nat f) OR of_nat 0"]
  by (simp add: pbEncodeVarintField_def encodeTag_def)

definition demo_relay :: identity where
  "demo_relay = \<lparr>me_id = [1], me_pub = replicate 32 7, me_sign = (\<lambda>m. [3])\<rparr>"

definition demo_v1 :: CircuitV1Message where
  "demo_v1 = \<lparr>V1_Type = 3, V1_SrcPeer = None, V1_DstPeer = None, V1_Code = 100\<rparr>"

definition demo_session :: "nat \<Rightarrow> yamux_stream option" where
  "demo_session i = map_option demo_stream (map_of
    [(0, ms_answer identifyProtoID @ writePbMessage (identify_answer demo_relay 0)),
     (1, ms_answer CircuitV1ProtoID @ writePbMessage (encodeCircuitV1 demo_v1)),
     (2, ms_answer hopProtoID @ writePbMessage (encodeHopMessage demo_status)),
     (3, ms_answer hopProtoID @ writePbMessage (encodeHopMessage demo_status)),
     (4, ms_answer stopProtoID)] i)"

definition demo_env :: relay_env where
  "demo_env = \<lparr>re_raw = Some (demo_stream (ms_answer (ascii ''/tls/1.0.0''))),
     re_tls = (\<lambda>_. Some (demo_stream (ms_answer (ascii ''/yamux/1.0.0'')))),
     re_yamux = (\<lambda>_. Some demo_session), re_sha256 = (\<lambda>_. replicate 32 1), re_dialTime = 5, re_connectTime = 6\<rparr>"

lemma demo_identify_short: "length (identify_answer demo_relay 0) \<le> 4096"
proof -
  let ?pk = "marshalEd25519PubKey (me_pub demo_relay)"
  let ?rec = "encodePeerRecord 0 (me_id demo_relay) []"
  have pk: "length ?pk = 36" by (simp add: marshalEd25519PubKey_def demo_relay_def encodeVarint_small)
  have r: "length ?rec \<le> 61"
    using length_delim_le [of 1 "[1]"] length_delim_le [of 2 "encodeAddressInfo [1] []"] length_varint_le [of 1 0]
    by (simp add: encodePeerRecord_def encodeAddressInfo_def demo_relay_def)
  have "length (signed_record demo_relay 0 ?pk) \<le> 180"
    using length_delim_le [of 1 ?pk] length_delim_le [of 2 "[0x81, 0x06]"] length_delim_le [of 3 ?rec]
      length_delim_le [of 4 "[3]"] pk r
    by (simp add: signed_record_def encodeEnvelope_def Let_def demo_relay_def)
  then show ?thesis
    using length_delim_le [of 1 ?pk] length_delim_le [of 3 CircuitV1ProtoID] length_delim_le [of 3 identifyProtoID]
      length_delim_le [of 6 "ascii ''relayhub/0.1.0''"] length_delim_le [of 8 "signed_record demo_relay 0 ?pk"] pk
    by (simp add: buildIdentifyResponse_def signed_record_def Let_def CircuitV1ProtoID_def identifyProtoID_def)
qed

lemma demo_v1_short: "length (encodeCircuitV1 demo_v1) \<le> 4096"
  by (simp add: demo_v1_def encodeCircuitV1_def pbEncodeVarintField_def encodeTag_def encodeVarint_small)

lemma answered_demo: "answered p m (demo_stream (ms_answer p @ m))" "answered p [] (demo_stream (ms_answer p))"
  by (simp_all add: answered_def demo_stream_def)

theorem relay_is_reported_witness:
  "\<exists>r. DetectRelay demo_env (replicate 32 9) = Some r \<and> vh_status (dr_V2Hop r) = 100 \<and>
     II_Protos (the (dr_Identify r)) = [CircuitV1ProtoID, identifyProtoID]"
proof -
  have "DetectRelay demo_env (replicate 32 9) = Some \<lparr>dr_TCPOK = True, dr_TCPDuration = re_dialTime demo_env,
      dr_TLSOK = True, dr_YamuxOK = True, dr_Identify = Some (info_of (re_sha256 demo_env) demo_relay 0),
      dr_V1 = (True, V1_Code (v1_sent demo_v1), circuitV1StatusString (V1_Code (v1_sent demo_v1))),
      dr_V2Hop = hop_report (hop_sent demo_status),
      dr_V2Connect = (True, Hop_Status (hop_sent demo_status), re_connectTime demo_env), dr_V2StopOK = True\<rparr>"
    by (rule relay_is_reported [where sess = demo_session,
          OF _ answered_demo(2) _ answered_demo(2) _ _ answered_demo(1) demo_identify_short _ _ answered_demo(1)
            demo_v1_short _ answered_demo(1) demo_status_short _ _ answered_demo(1) demo_status_short _ answered_demo(2)])
      (simp_all add: demo_env_def demo_session_def demo_relay_def demo_status_def StatusOK_def)
  then show ?thesis by (simp add: hop_report_def hop_sent_def demo_status_def info_of_def)
qed

text \<open>C24: The identify handler of the relay client and the identify probe fit: what the handler sends on a stream whose
  dialing side asked for identify is read by the probe as the handler's two protocols, its agent, its signed
  record, and a peer id that decodes to the peer id of the handler's public key.\<close>

theorem identify_exchange:
  assumes "st_in t = ms_answer identifyProtoID" "3 \<le> st_left t" "st_out t = []" "handleIncoming me seq t = (r, tb)"
    and "st_in s = st_out tb" "2 \<le> st_left s" "st_out s = []"
    and "length (identify_answer me seq) \<le> 4096" "length (me_pub me) = 32"
  shows "\<exists>s1 info. detectIdentify sha (Some s) = Some (Ok (Some info), Some s1) \<and> st_out s1 = st_in t \<and> st_in s1 = [] \<and>
    base58Decode (map of_char (II_PeerID info)) = Ok (computePeerID sha (me_pub me)) \<and>
    II_Protos info = [CircuitV1ProtoID, identifyProtoID] \<and> II_Agent info = ascii ''relayhub/0.1.0'' \<and>
    II_SignedPeerRecord info = signed_record me seq (marshalEd25519PubKey (me_pub me))"
proof -
  have "st_in s = ms_answer identifyProtoID @ writePbMessage (identify_answer me seq) @ []"
    using handleIncoming_identify [of t "[]" me seq] assms(1-5) by auto
  from detectIdentify_answered [OF this assms(6,8,9), of sha] show ?thesis
    using assms(1,7) by (auto simp: info_of_def base58_decode_encode_eq computePeerID_def)
qed

theorem identify_exchange_witness:
  "\<exists>s1 info. detectIdentify (\<lambda>_. replicate 32 1) (Some (demo_stream (st_out (snd (handleIncoming demo_relay 0
       (demo_stream (ms_answer identifyProtoID))))))) = Some (Ok (Some info), Some s1) \<and>
     base58Decode (map of_char (II_PeerID info)) = Ok (computePeerID (\<lambda>_. replicate 32 1) (replicate 32 7))"
  using identify_exchange [where t = "demo_stream (ms_answer identifyProtoID)" and me = demo_relay and seq = 0
      and r = "fst (handleIncoming demo_relay 0 (demo_stream (ms_answer identifyProtoID)))"
      and tb = "snd (handleIncoming demo_relay 0 (demo_stream (ms_answer identifyProtoID)))"
      and s = "demo_stream (st_out (snd (handleIncoming demo_relay 0 (demo_stream (ms_answer identifyProtoID)))))"
      and sha = "\<lambda>_. replicate 32 1"] demo_identify_short
  by (auto simp: demo_stream_def demo_relay_def)

text \<open>C25: Whatever a relay sends, the loop that reads its identify message and the loop that prints its addresses
  end: each call gives a result, or panics on a length that is negative as a signed number.\<close>

theorem probe_loops_end: "(\<exists>r. parseIdentify sha256 data = Some r) \<and> (\<exists>r. MultiaddrString b = Some r)"
  using parseIdentify_loop_returns ma_loop_returns by (simp add: parseIdentify_def MultiaddrString_def)

text \<open>A multiaddress made of known protocols with values of the right size is printed component by component,
  each as its name and its value in the notation of its protocol, and nothing is lost or added.\<close>

theorem multiaddr_printed:
  assumes "list_all ma_wf cs"
  shows "MultiaddrString (concat (map ma_enc cs)) = Some (Ok (concat (map ma_text cs)))"
  using ma_loop_components [OF assms, of "[]"] by (simp add: MultiaddrString_def)

theorem multiaddr_printed_witness:
  "MultiaddrString (concat (map ma_enc [(4, [127, 0, 0, 1]), (6, [0x0f, 0xa1]), (0x1c0, [])])) =
    Some (Ok (ascii ''/ip4/127.0.0.1/tcp/4001/tls''))"
  using multiaddr_printed [of "[(4, [127, 0, 0, 1]), (6, [0x0f, 0xa1]), (0x1c0, [])]"]
  by (simp add: ma_wf_def ma_text_def maProtos_def ma_value_def byte_dec_def show_nat.simps ascii_def char_of_def
      bit_iff_odd)

end
