(* ===== verification/Key_Ring.thy ===== *)
theory Key_Ring
  imports Varint Base58
begin

text \<open>
  The key ring of \<^verbatim>\<open>fedkey/keyring.go\<close>: a seed of 48 bytes, its file, and the keys, addresses and identifiers
  that are derived from it.  The curves, ciphers and hashes are libraries: they are the fields of a
  \<^verbatim>\<open>key_lib\<close>, which every derivation has as an argument.  A loop that draws random numbers
  until one is accepted, or that grows with the output of a hash, is a \<^verbatim>\<open>partial_function\<close>: \<^verbatim>\<open>None\<close> is a loop that does not end.
\<close>

section \<open>Text\<close>

text \<open>\<^verbatim>\<open>strings.TrimSpace\<close>: the encodings of the characters it takes for white space.\<close>

definition white_space :: "string list" where
  "white_space =
    [[CHR 0x09], [CHR 0x0A], [CHR 0x0B], [CHR 0x0C], [CHR 0x0D], [CHR 0x20], [CHR 0xC2, CHR 0x85], [CHR 0xC2, CHR 0xA0],
     [CHR 0xE1, CHR 0x9A, CHR 0x80], [CHR 0xE2, CHR 0x80, CHR 0x80], [CHR 0xE2, CHR 0x80, CHR 0x81],
     [CHR 0xE2, CHR 0x80, CHR 0x82], [CHR 0xE2, CHR 0x80, CHR 0x83], [CHR 0xE2, CHR 0x80, CHR 0x84],
     [CHR 0xE2, CHR 0x80, CHR 0x85], [CHR 0xE2, CHR 0x80, CHR 0x86], [CHR 0xE2, CHR 0x80, CHR 0x87],
     [CHR 0xE2, CHR 0x80, CHR 0x88], [CHR 0xE2, CHR 0x80, CHR 0x89], [CHR 0xE2, CHR 0x80, CHR 0x8A],
     [CHR 0xE2, CHR 0x80, CHR 0xA8], [CHR 0xE2, CHR 0x80, CHR 0xA9], [CHR 0xE2, CHR 0x80, CHR 0xAF],
     [CHR 0xE2, CHR 0x81, CHR 0x9F], [CHR 0xE3, CHR 0x80, CHR 0x80]]"

lemma white_space_nonempty: "w \<in> set white_space \<Longrightarrow> w \<noteq> []"
  by (auto simp: white_space_def)

function trim_left :: "string list \<Rightarrow> string \<Rightarrow> string" where
  "trim_left ws s =
    (case find (\<lambda>w. w \<noteq> [] \<and> take (length w) s = w) ws of
       None \<Rightarrow> s
     | Some w \<Rightarrow> trim_left ws (drop (length w) s))"
  by auto
termination
proof (relation "measure (\<lambda>(_, s). length s)")
  fix ws :: "string list" and s w
  assume "find (\<lambda>w. w \<noteq> [] \<and> take (length w) s = w) ws = Some w"
  then have "w \<noteq> []" "take (length w) s = w" by (auto simp: find_Some_iff)
  then have "0 < length w" "0 < length s" by (auto simp: take_eq_Nil)
  then show "((ws, drop (length w) s), (ws, s)) \<in> measure (\<lambda>(_, s). length s)" by simp
qed simp

declare trim_left.simps [simp del]

definition TrimSpace :: "string \<Rightarrow> string" where
  "TrimSpace s = rev (trim_left (map rev white_space) (rev (trim_left white_space s)))"

text \<open>\<^verbatim>\<open>strings.TrimRight(s, "=")\<close> and \<^verbatim>\<open>strings.ToLower\<close> on ASCII text.\<close>

definition trim_pad :: "string \<Rightarrow> string" where
  "trim_pad s = rev (dropWhile (\<lambda>c. c = CHR ''='') (rev s))"

definition lower :: "char \<Rightarrow> char" where
  "lower c = (let n = of_char c :: nat in if 65 \<le> n \<and> n \<le> 90 then char_of (n + 32) else c)"

definition upper_hex :: "bytes \<Rightarrow> string" where
  "upper_hex bs = map (\<lambda>c. let n = of_char c :: nat in if 97 \<le> n \<and> n \<le> 122 then char_of (n - 32) else c) (hex_encode bs)"

fun join_str :: "string \<Rightarrow> string list \<Rightarrow> string" where
  "join_str sep [] = []"
| "join_str sep [s] = s"
| "join_str sep (s # t # ss) = s @ sep @ join_str sep (t # ss)"

text \<open>\<^verbatim>\<open>encoding/base32\<close> and \<^verbatim>\<open>encoding/base64\<close>: a group of \<^verbatim>\<open>k\<close> bytes is \<^verbatim>\<open>g\<close> digits of \<^verbatim>\<open>w\<close> bits; the digits
  that the last group does not reach are padding.\<close>

definition base_group :: "nat \<Rightarrow> nat \<Rightarrow> nat \<Rightarrow> string \<Rightarrow> bytes \<Rightarrow> string" where
  "base_group k g w alphabet c =
    (let n = be_nat (c @ replicate (k - length c) 0);
         digits = map (\<lambda>i. alphabet ! (n div (2 ^ w) ^ (g - 1 - i) mod 2 ^ w)) [0..<g];
         used = (8 * length c + w - 1) div w
     in take used digits @ replicate (g - used) (CHR ''=''))"

fun base32_std :: "bytes \<Rightarrow> string" where
  "base32_std data =
    (if data = [] then []
     else base_group 5 8 5 ''ABCDEFGHIJKLMNOPQRSTUVWXYZ234567'' (take 5 data) @ base32_std (drop 5 data))"

declare base32_std.simps [simp del]

fun base64_enc :: "string \<Rightarrow> bytes \<Rightarrow> string" where
  "base64_enc alphabet data =
    (if data = [] then []
     else base_group 3 4 6 alphabet (take 3 data) @ base64_enc alphabet (drop 3 data))"

declare base64_enc.simps [simp del]

definition base64_std :: "bytes \<Rightarrow> string" where
  "base64_std data = base64_enc ''ABCDEFGHIJKLMNOPQRSTUVWXYZabcdefghijklmnopqrstuvwxyz0123456789+/'' data"

definition base64_raw_url :: "bytes \<Rightarrow> string" where
  "base64_raw_url data =
    trim_pad (base64_enc ''ABCDEFGHIJKLMNOPQRSTUVWXYZabcdefghijklmnopqrstuvwxyz0123456789-_'' data)"

section \<open>The seed and its file\<close>

record KeyRing =
  kr_seed :: bytes

definition SeedBytes :: nat where "SeedBytes = 48"
definition KeyBytes :: nat where "KeyBytes = 32"

datatype file_state = Missing | Unreadable | Contents string

type_synonym files = "string \<Rightarrow> file_state"

datatype key_error = OpenError | RandError | CreateError | WriteError | BadSeedLength | BadSeedHex | NoSeedLine

text \<open>The outcome of \<^verbatim>\<open>crypto/rand\<close>: the bytes it gives, or its failure.\<close>

definition GenerateKeyRing :: "bytes option \<Rightarrow> (key_error, KeyRing) res" where
  "GenerateKeyRing rnd = (case rnd of None \<Rightarrow> Err RandError | Some bs \<Rightarrow> Ok \<lparr>kr_seed = bs\<rparr>)"

text \<open>\<^verbatim>\<open>can_create\<close> says whether the file can be created, \<^verbatim>\<open>wr\<close> how many bytes are written before the write fails
  (\<^verbatim>\<open>None\<close>: it does not fail).\<close>

definition Save :: "string \<Rightarrow> bool \<Rightarrow> nat option \<Rightarrow> KeyRing \<Rightarrow> files \<Rightarrow> (key_error, unit) res \<times> files" where
  "Save path can_create wr kr fs =
    (let text = ''seed='' @ hex_encode (kr_seed kr) @ [CHR 0x0A] in
     if \<not> can_create then (Err CreateError, fs)
     else case wr of
       None \<Rightarrow> (Ok (), fs(path := Contents text))
     | Some n \<Rightarrow> (Err WriteError, fs(path := Contents (take n text))))"

text \<open>\<^verbatim>\<open>bufio.Scanner\<close>: the lines of a file, each without its line end; a line of 64 KiB or more ends the scan.\<close>

function scan_lines :: "string \<Rightarrow> string list" where
  "scan_lines s =
    (if s = [] then []
     else
       let l = takeWhile (\<lambda>c. c \<noteq> CHR 0x0A) s in
       if 65536 \<le> length l then []
       else (if l \<noteq> [] \<and> last l = CHR 0x0D then butlast l else l) # scan_lines (drop (Suc (length l)) s))"
  by auto
termination by (relation "measure length") auto

declare scan_lines.simps [simp del]

fun load_lines :: "string list \<Rightarrow> (key_error, KeyRing) res" where
  "load_lines [] = Err NoSeedLine"
| "load_lines (line # ls) =
    (if take 5 line = ''seed='' then
       (let s = TrimSpace (drop 5 line) in
        if length s \<noteq> SeedBytes * 2 then Err BadSeedLength
        else case hex_decode s of
          None \<Rightarrow> Err BadSeedHex
        | Some bs \<Rightarrow> Ok \<lparr>kr_seed = bs\<rparr>)
     else load_lines ls)"

definition LoadKeyRing ::
  "string \<Rightarrow> bool \<Rightarrow> bytes option \<Rightarrow> bool \<Rightarrow> nat option \<Rightarrow> files \<Rightarrow> (key_error, KeyRing) res \<times> files" where
  "LoadKeyRing path create rnd can_create wr fs = (case fs path of
      Contents text \<Rightarrow> (load_lines (scan_lines text), fs)
    | Unreadable \<Rightarrow> (Err OpenError, fs)
    | Missing \<Rightarrow>
        if \<not> create then (Err OpenError, fs)
        else (case GenerateKeyRing rnd of
            Err e \<Rightarrow> (Err e, fs)
          | Panic \<Rightarrow> (Panic, fs)
          | Ok kr \<Rightarrow>
              (case Save path can_create wr kr fs of
                 (Ok _, fs1) \<Rightarrow> (Ok kr, fs1)
               | (Err e, fs1) \<Rightarrow> (Err e, fs1)
               | (Panic, fs1) \<Rightarrow> (Panic, fs1))))"

definition raw :: "KeyRing \<Rightarrow> bytes" where
  "raw kr = take KeyBytes (kr_seed kr)"

section \<open>The libraries\<close>

text \<open>\<^verbatim>\<open>kl_ed25519\<close>, \<^verbatim>\<open>kl_x25519\<close>: the public key of a private one.  \<^verbatim>\<open>kl_secp\<close>: the private key made of 32 bytes, with
  its public key in compressed and in uncompressed form.  \<^verbatim>\<open>kl_aesctr\<close>: the key stream of a key and an initial
  value.  \<^verbatim>\<open>kl_g1\<close>: the compressed product of the generator and a scalar given as four limbs.\<close>

record key_lib =
  kl_sha256 :: "bytes \<Rightarrow> bytes"
  kl_sha512 :: "bytes \<Rightarrow> bytes"
  kl_hmac :: "bytes \<Rightarrow> bytes \<Rightarrow> bytes"
  kl_keccak256 :: "bytes \<Rightarrow> bytes"
  kl_blake2b256 :: "bytes \<Rightarrow> bytes \<Rightarrow> bytes"
  kl_blake2b512 :: "bytes \<Rightarrow> bytes \<Rightarrow> bytes"
  kl_ripemd160 :: "bytes \<Rightarrow> bytes"
  kl_ed25519 :: "bytes \<Rightarrow> bytes"
  kl_x25519 :: "bytes \<Rightarrow> bytes"
  kl_secp :: "bytes \<Rightarrow> bytes"
  kl_secp_pub :: "bytes \<Rightarrow> bytes"
  kl_secp_raw :: "bytes \<Rightarrow> bytes"
  kl_aesctr :: "bytes \<Rightarrow> bytes \<Rightarrow> nat \<Rightarrow> byte"
  kl_probablyPrime :: "nat \<Rightarrow> bool"
  kl_g1 :: "u64 list \<Rightarrow> bytes"


section \<open>RSA\<close>

text \<open>\<^verbatim>\<open>ctrStream\<close>: the position in the key stream and the buffer, which starts as zeros.  \<^verbatim>\<open>XORKeyStream\<close> is called with the
  buffer as source and as destination, so what was read last is in it when the next read adds the key
  stream to it.\<close>

record ctrStream =
  ct_pos :: nat
  ct_zeroBuf :: bytes

definition new_ctrStream :: ctrStream where
  "new_ctrStream = \<lparr>ct_pos = 0, ct_zeroBuf = replicate 4096 0\<rparr>"

function ctr_Read :: "(nat \<Rightarrow> byte) \<Rightarrow> nat \<Rightarrow> ctrStream \<Rightarrow> bytes \<times> ctrStream" where
  "ctr_Read ks n st =
    (if n = 0 then ([], st)
     else
       let chunk = min n 4096;
           xs = map2 (\<lambda>b k. b XOR k) (take chunk (ct_zeroBuf st)) (map ks [ct_pos st..<ct_pos st + chunk]);
           st1 = \<lparr>ct_pos = ct_pos st + chunk, ct_zeroBuf = go_copy (ct_zeroBuf st) xs\<rparr>
       in case ctr_Read ks (n - chunk) st1 of (ys, st2) \<Rightarrow> (xs @ ys, st2))"
  by auto
termination by (relation "measure (\<lambda>(_, n, _). n)") auto

declare ctr_Read.simps [simp del]

definition smallPrimes :: "nat list" where
  "smallPrimes = [
     3, 5, 7, 11, 13, 17, 19, 23, 29, 31, 37, 41, 43, 47, 53, 59, 61, 67,
     71, 73, 79, 83, 89, 97, 101, 103, 107, 109, 113, 127, 131, 137, 139, 149, 151, 157,
     163, 167, 173, 179, 181, 191, 193, 197, 199, 211, 223, 227, 229, 233, 239, 241, 251, 257,
     263, 269, 271, 277, 281, 283, 293, 307, 311, 313, 317, 331, 337, 347, 349, 353, 359, 367,
     373, 379, 383, 389, 397, 401, 409, 419, 421, 431, 433, 439, 443, 449, 457, 461, 463, 467,
     479, 487, 491, 499, 503, 509, 521, 523, 541, 547, 557, 563, 569, 571, 577, 587, 593, 599,
     601, 607, 613, 617, 619, 631, 641, 643, 647, 653, 659, 661, 673, 677, 683, 691, 701, 709,
     719, 727, 733, 739, 743, 751, 757, 761, 769, 773, 787, 797, 809, 811, 821, 823, 827, 829,
     839, 853, 857, 859, 863, 877, 881, 883, 887, 907, 911, 919, 929, 937, 941, 947, 953, 967,
     971, 977, 983, 991, 997, 1009, 1013, 1019, 1021, 1031, 1033, 1039, 1049, 1051, 1061, 1063, 1069, 1087,
     1091, 1093, 1097, 1103, 1109, 1117, 1123, 1129, 1151, 1153, 1163, 1171, 1181, 1187, 1193, 1201, 1213, 1217,
     1223, 1229, 1231, 1237, 1249, 1259, 1277, 1279, 1283, 1289, 1291, 1297, 1301, 1303, 1307, 1319, 1321, 1327,
     1361, 1367, 1373, 1381, 1399, 1409, 1423, 1427, 1429, 1433, 1439, 1447, 1451, 1453, 1459, 1471, 1481, 1483,
     1487, 1489, 1493, 1499, 1511, 1523, 1531, 1543, 1549, 1553, 1559, 1567, 1571, 1579, 1583, 1597, 1601, 1607,
     1609, 1613, 1619, 1621, 1627, 1637, 1657, 1663, 1667, 1669, 1693, 1697, 1699, 1709, 1721, 1723, 1733, 1741,
     1747, 1753, 1759, 1777, 1783, 1787, 1789, 1801, 1811, 1823, 1831, 1847, 1861, 1867, 1871, 1873, 1877, 1879,
     1889, 1901, 1907, 1913, 1931, 1933, 1949, 1951, 1973, 1979, 1987, 1993, 1997, 1999, 2003, 2011, 2017, 2027,
     2029, 2039, 2053, 2063, 2069, 2081, 2083, 2087, 2089, 2099, 2111, 2113, 2129, 2131, 2137, 2141, 2143, 2153,
     2161, 2179, 2203, 2207, 2213, 2221, 2237, 2239, 2243, 2251, 2267, 2269, 2273, 2281, 2287, 2293, 2297, 2309,
     2311, 2333, 2339, 2341, 2347, 2351, 2357, 2371, 2377, 2381, 2383, 2389, 2393, 2399, 2411, 2417, 2423, 2437,
     2441, 2447, 2459, 2467, 2473, 2477, 2503, 2521, 2531, 2539, 2543, 2549, 2551, 2557, 2579, 2591, 2593, 2609,
     2617, 2621, 2633, 2647, 2657, 2659, 2663, 2671, 2677, 2683, 2687, 2689, 2693, 2699, 2707, 2711, 2713, 2719,
     2729, 2731, 2741, 2749, 2753, 2767, 2777, 2789, 2791, 2797, 2801, 2803, 2819, 2833, 2837, 2843, 2851, 2857,
     2861, 2879, 2887, 2897, 2903, 2909, 2917, 2927, 2939, 2953, 2957, 2963, 2969, 2971, 2999, 3001, 3011, 3019,
     3023, 3037, 3041, 3049, 3061, 3067, 3079, 3083, 3089, 3109, 3119, 3121, 3137, 3163, 3167, 3169, 3181, 3187,
     3191, 3203, 3209, 3217, 3221, 3229, 3251, 3253, 3257, 3259, 3271, 3299, 3301, 3307, 3313, 3319, 3323, 3329,
     3331, 3343, 3347, 3359, 3361, 3371, 3373, 3389, 3391, 3407, 3413, 3433, 3449, 3457, 3461, 3463, 3467, 3469,
     3491, 3499, 3511, 3517, 3527, 3529, 3533, 3539, 3541, 3547, 3557, 3559, 3571, 3581, 3583, 3593, 3607, 3613,
     3617, 3623, 3631, 3637, 3643, 3659, 3671, 3673, 3677, 3691, 3697, 3701, 3709, 3719, 3727, 3733, 3739, 3761,
     3767, 3769, 3779, 3793, 3797, 3803, 3821, 3823, 3833, 3847, 3851, 3853, 3863, 3877, 3881, 3889, 3907, 3911,
     3917, 3919, 3923, 3929, 3931, 3943, 3947, 3967, 3989, 4001, 4003, 4007, 4013, 4019, 4021, 4027, 4049, 4051,
     4057, 4073, 4079, 4091, 4093, 4099, 4111, 4127, 4129, 4133, 4139, 4153, 4157, 4159, 4177, 4201, 4211, 4217,
     4219, 4229, 4231, 4241, 4243, 4253, 4259, 4261, 4271, 4273, 4283, 4289, 4297, 4327, 4337, 4339, 4349, 4357,
     4363, 4373, 4391, 4397, 4409, 4421, 4423, 4441, 4447, 4451, 4457, 4463, 4481, 4483, 4493, 4507, 4513, 4517,
     4519, 4523, 4547, 4549, 4561, 4567, 4583, 4591, 4597, 4603, 4621, 4637, 4639, 4643, 4649, 4651, 4657, 4663,
     4673, 4679, 4691, 4703, 4721, 4723, 4729, 4733, 4751, 4759, 4783, 4787, 4789, 4793, 4799, 4801, 4813, 4817,
     4831, 4861, 4871, 4877, 4889, 4903, 4909, 4919, 4931, 4933, 4937, 4943, 4951, 4957, 4967, 4969, 4973, 4987,
     4993, 4999]"

definition trialDiv :: "nat \<Rightarrow> bool" where
  "trialDiv p = list_all (\<lambda>prime. p mod prime \<noteq> 0) smallPrimes"

text \<open>The number made of the bytes that were read: the first byte gets its top bit, the last its lowest.\<close>

definition candidate :: "nat \<Rightarrow> bytes \<Rightarrow> nat" where
  "candidate bits b0 =
    (let nbytes = (bits + 7) div 8; excess = nbytes * 8 - bits;
         b1 = b0[0 := (b0 ! 0) AND drop_bit excess 0xFF];
         b2 = b1[0 := (b1 ! 0) OR 0x80];
         b3 = b2[nbytes - 1 := (b2 ! (nbytes - 1)) OR 1]
     in be_nat b3)"

partial_function (option) bigPrime ::
  "(nat \<Rightarrow> bool) \<Rightarrow> (nat \<Rightarrow> byte) \<Rightarrow> nat \<Rightarrow> ctrStream \<Rightarrow> (nat \<times> ctrStream) option" where
  "bigPrime probablyPrime ks bits st =
    (case ctr_Read ks ((bits + 7) div 8) st of (b, st1) \<Rightarrow>
       let p = candidate bits b in
       if \<not> trialDiv p then bigPrime probablyPrime ks bits st1
       else if probablyPrime p then Some (p, st1)
       else bigPrime probablyPrime ks bits st1)"

text \<open>\<^verbatim>\<open>big.Int.ModInverse\<close>, by the extended Euclidean algorithm.\<close>

function egcd :: "int \<Rightarrow> int \<Rightarrow> int \<times> int \<times> int" where
  "egcd a b = (if b \<le> 0 then (a, 1, 0) else case egcd b (a mod b) of (g, x, y) \<Rightarrow> (g, y, x - (a div b) * y))"
  by auto
termination by (relation "measure (\<lambda>(_, b). nat b)") auto

declare egcd.simps [simp del]

definition ModInverse :: "nat \<Rightarrow> nat \<Rightarrow> nat option" where
  "ModInverse a n = (case egcd (int a) (int n) of (g, x, y) \<Rightarrow> if g = 1 then Some (nat (x mod int n)) else None)"

record PrivateKey =
  rsa_N :: nat
  rsa_E :: nat
  rsa_D :: nat
  rsa_Primes :: "nat list"
  rsa_Dp :: nat
  rsa_Dq :: nat
  rsa_Qinv :: "nat option"

text \<open>From the two primes to the key; \<^verbatim>\<open>None\<close> is the error of a failed inverse.\<close>

definition rsa_of_primes :: "nat \<Rightarrow> nat \<Rightarrow> PrivateKey option" where
  "rsa_of_primes p0 q0 =
    (let (p, q) = (if p0 < q0 then (q0, p0) else (p0, q0));
         n = p * q; e = 65537; totient = (p - 1) * (q - 1)
     in case ModInverse e totient of
          None \<Rightarrow> None
        | Some d \<Rightarrow> Some \<lparr>rsa_N = n, rsa_E = e, rsa_D = d, rsa_Primes = [p, q], rsa_Dp = d mod (p - 1),
            rsa_Dq = d mod (q - 1), rsa_Qinv = ModInverse q p\<rparr>)"

definition deterministicRSA4096 :: "(nat \<Rightarrow> bool) \<Rightarrow> (nat \<Rightarrow> byte) \<Rightarrow> PrivateKey option option" where
  "deterministicRSA4096 probablyPrime ks =
    Option.bind (bigPrime probablyPrime ks 2048 new_ctrStream) (\<lambda>(p, s1).
    Option.bind (bigPrime probablyPrime ks 2048 s1) (\<lambda>(q, s2).
    if p = q then map_option (\<lambda>(q, s3). rsa_of_primes p q) (bigPrime probablyPrime ks 2048 s2)
    else Some (rsa_of_primes p q)))"

definition OpenDHTKey :: "key_lib \<Rightarrow> KeyRing \<Rightarrow> PrivateKey option option" where
  "OpenDHTKey lib kr = deterministicRSA4096 (kl_probablyPrime lib)
    (kl_aesctr lib (take KeyBytes (kr_seed kr)) (drop KeyBytes (kr_seed kr)))"


section \<open>Keys\<close>

definition NostrKey :: "key_lib \<Rightarrow> KeyRing \<Rightarrow> bytes \<times> bytes" where
  "NostrKey lib kr = (kl_secp lib (raw kr), kl_secp_pub lib (raw kr))"

text \<open>An Ed25519 private key is the seed followed by the public key.\<close>

definition BTDHTKey :: "key_lib \<Rightarrow> KeyRing \<Rightarrow> bytes" where
  "BTDHTKey lib kr = raw kr @ kl_ed25519 lib (raw kr)"

definition ed_Public :: "bytes \<Rightarrow> bytes" where
  "ed_Public priv = drop 32 priv"

definition DrasilKey :: "key_lib \<Rightarrow> KeyRing \<Rightarrow> bytes \<times> bytes" where
  "DrasilKey lib kr =
    (let priv = BTDHTKey lib kr; pub = ed_Public priv; sk = go_copy (replicate 64 0) priv in (sk, pub))"

definition ToxKey :: "KeyRing \<Rightarrow> bytes" where
  "ToxKey kr =
    (let sk0 = go_copy (replicate KeyBytes 0) (raw kr);
         sk1 = sk0[0 := (sk0 ! 0) AND 248];
         sk2 = sk1[31 := (sk1 ! 31) AND 127]
     in sk2[31 := (sk2 ! 31) OR 64])"

text \<open>\<^verbatim>\<open>ecdh.NewPrivateKey\<close> refuses keys that are not 32 bytes long; the caller panics then.\<close>

definition I2PDKeys :: "key_lib \<Rightarrow> KeyRing \<Rightarrow> (unit, bytes \<times> bytes) res" where
  "I2PDKeys lib kr = (if length (raw kr) \<noteq> 32 then Panic else Ok (raw kr @ kl_ed25519 lib (raw kr), raw kr))"

definition x25519Pub :: "key_lib \<Rightarrow> KeyRing \<Rightarrow> (unit, bytes) res" where
  "x25519Pub lib kr = (if length (raw kr) \<noteq> 32 then Panic else Ok (kl_x25519 lib (raw kr)))"

definition KeyRing_String :: "key_lib \<Rightarrow> KeyRing \<Rightarrow> (unit, string) res" where
  "KeyRing_String lib kr = (case I2PDKeys lib kr of
      Ok (ed2, x2) \<Rightarrow> Ok (
        ''Nostr  (secp256k1): '' @ upper_hex (drop 1 (snd (NostrKey lib kr))) @ [CHR 0x0A] @
        ''BT-DHT (ed25519):   '' @ upper_hex (ed_Public (BTDHTKey lib kr)) @ [CHR 0x0A] @
        ''Tox    (X25519):    '' @ upper_hex (kl_x25519 lib (ToxKey kr)) @ [CHR 0x0A] @
        ''I2PD   (Ed25519):  '' @ upper_hex (ed_Public ed2) @ [CHR 0x0A] @
        ''I2PD   (X25519):   '' @ upper_hex (kl_x25519 lib x2) @ [CHR 0x0A])
    | Err e \<Rightarrow> Err e
    | Panic \<Rightarrow> Panic)"

definition ed25519Pub :: "key_lib \<Rightarrow> KeyRing \<Rightarrow> bytes" where
  "ed25519Pub lib kr = ed_Public (BTDHTKey lib kr)"

definition Secp256k1Priv :: "key_lib \<Rightarrow> KeyRing \<Rightarrow> bytes" where
  "Secp256k1Priv lib kr = fst (NostrKey lib kr)"

definition Secp256k1Pub :: "key_lib \<Rightarrow> KeyRing \<Rightarrow> bytes" where
  "Secp256k1Pub lib kr = snd (NostrKey lib kr)"

definition Secp256k1PubUncompressed :: "key_lib \<Rightarrow> KeyRing \<Rightarrow> bytes" where
  "Secp256k1PubUncompressed lib kr = kl_secp_raw lib (raw kr)"

definition base32Encode :: "bytes \<Rightarrow> string" where
  "base32Encode data = trim_pad (base32_std data)"

definition hkdfExtract :: "key_lib \<Rightarrow> bytes \<Rightarrow> bytes \<Rightarrow> bytes" where
  "hkdfExtract lib salt ikm = kl_hmac lib salt ikm"

partial_function (option) hkdf_loop ::
  "(bytes \<Rightarrow> bytes) \<Rightarrow> nat \<Rightarrow> bytes \<Rightarrow> bytes \<Rightarrow> byte \<Rightarrow> bytes option" where
  "hkdf_loop mac len t out counter =
    (if length out < len
     then let t1 = mac (t @ [counter]) in hkdf_loop mac len t1 (out @ t1) (counter + 1)
     else Some (take len out))"

definition hkdfExpand :: "key_lib \<Rightarrow> bytes \<Rightarrow> nat \<Rightarrow> bytes option" where
  "hkdfExpand lib prk len = hkdf_loop (kl_hmac lib prk) len [] [] 1"

definition Sha256d :: "key_lib \<Rightarrow> bytes \<Rightarrow> bytes" where
  "Sha256d lib data = kl_sha256 lib (kl_sha256 lib data)"

definition bitcoinAddress :: "key_lib \<Rightarrow> bytes \<Rightarrow> string" where
  "bitcoinAddress lib pubKeyCompressed =
    base58Check (Sha256d lib) 0x00 (kl_ripemd160 lib (kl_sha256 lib pubKeyCompressed))"

section \<open>Ed25519 protocols\<close>

definition TorV3OnionAddress :: "key_lib \<Rightarrow> KeyRing \<Rightarrow> string" where
  "TorV3OnionAddress lib kr =
    (let pub = ed25519Pub lib kr; ver = 0x03;
         checksum = kl_sha256 lib (ascii ''.onion checksum'' @ pub @ [ver]);
         addrData = pub @ take 2 checksum @ [ver]
     in map lower (base32Encode addrData) @ ''.onion'')"

definition SSBFeedID :: "key_lib \<Rightarrow> KeyRing \<Rightarrow> string" where
  "SSBFeedID lib kr = ''@'' @ base64_std (ed25519Pub lib kr) @ ''.ed25519''"

definition HypercoreDiscoveryKey256 :: "key_lib \<Rightarrow> KeyRing \<Rightarrow> bytes" where
  "HypercoreDiscoveryKey256 lib kr = kl_blake2b256 lib (ascii ''HYPERCORE'') (ed25519Pub lib kr)"

definition HypercoreDiscoveryKey512 :: "key_lib \<Rightarrow> KeyRing \<Rightarrow> bytes" where
  "HypercoreDiscoveryKey512 lib kr = kl_blake2b512 lib (ascii ''HYPERCORE'') (ed25519Pub lib kr)"

definition CjdnsIPv6 :: "key_lib \<Rightarrow> KeyRing \<Rightarrow> string" where
  "CjdnsIPv6 lib kr =
    (let h = kl_sha512 lib (ed25519Pub lib kr);
         addr0 = go_copy (replicate 16 0) (take 16 h);
         addr = addr0[0 := ((addr0 ! 0) AND 0x0F) OR 0xFC];
         parts = map (\<lambda>k. hex_encode [addr ! (2 * k), addr ! (2 * k + 1)]) [0..<8]
     in ''fc'' @ drop 2 (join_str '':'' parts))"

text \<open>One bit of the loop in \<^verbatim>\<open>YggdrasilIPv6\<close>: whether the first zero was passed, the ones before it, the bits collected and
  their number, and the bytes that are complete.\<close>

definition ygg_bit :: "bool \<Rightarrow> bool \<times> byte \<times> byte \<times> nat \<times> bytes \<Rightarrow> bool \<times> byte \<times> byte \<times> nat \<times> bytes" where
  "ygg_bit b st = (case st of (dn, ones, bits, nBits, temp) \<Rightarrow>
     if \<not> dn \<and> b then (dn, ones + 1, bits, nBits, temp)
     else if \<not> dn then (True, ones, bits, nBits, temp)
     else
       let bits1 = push_bit 1 bits OR of_bool b; nBits1 = nBits + 1 in
       if nBits1 = 8 then (dn, ones, 0, 0, temp @ [bits1]) else (dn, ones, bits1, nBits1, temp))"

definition ygg_addr :: "bytes \<Rightarrow> bytes" where
  "ygg_addr pub =
    (let buf = map NOT (go_copy (replicate 32 0) pub);
         bit_at = (\<lambda>idx. bit (buf ! (idx div 8)) (7 - idx mod 8))
     in case fold (\<lambda>idx. ygg_bit (bit_at idx)) [0..<256] (False, 0, 0, 0, []) of
          (dn, ones, bits, nBits, temp) \<Rightarrow> 0x02 # ones # go_copy (replicate 14 0) temp)"

text \<open>\<^verbatim>\<open>%x\<close> of one byte has no leading zero.\<close>

definition short_hex :: "byte \<Rightarrow> string" where
  "short_hex b = (if unat b < 16 then [hex_digit (unat b)] else hex_encode [b])"

definition YggdrasilIPv6 :: "key_lib \<Rightarrow> KeyRing \<Rightarrow> string" where
  "YggdrasilIPv6 lib kr =
    (let addr = ygg_addr (ed25519Pub lib kr)
     in join_str '':'' (map (\<lambda>k. short_hex (addr ! (2 * k)) @ hex_encode [addr ! (2 * k + 1)]) [0..<8]))"

definition NKNNodeID :: "key_lib \<Rightarrow> KeyRing \<Rightarrow> string" where
  "NKNNodeID lib kr = hex_encode (kl_sha256 lib (ed25519Pub lib kr))"

definition GNUnetPeerID :: "key_lib \<Rightarrow> KeyRing \<Rightarrow> string" where
  "GNUnetPeerID lib kr = hex_encode (kl_sha512 lib (ed25519Pub lib kr))"

definition SiaNodeKey :: "key_lib \<Rightarrow> KeyRing \<Rightarrow> string" where
  "SiaNodeKey lib kr = ''ed25519:'' @ hex_encode (ed25519Pub lib kr)"

definition TahoeNodeID :: "key_lib \<Rightarrow> KeyRing \<Rightarrow> string" where
  "TahoeNodeID lib kr = ''v0-'' @ base32Encode (ed25519Pub lib kr)"

text \<open>\<^verbatim>\<open>TriblerPeerID\<close>, \<^verbatim>\<open>StellarNodeID\<close> and \<^verbatim>\<open>KayakNetNodeID\<close> are the same; the secret keys of the other protocols are
  the raw key itself.\<close>

definition TriblerPeerID :: "key_lib \<Rightarrow> KeyRing \<Rightarrow> string" where
  "TriblerPeerID lib kr = hex_encode (ed25519Pub lib kr)"

section \<open>secp256k1 protocols\<close>

definition BitcoinV2Key :: "key_lib \<Rightarrow> KeyRing \<Rightarrow> bytes" where
  "BitcoinV2Key lib kr = Secp256k1Priv lib kr"

definition EthNodeKeyHex :: "key_lib \<Rightarrow> KeyRing \<Rightarrow> string" where
  "EthNodeKeyHex lib kr = hex_encode (Secp256k1Priv lib kr)"

definition EthNodeID :: "key_lib \<Rightarrow> KeyRing \<Rightarrow> string" where
  "EthNodeID lib kr = hex_encode (drop 1 (Secp256k1PubUncompressed lib kr))"

definition EthENRNodeID :: "key_lib \<Rightarrow> KeyRing \<Rightarrow> bytes" where
  "EthENRNodeID lib kr = kl_keccak256 lib (drop 1 (Secp256k1PubUncompressed lib kr))"

definition LightningNodeID :: "key_lib \<Rightarrow> KeyRing \<Rightarrow> string" where
  "LightningNodeID lib kr = hex_encode (Secp256k1Pub lib kr)"

definition BitmessageAddress :: "key_lib \<Rightarrow> KeyRing \<Rightarrow> string" where
  "BitmessageAddress lib kr =
    (let encSeed = kl_sha256 lib (drop KeyBytes (kr_seed kr));
         merged = kl_secp_raw lib (raw kr) @ kl_secp_raw lib encSeed
     in base58Check (Sha256d lib) 0x00 (kl_ripemd160 lib (kl_sha512 lib merged)))"

definition ZeroNetAddress :: "key_lib \<Rightarrow> KeyRing \<Rightarrow> string" where
  "ZeroNetAddress lib kr = bitcoinAddress lib (Secp256k1Pub lib kr)"

definition AvalancheNodeID :: "key_lib \<Rightarrow> KeyRing \<Rightarrow> string" where
  "AvalancheNodeID lib kr = ''NodeID-'' @ fedkey_base58Encode (take 20 (kl_sha256 lib (Secp256k1Pub lib kr)))"

section \<open>RSA and BLS protocols\<close>

definition ArweaveAddress :: "key_lib \<Rightarrow> KeyRing \<Rightarrow> string option" where
  "ArweaveAddress lib kr = map_option (\<lambda>k. case k of
      None \<Rightarrow> ''''
    | Some rsaKey \<Rightarrow> base64_raw_url (kl_sha256 lib (big_Bytes (rsa_N rsaKey)))) (OpenDHTKey lib kr)"

definition StorjIdentityKey :: "key_lib \<Rightarrow> KeyRing \<Rightarrow> string" where
  "StorjIdentityKey lib kr = hex_encode (kl_sha256 lib (Secp256k1Pub lib kr))"

definition bls_order :: nat where
  "bls_order = 0x73eda753299d7d483339d80809a1d80553bda402fffe5bfeffffffff00000001"

text \<open>Four limbs, the lowest first, each of eight bytes from the end of the list.\<close>

definition limb :: "bytes \<Rightarrow> nat \<Rightarrow> u64" where
  "limb b i = fold (\<lambda>j l. if i * 8 + j < length b
     then l OR push_bit (j * 8) (ucast (b ! (length b - 1 - (i * 8 + j)))) else l) [0..<8] 0"

definition frFromBytes :: "bytes \<Rightarrow> u64 list" where
  "frFromBytes b = map (limb b) [0..<4]"

text \<open>\<^verbatim>\<open>okm\<close> reduced modulo the group order has at most 32 bytes, so \<^verbatim>\<open>FillBytes\<close> does not panic.\<close>

definition blsKeyGen :: "key_lib \<Rightarrow> bytes \<Rightarrow> (bytes \<times> bytes) option" where
  "blsKeyGen lib ikm =
    (let prk = hkdfExtract lib (ascii ''BLS-SIG-KEYGEN-SALT-'') ikm
     in map_option (\<lambda>okm.
          let skBytes = be_bytes 32 (be_nat okm mod bls_order) in (skBytes, kl_g1 lib (frFromBytes skBytes)))
        (hkdfExpand lib prk 48))"

text \<open>\<^verbatim>\<open>ETH2ValidatorKey\<close> and \<^verbatim>\<open>AvalancheBLSKey\<close> are the same.\<close>

definition ChiaFarmerKey :: "key_lib \<Rightarrow> KeyRing \<Rightarrow> (bytes \<times> bytes) option" where
  "ChiaFarmerKey lib kr = blsKeyGen lib (raw kr)"

section \<open>libp2p\<close>

definition protoLenDelim :: "u64 \<Rightarrow> bytes \<Rightarrow> bytes" where
  "protoLenDelim field data = protoVarint (field * 8 + 2) @ protoVarint (of_nat (length data)) @ data"

definition protoVarintField :: "u64 \<Rightarrow> u64 \<Rightarrow> bytes" where
  "protoVarintField field v = protoVarint (field * 8 + 0) @ protoVarint v"

definition multihashEncode :: "u64 \<Rightarrow> bytes \<Rightarrow> bytes" where
  "multihashEncode code data = protoVarint code @ protoVarint (of_nat (length data)) @ data"

text \<open>The part behind the choice of the key.\<close>

definition peer_id_text :: "key_lib \<Rightarrow> u64 \<Rightarrow> bytes \<Rightarrow> string" where
  "peer_id_text lib keyType pubKeyData =
    (let pubProto = protoVarintField 1 keyType @ protoLenDelim 2 pubKeyData in
     if length pubProto \<le> 42 then fedkey_base58Encode (multihashEncode 0x00 pubProto)
     else fedkey_base58Encode (multihashEncode 0x12 (kl_sha256 lib pubProto)))"

definition Libp2pPeerID :: "key_lib \<Rightarrow> int \<Rightarrow> KeyRing \<Rightarrow> string option" where
  "Libp2pPeerID lib kind kr =
    (if kind = 0 then Some (peer_id_text lib 1 (ed25519Pub lib kr))
     else if kind = 1 then Some (peer_id_text lib 2 (Secp256k1Pub lib kr))
     else if kind = 2 then map_option (\<lambda>k. case k of
         None \<Rightarrow> ''''
       | Some rsaKey \<Rightarrow> peer_id_text lib 0 (big_Bytes (rsa_N rsaKey))) (OpenDHTKey lib kr)
     else Some '''')"


section \<open>The key file\<close>

lemma trim_left_none:
  assumes "\<And>w. w \<in> set ws \<Longrightarrow> w \<noteq> [] \<Longrightarrow> hd w \<notin> A" "set s \<subseteq> A"
  shows "trim_left ws s = s"
proof -
  have "hd w \<in> A" if "w \<noteq> []" "take (length w) s = w" for w
    using that assms(2) by (metis hd_in_set in_set_takeD subsetD)
  then have "find (\<lambda>w. w \<noteq> [] \<and> take (length w) s = w) ws = None"
    unfolding find_None_iff using assms(1) by blast
  then show ?thesis by (subst trim_left.simps) simp
qed

lemma hex_encode_chars: "set (hex_encode bs) \<subseteq> set ''0123456789abcdef''"
proof -
  define A where "A = set ''0123456789abcdef''"
  have "list_all (\<lambda>n. hex_digit n \<in> set ''0123456789abcdef'') [0..<16]" by code_simp
  then have "hex_digit n \<in> A" if "n < 16" for n
    using that unfolding A_def [symmetric] by (simp only: list_all_iff) simp
  moreover have "unat (b :: byte) div 16 < 16" "unat b mod 16 < 16" for b
    by (simp_all add: less_mult_imp_div_less)
  ultimately show ?thesis unfolding A_def [symmetric] by (auto simp: hex_encode_def)
qed

lemma length_hex_encode [simp]: "length (hex_encode bs) = 2 * length bs"
  by (induction bs) (simp_all add: hex_encode_def)

lemma TrimSpace_hex [simp]: "TrimSpace (hex_encode bs) = hex_encode bs"
proof -
  define A where "A = set ''0123456789abcdef''"
  have "list_all (\<lambda>w. hd w \<notin> set ''0123456789abcdef'' \<and> last w \<notin> set ''0123456789abcdef'') white_space" by code_simp
  then have hd: "hd w \<notin> A \<and> last w \<notin> A" if "w \<in> set white_space" for w
    using that unfolding A_def [symmetric] list_all_iff by blast
  have chars: "set (hex_encode bs) \<subseteq> A" using hex_encode_chars [of bs] by (simp only: A_def)
  have "trim_left white_space (hex_encode bs) = hex_encode bs"
    using hd chars by (intro trim_left_none [where A = A]) blast+
  moreover have "trim_left (map rev white_space) (rev (hex_encode bs)) = rev (hex_encode bs)"
    using hd chars by (intro trim_left_none [where A = A]) (auto simp: hd_rev)
  ultimately show ?thesis by (simp add: TrimSpace_def)
qed

lemma scan_lines_Nil [simp]: "scan_lines [] = []"
  by (subst scan_lines.simps) simp

lemma scan_lines_one:
  assumes "l \<noteq> []" "CHR 0x0A \<notin> set l" "last l \<noteq> CHR 0x0D" "length l < 65536"
  shows "scan_lines (l @ [CHR 0x0A]) = [l]"
proof -
  have "takeWhile (\<lambda>c. c \<noteq> CHR 0x0A) (l @ [CHR 0x0A]) = l"
    using assms(2) by (simp add: takeWhile_append)
  then show ?thesis using assms by (subst scan_lines.simps) (simp add: Let_def)
qed

lemma key_file_lines:
  assumes "length (kr_seed kr) = SeedBytes"
  shows "scan_lines (''seed='' @ hex_encode (kr_seed kr) @ [CHR 0x0A]) = [''seed='' @ hex_encode (kr_seed kr)]"
proof -
  have "length (hex_encode (kr_seed kr)) = 96" using assms by (simp add: SeedBytes_def)
  then have "hex_encode (kr_seed kr) \<noteq> []" unfolding length_0_conv [symmetric] by simp
  then have "last (''seed='' @ hex_encode (kr_seed kr)) \<in> set (hex_encode (kr_seed kr))" by simp
  then have "last (''seed='' @ hex_encode (kr_seed kr)) \<noteq> CHR 0x0D" "CHR 0x0A \<notin> set (''seed='' @ hex_encode (kr_seed kr))"
    using hex_encode_chars [of "kr_seed kr"] by auto
  then show ?thesis
    using scan_lines_one [of "''seed='' @ hex_encode (kr_seed kr)"] assms by (simp add: SeedBytes_def)
qed

lemma load_saved:
  assumes "length (kr_seed kr) = SeedBytes"
  shows "load_lines (scan_lines (''seed='' @ hex_encode (kr_seed kr) @ [CHR 0x0A])) = Ok kr"
  using assms unfolding key_file_lines [OF assms] by (simp add: Let_def)


section \<open>RSA keys work\<close>

lemma egcd_bezout: "egcd a b = (g, x, y) \<Longrightarrow> g = a * x + b * y"
proof (induction a b arbitrary: g x y rule: egcd.induct)
  case (1 a b)
  show ?case
  proof (cases "b \<le> 0")
    case False
    obtain g' x' y' where r: "egcd b (a mod b) = (g', x', y')" by (metis prod_cases3)
    then have "egcd a b = (g', y', x' - (a div b) * y')" using False by (subst egcd.simps) simp
    then have e: "g = g'" "x = y'" "y = x' - (a div b) * y'" using "1.prems" by simp_all
    have "g' = b * x' + (a mod b) * y'" using "1.IH" [OF False r] .
    also have "a mod b = a - (a div b) * b" by (simp add: minus_div_mult_eq_mod)
    finally show ?thesis unfolding e by (simp add: algebra_simps)
  next
    case True
    then have "egcd a b = (a, 1, 0)" by (subst egcd.simps) simp
    then show ?thesis using "1.prems" by simp
  qed
qed

lemma egcd_gcd: "0 \<le> a \<Longrightarrow> 0 \<le> b \<Longrightarrow> fst (egcd a b) = gcd a b"
proof (induction a b rule: egcd.induct)
  case (1 a b)
  show ?case
  proof (cases "b \<le> 0")
    case False
    then have "fst (egcd a b) = fst (egcd b (a mod b))" by (subst egcd.simps) (simp split: prod.split)
    then show ?thesis using "1.IH" [OF False] 1 False by (simp add: gcd_red_int [of a b])
  qed (use 1 in \<open>subst egcd.simps, simp\<close>)
qed

lemma ModInverse_coprime:
  assumes "coprime a n" "1 < n"
  shows "\<exists>d. ModInverse a n = Some d \<and> a * d mod n = 1"
proof -
  obtain g x y where r: "egcd (int a) (int n) = (g, x, y)" by (metis prod_cases3)
  have "g = 1" using egcd_gcd [of "int a" "int n"] r assms(1) by (simp add: coprime_iff_gcd_eq_1)
  then have "1 = int a * x + int n * y" using egcd_bezout [OF r] by simp
  then have "int a * x mod int n = 1 mod int n" by (metis mod_mult_self2)
  then have "int a * (x mod int n) mod int n = 1" using assms(2) by (simp add: mod_mult_right_eq)
  moreover have "int (nat (x mod int n)) = x mod int n" using assms(2) by simp
  ultimately have "int (a * nat (x mod int n) mod n) = 1" by (simp only: of_nat_mod of_nat_mult)
  then show ?thesis using r \<open>g = 1\<close> by (simp add: ModInverse_def)
qed

definition is_prime :: "nat \<Rightarrow> bool" where
  "is_prime p \<longleftrightarrow> 1 < p \<and> (\<forall>d. d dvd p \<longrightarrow> d = 1 \<or> d = p)"

lemma prime_coprime: "is_prime p \<Longrightarrow> \<not> p dvd a \<Longrightarrow> coprime p a"
  by (metis coprime_iff_gcd_eq_1 gcd_dvd1 gcd_dvd2 is_prime_def)

lemma prime_dvd_choose:
  assumes "is_prime p" "0 < k" "k < p"
  shows "p dvd (p choose k)"
proof -
  have "k * (p choose k) = p * (p - 1 choose (k - 1))" using assms(2) by (rule times_binomial_minus1_eq)
  then have "p dvd k * (p choose k)" by simp
  moreover have "coprime p k" using assms by (intro prime_coprime) (auto dest: dvd_imp_le)
  ultimately show ?thesis by (simp add: coprime_dvd_mult_right_iff)
qed

lemma fermat: "is_prime p \<Longrightarrow> a ^ p mod p = a mod p"
proof (induction a)
  case 0
  then show ?case by (cases p) (simp_all add: is_prime_def)
next
  case (Suc a)
  have p: "0 < p" using Suc.prems by (simp add: is_prime_def)
  have "{..p} = {0, p} \<union> {1..<p}" using p by auto
  then have "(\<Sum>k\<le>p. (p choose k) * a ^ k) = (\<Sum>k\<in>{0, p}. (p choose k) * a ^ k) + (\<Sum>k\<in>{1..<p}. (p choose k) * a ^ k)"
    by (simp only:) (rule sum.union_disjoint, auto)
  also have "(\<Sum>k\<in>{0, p}. (p choose k) * a ^ k) = 1 + a ^ p" using p by simp
  finally have "(a + 1) ^ p = 1 + a ^ p + (\<Sum>k\<in>{1..<p}. (p choose k) * a ^ k)"
    using binomial [of a 1 p] by simp
  moreover have "p dvd (\<Sum>k\<in>{1..<p}. (p choose k) * a ^ k)"
    using prime_dvd_choose [OF Suc.prems] by (intro dvd_sum) auto
  ultimately have "(a + 1) ^ p mod p = (1 + a ^ p) mod p" by (auto simp: dvd_def)
  also have "\<dots> = (1 + a) mod p" using Suc.IH [OF Suc.prems] by (metis mod_add_right_eq)
  finally show ?case by simp
qed

lemma fermat_exponent:
  assumes "is_prime p" "e mod (p - 1) = 1"
  shows "a ^ e mod p = a mod p"
proof -
  define r where "r = p - 1"
  then have p: "p = Suc r" using assms(1) by (simp add: is_prime_def)
  have "a ^ (1 + k * r) mod p = a mod p" for k
  proof (induction k)
    case (Suc k)
    have "1 + Suc k * r = (1 + k * r) + r" by simp
    then have "a ^ (1 + Suc k * r) mod p = (a ^ (1 + k * r) mod p) * a ^ r mod p"
      by (simp only: power_add mod_mult_left_eq)
    also have "\<dots> = a ^ p mod p" unfolding Suc by (simp add: p mod_mult_left_eq)
    finally show ?case using fermat [OF assms(1), of a] by simp
  qed simp
  moreover have "e = 1 + e div r * r" using div_mult_mod_eq [of e r] assms(2) by (simp add: r_def)
  ultimately show ?thesis by metis
qed

lemma mod_prod:
  assumes "x mod p = y mod p" "x mod q = y mod q" "coprime p (q :: nat)"
  shows "x mod (p * q) = y mod (p * q)"
proof -
  have "int p dvd int x - int y" "int q dvd int x - int y"
    using assms(1,2) by (metis mod_eq_dvd_iff of_nat_mod)+
  then have "int p * int q dvd int x - int y" using assms(3) by (intro divides_mult) simp_all
  then have "int x mod int (p * q) = int y mod int (p * q)" by (simp add: mod_eq_dvd_iff)
  then show ?thesis by (metis of_nat_eq_iff of_nat_mod)
qed

lemma rsa_power:
  assumes "is_prime p" "is_prime q" "2 < p" "2 < q" "p \<noteq> q" "e * d mod ((p - 1) * (q - 1)) = 1" "m < p * q"
  shows "(m ^ e mod (p * q)) ^ d mod (p * q) = m"
proof -
  have one: "e * d mod (p - 1) = 1" "e * d mod (q - 1) = 1"
    using assms(3,4,6) mod_mod_cancel [of "p - 1" "(p - 1) * (q - 1)" "e * d"]
      mod_mod_cancel [of "q - 1" "(p - 1) * (q - 1)" "e * d"] by (auto simp: of_bool_def split: if_splits)
  have "coprime p q" using assms(1,2,5) by (intro prime_coprime) (auto simp: is_prime_def)
  then have "m ^ (e * d) mod (p * q) = m mod (p * q)"
    using fermat_exponent [OF assms(1) one(1)] fermat_exponent [OF assms(2) one(2)] by (intro mod_prod) auto
  then show ?thesis using assms(7) by (simp add: power_mod power_mult)
qed


lemma rsa_of_primes_ordered:
  assumes "is_prime p" "is_prime q" "2 < q" "q < p" "coprime 65537 ((p - 1) * (q - 1))"
  shows "\<exists>key qi. rsa_of_primes p q = Some key \<and> rsa_of_primes q p = Some key \<and> rsa_N key = p * q \<and>
    rsa_E key * rsa_D key mod ((p - 1) * (q - 1)) = 1 \<and> rsa_Primes key = [p, q] \<and>
    rsa_E key * rsa_Dp key mod (p - 1) = 1 \<and> rsa_E key * rsa_Dq key mod (q - 1) = 1 \<and>
    rsa_Qinv key = Some qi \<and> q * qi mod p = 1"
proof -
  have t: "p - 1 \<le> (p - 1) * (q - 1)" "1 < p - 1" "1 < q - 1" using assms(3,4) by simp_all
  then have "1 < (p - 1) * (q - 1)" by linarith
  then obtain d where d: "ModInverse 65537 ((p - 1) * (q - 1)) = Some d" "65537 * d mod ((p - 1) * (q - 1)) = 1"
    using ModInverse_coprime [OF assms(5)] by auto
  have "coprime q p" using assms by (intro prime_coprime) (auto simp: is_prime_def)
  then obtain qi where qi: "ModInverse q p = Some qi" "q * qi mod p = 1"
    using ModInverse_coprime [of q p] assms(3,4) by auto
  have "65537 * (d mod (p - 1)) mod (p - 1) = 65537 * d mod ((p - 1) * (q - 1)) mod (p - 1)"
    "65537 * (d mod (q - 1)) mod (q - 1) = 65537 * d mod ((p - 1) * (q - 1)) mod (q - 1)"
    by (simp_all add: mod_mult_right_eq mod_mod_cancel)
  then have "65537 * (d mod (p - 1)) mod (p - 1) = 1" "65537 * (d mod (q - 1)) mod (q - 1) = 1"
    using d(2) t by simp_all
  then show ?thesis
    using d qi assms(4) by (simp add: rsa_of_primes_def mult.commute [of q p] mult.commute [of "q - 1" "p - 1"])
qed

section \<open>The search for primes\<close>

lemma ctr_Read_small:
  assumes "n \<le> 4096" "length (ct_zeroBuf st) = 4096" "0 < n"
  shows "ctr_Read ks n st =
    (let xs = map2 (\<lambda>b k. b XOR k) (take n (ct_zeroBuf st)) (map ks [ct_pos st..<ct_pos st + n])
     in (xs, \<lparr>ct_pos = ct_pos st + n, ct_zeroBuf = xs @ drop n (ct_zeroBuf st)\<rparr>))"
  using assms by (subst ctr_Read.simps, subst ctr_Read.simps) (simp add: Let_def go_copy_def)

text \<open>The second of two reads of the same size is the key stream combined with the first read.\<close>

lemma ctrStream_accumulates:
  assumes "0 < n" "n \<le> 4096" "ctr_Read ks n new_ctrStream = (xs, s1)" "ctr_Read ks n s1 = (ys, s2)"
  shows "xs = map ks [0..<n] \<and> ys = map2 (\<lambda>b k. b XOR k) xs (map ks [n..<2 * n])"
proof -
  have "map2 (\<lambda>b k. b XOR k) (replicate n 0) zs = zs" if "length zs = n" for zs :: bytes
    using that by (intro nth_equalityI) auto
  then have x: "xs = map ks [0..<n]" "s1 = \<lparr>ct_pos = n, ct_zeroBuf = xs @ drop n (replicate 4096 0)\<rparr>"
    using assms(1-3) ctr_Read_small [of n new_ctrStream ks] by (auto simp: new_ctrStream_def Let_def min_def)
  then show ?thesis using assms(1,2,4) ctr_Read_small [of n s1 ks] by (auto simp: Let_def mult_2)
qed

lemma ctr_Read_length:
  "length (ct_zeroBuf st) = 4096 \<Longrightarrow>
   length (fst (ctr_Read ks n st)) = n \<and> length (ct_zeroBuf (snd (ctr_Read ks n st))) = 4096"
proof (induction n arbitrary: st rule: less_induct)
  case (less n)
  show ?case
  proof (cases "n = 0")
    case False
    define xs where "xs = map2 (\<lambda>b k. b XOR k) (take (min n 4096) (ct_zeroBuf st)) (map ks [ct_pos st..<ct_pos st + min n 4096])"
    define r where "r = ctr_Read ks (n - min n 4096) \<lparr>ct_pos = ct_pos st + min n 4096, ct_zeroBuf = go_copy (ct_zeroBuf st) xs\<rparr>"
    have "ctr_Read ks n st = (xs @ fst r, snd r)"
      using False by (subst ctr_Read.simps) (simp add: Let_def case_prod_beta r_def xs_def)
    moreover have "length (fst r) = n - min n 4096 \<and> length (ct_zeroBuf (snd r)) = 4096"
      unfolding r_def using False less.prems by (intro less.IH) simp_all
    moreover have "length xs = min n 4096" using less.prems by (simp add: xs_def)
    ultimately show ?thesis by simp
  qed (use less.prems in \<open>simp add: ctr_Read.simps\<close>)
qed


definition nth_read :: "(nat \<Rightarrow> byte) \<Rightarrow> nat \<Rightarrow> ctrStream \<Rightarrow> nat \<Rightarrow> bytes \<times> ctrStream" where
  "nth_read ks n st i = ctr_Read ks n (((\<lambda>s. snd (ctr_Read ks n s)) ^^ i) st)"

definition nth_candidate :: "(nat \<Rightarrow> byte) \<Rightarrow> nat \<Rightarrow> ctrStream \<Rightarrow> nat \<Rightarrow> nat" where
  "nth_candidate ks bits st i = candidate bits (fst (nth_read ks ((bits + 7) div 8) st i))"

definition accepts :: "(nat \<Rightarrow> bool) \<Rightarrow> nat \<Rightarrow> bool" where
  "accepts probablyPrime p \<longleftrightarrow> trialDiv p \<and> probablyPrime p"

lemma nth_candidate_Suc:
  "nth_candidate ks bits (snd (ctr_Read ks ((bits + 7) div 8) st)) i = nth_candidate ks bits st (Suc i)"
  "nth_read ks n (snd (ctr_Read ks n st)) i = nth_read ks n st (Suc i)"
  by (simp_all add: nth_candidate_def nth_read_def funpow_Suc_right del: funpow.simps)

lemma bigPrime_unfold:
  "bigPrime pp ks bits st =
    (if accepts pp (nth_candidate ks bits st 0)
     then Some (nth_candidate ks bits st 0, snd (nth_read ks ((bits + 7) div 8) st 0))
     else bigPrime pp ks bits (snd (ctr_Read ks ((bits + 7) div 8) st)))"
  by (subst bigPrime.simps)
    (simp add: accepts_def nth_candidate_def nth_read_def case_prod_beta Let_def)

lemma bigPrime_first:
  "accepts pp (nth_candidate ks bits st k) \<Longrightarrow> (\<And>j. j < k \<Longrightarrow> \<not> accepts pp (nth_candidate ks bits st j)) \<Longrightarrow>
   bigPrime pp ks bits st = Some (nth_candidate ks bits st k, snd (nth_read ks ((bits + 7) div 8) st k))"
proof (induction k arbitrary: st)
  case 0
  then show ?case by (subst bigPrime_unfold) simp
next
  case (Suc k)
  let ?s = "snd (ctr_Read ks ((bits + 7) div 8) st)"
  have "bigPrime pp ks bits ?s = Some (nth_candidate ks bits ?s k, snd (nth_read ks ((bits + 7) div 8) ?s k))"
    using Suc.prems by (intro Suc.IH) (auto simp: nth_candidate_Suc)
  then show ?case
    using Suc.prems(2) [of 0] by (subst bigPrime_unfold) (simp add: nth_candidate_Suc)
qed

lemma bigPrime_accepted:
  assumes "bigPrime pp ks bits st = Some r"
  shows "\<exists>k. accepts pp (nth_candidate ks bits st k)"
  using _ assms
proof (rule bigPrime.raw_induct [where P = "\<lambda>pp ks bits st r. \<exists>k. accepts pp (nth_candidate ks bits st k)"])
  fix bp pp ks bits st r
  let ?s = "snd (ctr_Read ks ((bits + 7) div 8) st)"
  assume ih: "\<And>pp ks bits st r. bp pp ks bits st = Some r \<Longrightarrow> \<exists>k. accepts pp (nth_candidate ks bits st k)"
    and eq: "(case ctr_Read ks ((bits + 7) div 8) st of (b, st1) \<Rightarrow>
       let p = candidate bits b in
       if \<not> trialDiv p then bp pp ks bits st1 else if pp p then Some (p, st1) else bp pp ks bits st1) = Some r"
  show "\<exists>k. accepts pp (nth_candidate ks bits st k)"
  proof (cases "accepts pp (nth_candidate ks bits st 0)")
    case False
    then have "bp pp ks bits ?s = Some r"
      using eq by (simp add: accepts_def nth_candidate_def nth_read_def case_prod_beta Let_def split: if_splits)
    then obtain k where "accepts pp (nth_candidate ks bits ?s k)" using ih by blast
    then show ?thesis unfolding nth_candidate_Suc by blast
  qed blast
qed

lemma bigPrime_returns_iff:
  "(\<exists>r. bigPrime pp ks bits st = Some r) \<longleftrightarrow> (\<exists>k. accepts pp (nth_candidate ks bits st k))"
proof
  assume "\<exists>k. accepts pp (nth_candidate ks bits st k)"
  then have "accepts pp (nth_candidate ks bits st (LEAST k. accepts pp (nth_candidate ks bits st k)))"
    by (rule LeastI_ex)
  then show "\<exists>r. bigPrime pp ks bits st = Some r" using not_less_Least by (blast dest: bigPrime_first)
qed (use bigPrime_accepted in blast)

lemma candidate_bounds:
  assumes "length b = n" "0 < n"
  shows "odd (candidate (8 * n) b)" "2 ^ (8 * n - 1) \<le> candidate (8 * n) b" "candidate (8 * n) b < 2 ^ (8 * n)"
proof -
  define b2 where "b2 = b[0 := ((b ! 0) AND 0xFF) OR 0x80]"
  define b3 where "b3 = b2[n - 1 := (b2 ! (n - 1)) OR 1]"
  have c: "candidate (8 * n) b = be_nat b3"
    using assms by (simp add: candidate_def Let_def b2_def b3_def drop_bit_eq_div)
  have len: "length b3 = n" using assms by (simp add: b2_def b3_def)
  show "candidate (8 * n) b < 2 ^ (8 * n)"
    using be_nat_less [of b3] by (simp add: c len power_mult)
  have "b3 = butlast b3 @ [(b2 ! (n - 1)) OR 1]"
    using assms by (subst append_butlast_last_id [symmetric]) (auto simp: b3_def b2_def last_conv_nth)
  moreover have "odd (unat ((w :: byte) OR 1))" for w
    using bit_unsigned_iff [of "w OR 1" 0, where ?'a = nat] by (simp add: bit_0 even_or_iff)
  ultimately have "odd (be_nat b3)" by (metis be_nat_snoc even_add even_mult_iff even_numeral)
  then show "odd (candidate (8 * n) b)" by (simp add: c)
  obtain h t where b3: "b3 = h # t" using len assms(2) by (cases b3) auto
  have "bit (0x80 :: byte) 7" by code_simp
  then have "bit (b2 ! 0) 7" using assms by (simp add: b2_def bit_or_iff)
  then have "bit (b3 ! 0) 7" using assms by (simp add: b3_def b2_def nth_list_update bit_or_iff)
  then have "bit h 7" by (simp add: b3)
  then have "bit (unat h) 7" by (simp add: bit_unsigned_iff)
  then have "odd (unat h div 2 ^ 7)" by (simp add: bit_iff_odd)
  then have "128 \<le> unat h" by (auto intro: ccontr)
  then have "128 * 256 ^ length t \<le> unat h * 256 ^ length t" by (rule mult_le_mono1)
  then have "128 * 256 ^ length t \<le> be_nat b3" unfolding b3 be_nat_Cons by (rule trans_le_add1)
  moreover have "length t = n - 1" using len b3 by simp
  ultimately have "128 * 256 ^ (n - 1) \<le> be_nat b3" by simp
  moreover have "(2 :: nat) ^ (8 * n - 1) = 128 * 256 ^ (n - 1)"
    using assms(2) by (cases n) (simp_all add: power_add power_mult)
  ultimately show "2 ^ (8 * n - 1) \<le> candidate (8 * n) b" by (simp add: c)
qed


section \<open>BLS keys\<close>

lemma hkdf_loop_returns:
  assumes "\<And>x. length (mac x) = 32"
  shows "\<exists>r. hkdf_loop mac len t out counter = Some r \<and> length r = len"
proof (induction "len - length out" arbitrary: t out counter rule: less_induct)
  case less
  show ?case
  proof (cases "length out < len")
    case True
    then have "len - length (out @ mac (t @ [counter])) < len - length out" using assms by simp
    from less [OF this] show ?thesis using True by (subst hkdf_loop.simps) (simp add: Let_def)
  qed (subst hkdf_loop.simps, simp)
qed

lemma bit_be_nat:
  "n < 8 * length bs \<Longrightarrow> bit (be_nat bs) n \<longleftrightarrow> bit (bs ! (length bs - 1 - n div 8)) (n mod 8)"
proof (induction bs arbitrary: n rule: rev_induct)
  case (snoc b bs)
  show ?case
  proof (cases "n < 8")
    case True
    have "256 = 2 ^ (8 - n) * (2 ^ n :: nat)" using True by (simp flip: power_add)
    then have "(be_nat bs * 256 + unat b) div 2 ^ n = be_nat bs * 2 ^ (8 - n) + unat b div 2 ^ n"
      by (simp only: mult.assoc [symmetric]) simp
    then have "bit (be_nat bs * 256 + unat b) n \<longleftrightarrow> bit (unat b) n" using True by (simp add: bit_iff_odd)
    then show ?thesis using True by (simp add: bit_unsigned_iff)
  next
    case False
    then have n: "n = 8 + (n - 8)" by simp
    have "(be_nat bs * 256 + unat b) div 2 ^ n = be_nat bs div 2 ^ (n - 8)"
      by (subst n, simp only: power_add div_mult2_eq) simp
    then have "bit (be_nat (bs @ [b])) n \<longleftrightarrow> bit (be_nat bs) (n - 8)" by (simp add: bit_iff_odd)
    also have "\<dots> \<longleftrightarrow> bit (bs ! (length bs - 1 - (n - 8) div 8)) ((n - 8) mod 8)" using snoc False by simp
    finally show ?thesis using snoc.prems False by (auto simp: nth_append le_div_geq le_mod_geq)
  qed
qed simp

lemma limb_bit:
  assumes "n < 64"
  shows "bit (fold (\<lambda>j l. l OR push_bit (j * 8) (ucast (f j :: byte))) [0..<8] (0 :: u64)) n \<longleftrightarrow> bit (f (n div 8)) (n mod 8)"
proof -
  have fold: "bit (fold (\<lambda>j l. l OR push_bit (j * 8) (ucast (f j))) [0..<k] (0 :: u64)) n \<longleftrightarrow>
      n < 8 * k \<and> bit (f (n div 8)) (n mod 8)" for k
  proof (induction k)
    case (Suc k)
    have "bit (push_bit (k * 8) (ucast (f k)) :: u64) n \<longleftrightarrow> 8 * k \<le> n \<and> n < 8 * k + 8 \<and> bit (f (n div 8)) (n mod 8)"
    proof (cases "8 * k \<le> n \<and> n < 8 * k + 8")
      case True
      then have "n div 8 = k" "n mod 8 = n - 8 * k" by (auto simp: div_nat_eqI modulo_nat_def)
      then show ?thesis using True assms by (auto simp: bit_simps mult.commute)
    next
      case False
      then show ?thesis using bit_imp_le_length [of "f k" "n - k * 8"] by (auto simp: bit_simps)
    qed
    then show ?case using Suc by (auto simp: bit_or_iff)
  qed simp
  show ?thesis using fold [of 8] assms by simp
qed

lemma limb_value:
  assumes "length b = 32" "i < 4"
  shows "unat (frFromBytes b ! i) = be_nat b div 2 ^ (64 * i) mod 2 ^ 64"
proof -
  let ?f = "\<lambda>j. b ! (31 - (i * 8 + j))"
  have "fold (\<lambda>j l. if i * 8 + j < length b then l OR push_bit (j * 8) (ucast (b ! (length b - 1 - (i * 8 + j)))) else l) [0..<8] 0 =
      fold (\<lambda>j l. l OR push_bit (j * 8) (ucast (?f j))) [0..<8] (0 :: u64)"
    using assms by (intro fold_cong) auto
  then have l: "frFromBytes b ! i = fold (\<lambda>j l. l OR push_bit (j * 8) (ucast (?f j))) [0..<8] 0"
    using assms(2) by (simp add: frFromBytes_def limb_def)
  have "frFromBytes b ! i = of_nat (be_nat b div 2 ^ (64 * i))"
  proof (rule bit_word_eqI)
    fix n assume "n < LENGTH(64)"
    then have n: "n < 64" by simp
    have "bit (of_nat (be_nat b div 2 ^ (64 * i)) :: u64) n \<longleftrightarrow> bit (be_nat b div 2 ^ (64 * i)) n"
      using n by (simp add: bit_simps)
    also have "\<dots> \<longleftrightarrow> bit (be_nat b) (64 * i + n)" by (simp add: bit_iff_odd div_mult2_eq power_add)
    also have "\<dots> \<longleftrightarrow> bit (b ! (31 - (64 * i + n) div 8)) ((64 * i + n) mod 8)"
      using bit_be_nat [of "64 * i + n" b] assms n by simp
    also have "(64 * i + n) div 8 = i * 8 + n div 8" by presburger
    also have "(64 * i + n) mod 8 = n mod 8" by presburger
    finally show "bit (frFromBytes b ! i) n \<longleftrightarrow> bit (of_nat (be_nat b div 2 ^ (64 * i)) :: u64) n"
      unfolding l limb_bit [OF n] by simp
  qed
  then show ?thesis by (simp add: unat_of_nat)
qed

lemma digits_sum: "(\<Sum>i<k. (n div M ^ i mod M) * M ^ i) = n mod (M :: nat) ^ k"
proof (induction k)
  case (Suc k)
  have "n mod (M ^ k * M) = M ^ k * (n div M ^ k mod M) + n mod M ^ k" by (rule mod_mult2_eq)
  then show ?case using Suc by (simp add: mult.commute)
qed simp

lemma limbs_value:
  assumes "length b = 32"
  shows "(\<Sum>i<4. unat (frFromBytes b ! i) * 2 ^ (64 * i)) = be_nat b"
proof -
  have "(\<Sum>i<4. unat (frFromBytes b ! i) * 2 ^ (64 * i)) = (\<Sum>i<4. (be_nat b div (2 ^ 64) ^ i mod 2 ^ 64) * (2 ^ 64) ^ i)"
    using limb_value [OF assms] by (intro sum.cong) (simp_all add: power_mult)
  also have "\<dots> = be_nat b mod (2 ^ 64) ^ 4" by (rule digits_sum)
  also have "\<dots> = be_nat b" using be_nat_less [of b] assms by simp
  finally show ?thesis .
qed


lemma bigPrime_result:
  assumes "bigPrime pp ks (8 * n) st = Some (p, st1)" "0 < n" "length (ct_zeroBuf st) = 4096"
  shows "accepts pp p \<and> odd p \<and> 2 ^ (8 * n - 1) \<le> p \<and> p < 2 ^ (8 * n)"
proof -
  define k where "k = (LEAST k. accepts pp (nth_candidate ks (8 * n) st k))"
  have acc: "accepts pp (nth_candidate ks (8 * n) st k)"
    using bigPrime_accepted [OF assms(1)] unfolding k_def by (rule LeastI_ex)
  have "p = nth_candidate ks (8 * n) st k"
    using bigPrime_first [OF acc] not_less_Least assms(1) unfolding k_def by fastforce
  moreover have "length (ct_zeroBuf (((\<lambda>s. snd (ctr_Read ks n s)) ^^ k) st)) = 4096"
    using assms(3) by (induction k) (simp_all add: ctr_Read_length)
  then have "length (fst (nth_read ks n st k)) = n" by (simp add: nth_read_def ctr_Read_length)
  ultimately show ?thesis
    using acc candidate_bounds [OF _ assms(2)] by (simp add: nth_candidate_def)
qed

section \<open>Properties\<close>

text \<open>C16: An RSA key made of two different odd primes works, in whatever order they are given: decryption undoes encryption for every
  message below the modulus, the exponents for the two primes undo it modulo each prime, and the
  coefficient is the inverse of the second prime modulo the first.  The only further condition is
  that 65537 has an inverse.\<close>

theorem rsa_key_works:
  assumes "is_prime p" "is_prime q" "2 < p" "2 < q" "p \<noteq> q" "coprime 65537 ((p - 1) * (q - 1))"
  shows "\<exists>key P Q qi. rsa_of_primes p q = Some key \<and> rsa_N key = p * q \<and> {P, Q} = {p, q} \<and> rsa_Primes key = [P, Q] \<and>
    (\<forall>m<rsa_N key. (m ^ rsa_E key mod rsa_N key) ^ rsa_D key mod rsa_N key = m) \<and>
    (\<forall>m. (m ^ rsa_E key) ^ rsa_Dp key mod P = m mod P \<and> (m ^ rsa_E key) ^ rsa_Dq key mod Q = m mod Q) \<and>
    rsa_Qinv key = Some qi \<and> qi * Q mod P = 1"
proof -
  have *: ?thesis if h: "is_prime P" "is_prime Q" "2 < Q" "Q < P" "coprime 65537 ((P - 1) * (Q - 1))"
      "(p, q) = (P, Q) \<or> (p, q) = (Q, P)" for P Q
  proof -
    obtain key qi where k: "rsa_of_primes P Q = Some key" "rsa_of_primes Q P = Some key" "rsa_N key = P * Q"
      "rsa_E key * rsa_D key mod ((P - 1) * (Q - 1)) = 1" "rsa_Primes key = [P, Q]"
      "rsa_E key * rsa_Dp key mod (P - 1) = 1" "rsa_E key * rsa_Dq key mod (Q - 1) = 1"
      "rsa_Qinv key = Some qi" "Q * qi mod P = 1"
      using rsa_of_primes_ordered [OF h(1-5)] by blast
    have "(m ^ rsa_E key mod rsa_N key) ^ rsa_D key mod rsa_N key = m" if "m < rsa_N key" for m
      using rsa_power [OF h(1,2) _ h(3) _ k(4), of m] that h(3,4) by (simp add: k(3))
    moreover have "(m ^ rsa_E key) ^ rsa_Dp key mod P = m mod P" "(m ^ rsa_E key) ^ rsa_Dq key mod Q = m mod Q" for m
      using fermat_exponent [OF h(1) k(6)] fermat_exponent [OF h(2) k(7)] by (simp_all add: power_mult)
    ultimately show ?thesis
      using k h(6) by (intro exI [of _ key] exI [of _ P] exI [of _ Q] exI [of _ qi]) (auto simp: mult.commute)
  qed
  show ?thesis
  proof (cases "q < p")
    case True
    then show ?thesis using * [of p q] assms by simp
  next
    case False
    then show ?thesis using * [of q p] assms by (simp add: mult.commute)
  qed
qed

lemma small_primes: "is_prime 7" "is_prime 5"
proof -
  have "d = 1 \<or> d = 7" if "d dvd 7" for d :: nat
  proof -
    have "d \<le> 7" using that by (auto dest: dvd_imp_le)
    then have "d \<in> {0, 1, 2, 3, 4, 5, 6, 7}" by auto
    then show ?thesis using that by auto
  qed
  moreover have "d = 1 \<or> d = 5" if "d dvd 5" for d :: nat
  proof -
    have "d \<le> 5" using that by (auto dest: dvd_imp_le)
    then have "d \<in> {0, 1, 2, 3, 4, 5}" by auto
    then show ?thesis using that by auto
  qed
  ultimately show "is_prime 7" "is_prime 5" by (auto simp: is_prime_def)
qed

theorem rsa_key_works_witness: "\<exists>key. rsa_of_primes 7 5 = Some key \<and> rsa_N key = 35"
proof -
  have "coprime (65537 :: nat) ((7 - 1) * (5 - 1))" by (simp add: coprime_iff_gcd_eq_1 gcd_nat.simps)
  then show ?thesis using rsa_key_works [OF small_primes] by auto
qed

text \<open>C17: The search for a prime returns exactly when some number drawn from the stream passes the test by small primes and the
  probabilistic test.  What it returns is such a number: odd, of exactly the length asked for, and
  divisible by none of the small primes.\<close>

theorem prime_search:
  assumes "0 < n" "length (ct_zeroBuf st) = 4096"
  shows "((\<exists>p st1. bigPrime probablyPrime ks (8 * n) st = Some (p, st1)) \<longleftrightarrow>
      (\<exists>k. accepts probablyPrime (nth_candidate ks (8 * n) st k))) \<and>
    (\<forall>p st1. bigPrime probablyPrime ks (8 * n) st = Some (p, st1) \<longrightarrow>
      odd p \<and> 2 ^ (8 * n - 1) \<le> p \<and> p < 2 ^ (8 * n) \<and> probablyPrime p \<and> list_all (\<lambda>r. \<not> r dvd p) smallPrimes)"
  using bigPrime_returns_iff [of probablyPrime ks "8 * n" st] bigPrime_result [OF _ assms]
  by (auto simp: accepts_def trialDiv_def dvd_eq_mod_eq_0)

lemma demo_trial: "trialDiv 65521"
  unfolding trialDiv_def smallPrimes_def by simp

theorem prime_search_witness:
  "\<exists>p st1. bigPrime (\<lambda>_. True) (\<lambda>i. if even i then 0xFF else 0xF1) 16 new_ctrStream = Some (p, st1)"
proof -
  let ?ks = "\<lambda>i :: nat. (if even i then 0xFF else 0xF1) :: byte"
  have "map2 (XOR) (replicate 2 0) [255, 241] = [255, 241 :: byte]" by code_simp
  then have "nth_candidate ?ks (8 * 2) new_ctrStream 0 = 65521"
    by (simp add: nth_candidate_def nth_read_def ctr_Read_small new_ctrStream_def candidate_def Let_def be_nat_def upt_rec)
  then have "accepts (\<lambda>_. True) (nth_candidate ?ks (8 * 2) new_ctrStream 0)"
    using demo_trial by (simp add: accepts_def)
  then show ?thesis using prime_search [of 2 new_ctrStream "\<lambda>_. True" ?ks] by (auto simp: new_ctrStream_def)
qed

text \<open>C26: The derivation of a BLS key ends, given a keyed hash with an output of 32 bytes: the secret key has 32 bytes and is below the
  order of the group, and the four limbs that are handed to the curve library stand for the same number.\<close>

theorem bls_key_in_range:
  assumes "\<And>k m. length (kl_hmac lib k m) = 32"
  shows "\<exists>sk pk. blsKeyGen lib ikm = Some (sk, pk) \<and> length sk = 32 \<and> be_nat sk < bls_order \<and>
    pk = kl_g1 lib (frFromBytes sk) \<and> (\<Sum>i<4. unat (frFromBytes sk ! i) * 2 ^ (64 * i)) = be_nat sk"
proof -
  obtain okm where okm: "hkdfExpand lib (hkdfExtract lib (ascii ''BLS-SIG-KEYGEN-SALT-'') ikm) 48 = Some okm"
    unfolding hkdfExpand_def using hkdf_loop_returns [of "kl_hmac lib (hkdfExtract lib (ascii ''BLS-SIG-KEYGEN-SALT-'') ikm)"] assms
    by metis
  let ?sk = "be_bytes 32 (be_nat okm mod bls_order)"
  have "be_nat okm mod bls_order < bls_order" by (simp add: bls_order_def)
  moreover have "bls_order < 256 ^ 32" by (simp add: bls_order_def)
  ultimately have "be_nat ?sk < bls_order" by simp
  then show ?thesis using limbs_value [of ?sk] by (simp add: blsKeyGen_def Let_def okm)
qed

definition demo_lib :: key_lib where
  "demo_lib = \<lparr>kl_sha256 = (\<lambda>_. replicate 32 1), kl_sha512 = (\<lambda>_. replicate 64 2), kl_hmac = (\<lambda>_ _. replicate 32 3),
     kl_keccak256 = (\<lambda>_. replicate 32 4), kl_blake2b256 = (\<lambda>_ _. replicate 32 5), kl_blake2b512 = (\<lambda>_ _. replicate 64 6),
     kl_ripemd160 = (\<lambda>_. replicate 20 7), kl_ed25519 = (\<lambda>s. s), kl_x25519 = (\<lambda>s. s), kl_secp = (\<lambda>s. s),
     kl_secp_pub = (\<lambda>s. 2 # s), kl_secp_raw = (\<lambda>s. 4 # s @ s), kl_aesctr = (\<lambda>_ _ _. 0), kl_probablyPrime = (\<lambda>_. True),
     kl_g1 = (\<lambda>_. replicate 48 8)\<rparr>"

theorem bls_key_in_range_witness: "\<exists>sk pk. blsKeyGen demo_lib (replicate 32 9) = Some (sk, pk) \<and> length sk = 32"
  using bls_key_in_range [of demo_lib "replicate 32 9"] by (auto simp: demo_lib_def)

end
