(* ===== verification/Key_Ring_C.thy ===== *)
theory Key_Ring_C
  imports Key_Ring
begin

text \<open>
  The C implementation of the key ring (\<^verbatim>\<open>fedkey/keyring.c\<close>) and how it compares with the Go one: where the two
  agree for every seed, and where they do not.  A C string is the list of its characters without the terminating
  zero; a write behind the end of an array, which C leaves undefined, is \<^verbatim>\<open>None\<close>.  OpenSSL, libsecp256k1 and blst are
  libraries: the hashes and curves are those of the \<^verbatim>\<open>key_lib\<close> of the Go implementation.
\<close>

section \<open>Text\<close>

definition bin_to_hex :: "bytes \<Rightarrow> string" where
  "bin_to_hex bin = concat (map (\<lambda>b. [''0123456789abcdef'' ! unat (drop_bit 4 b), ''0123456789abcdef'' ! unat (b AND 0xF)]) bin)"

definition hex_char :: "char \<Rightarrow> int" where
  "hex_char c =
    (let n = of_char c :: int in
     if 48 \<le> n \<and> n \<le> 57 then n - 48
     else if 97 \<le> n \<and> n \<le> 102 then n - 97 + 10
     else if 65 \<le> n \<and> n \<le> 70 then n - 65 + 10
     else -1)"

text \<open>The loop writes each byte it can decode, also when it fails later.\<close>

fun hex_loop :: "string \<Rightarrow> nat \<Rightarrow> bytes \<Rightarrow> bool \<times> bytes" where
  "hex_loop (c # d # s) i bin =
    (if hex_char c = -1 \<or> hex_char d = -1 then (False, bin)
     else hex_loop s (i + 1) (bin[i := of_int (hex_char c * 16 + hex_char d)]))"
| "hex_loop s i bin = (True, bin)"

definition keyring_hex_to_bin :: "string \<Rightarrow> bytes \<Rightarrow> nat \<Rightarrow> int \<times> bytes" where
  "keyring_hex_to_bin hex bin max_len =
    (if odd (length hex) then (-1, bin)
     else if max_len < length hex div 2 then (-1, bin)
     else case hex_loop hex 0 bin of (ok, bin1) \<Rightarrow> (if ok then int (length hex div 2) else -1, bin1))"

text \<open>\<^verbatim>\<open>tmp[256]\<close> holds the digits and the terminating zero.\<close>

function base58_digits :: "nat \<Rightarrow> string \<Rightarrow> string" where
  "base58_digits n tmp = (if n = 0 then tmp else base58_digits (n div 58) (tmp @ [base58Alphabet ! (n mod 58)]))"
  by auto
termination by (relation "measure fst") auto

declare base58_digits.simps [simp del]

definition swap_halves :: "'a list \<Rightarrow> 'a list" where
  "swap_halves tmp = fold (\<lambda>i t. t[i := t ! (length t - 1 - i), length t - 1 - i := t ! i]) [0..<length tmp div 2] tmp"

definition base58_encode :: "bytes \<Rightarrow> string option" where
  "base58_encode data =
    (let tmp = base58_digits (be_nat data) [] @ replicate (length (takeWhile (\<lambda>b. b = 0) data)) (base58Alphabet ! 0)
     in if 256 \<le> length tmp then None else Some (swap_halves tmp))"

text \<open>The buffer is an \<^verbatim>\<open>int\<close> of 32 bits; only its lowest bits are ever used.\<close>

function base32_loop :: "string \<Rightarrow> bytes \<Rightarrow> nat \<Rightarrow> u32 \<Rightarrow> string \<Rightarrow> string" where
  "base32_loop alphabet data bits buffer out =
    (if data \<noteq> [] \<or> 0 < bits then
       (case (if bits < 5 \<and> data \<noteq> [] then (tl data, bits + 8, push_bit 8 buffer OR ucast (hd data)) else (data, bits, buffer)) of
          (data1, bits1, buffer1) \<Rightarrow>
            if 5 \<le> bits1 then
              base32_loop alphabet data1 (bits1 - 5) buffer1 (out @ [alphabet ! unat (drop_bit (bits1 - 5) buffer1 AND 0x1F)])
            else if 0 < bits1 then
              base32_loop alphabet data1 0 buffer1 (out @ [alphabet ! unat (push_bit (5 - bits1) buffer1 AND 0x1F)])
            else base32_loop alphabet data1 bits1 buffer1 out)
     else out)"
  by pat_completeness auto
termination
  by (relation "measure (\<lambda>(_, data, bits, _). 8 * length data + bits)")
    (auto split: if_splits simp: neq_Nil_conv)

declare base32_loop.simps [simp del]

definition base32_encode :: "bytes \<Rightarrow> string" where
  "base32_encode data = base32_loop ''ABCDEFGHIJKLMNOPQRSTUVWXYZ234567'' data 0 0 []"

definition base32_yggdrasil :: "bytes \<Rightarrow> string" where
  "base32_yggdrasil data = base32_loop ''ybndrfg8ejkmcpqxot1uwisza345h769'' data 0 0 []"

text \<open>OpenSSL's base64 without line ends, cut to the buffer, without padding.\<close>

definition base64_encode :: "bytes \<Rightarrow> nat \<Rightarrow> string" where
  "base64_encode data out_len = trim_pad (take (out_len - 1) (base64_std data))"

end
