(* ===== verification/Bitcoin_Wire.thy ===== *)
theory Bitcoin_Wire
  imports Key_Ring Protobuf
begin

text \<open>
  The wire format of \<^verbatim>\<open>fedboot/bitcoin_bs.go\<close>: messages with a header and a checksum, the version message that carries the
  public key of a node, and the address message.  Of \<^verbatim>\<open>net\<close> the text of an address is modelled, as the program prints it.
\<close>

section \<open>Little-endian numbers\<close>

definition le_bytes :: "nat \<Rightarrow> nat \<Rightarrow> bytes" where
  "le_bytes k n = rev (be_bytes k n)"

definition le_nat :: "bytes \<Rightarrow> nat" where
  "le_nat bs = be_nat (rev bs)"

lemma length_le_bytes [simp]: "length (le_bytes k n) = k"
  by (simp add: le_bytes_def)

lemma le_nat_le_bytes [simp]: "le_nat (le_bytes k n) = n mod 256 ^ k"
  by (simp add: le_nat_def le_bytes_def)

lemma le_nat_less: "le_nat bs < 256 ^ length bs"
  using be_nat_less [of "rev bs"] by (simp add: le_nat_def)

section \<open>Messages\<close>

definition bitcoinMagic :: nat where "bitcoinMagic = 0xD9B4BEF9"
definition btcProtocolVer :: nat where "btcProtocolVer = 70015"
definition btcCmdLen :: nat where "btcCmdLen = 12"
definition btcHeaderLen :: nat where "btcHeaderLen = 24"
definition btcServices :: nat where "btcServices = 2 ^ 24 + 1"

record btcMsg =
  bm_command :: bytes
  bm_payload :: bytes

datatype btc_error = BtcIO io_error | BadMagic | BadChecksum

text \<open>The bytes of a message: what \<^verbatim>\<open>btcWriteMsg\<close> writes with its one or two calls of \<^verbatim>\<open>Write\<close>.\<close>

definition btc_header :: "key_lib \<Rightarrow> bytes \<Rightarrow> bytes \<Rightarrow> bytes" where
  "btc_header lib cmd0 payload =
    (let cmd = (if btcCmdLen < length cmd0 then take btcCmdLen cmd0 else cmd0)
     in le_bytes 4 bitcoinMagic @ go_copy (replicate 12 0) cmd @ le_bytes 4 (length payload)
        @ (if 0 < length payload then take 4 (Sha256d lib payload) else replicate 4 0))"

definition btc_frame :: "key_lib \<Rightarrow> bytes \<Rightarrow> bytes \<Rightarrow> bytes" where
  "btc_frame lib cmd payload = btc_header lib cmd payload @ payload"

text \<open>A payload of fewer than 2^32 bytes can always be allocated.\<close>

definition btcReadMsg :: "key_lib \<Rightarrow> bytes \<Rightarrow> (btc_error, btcMsg) res \<times> bytes" where
  "btcReadMsg lib inp = (case ReadFull btcHeaderLen inp of
      (Err e, r) \<Rightarrow> (Err (BtcIO e), r)
    | (Panic, r) \<Rightarrow> (Panic, r)
    | (Ok header, r) \<Rightarrow>
        if le_nat (take 4 header) \<noteq> bitcoinMagic then (Err BadMagic, r)
        else
          let cmd = take 12 (drop 4 header);
              len = le_nat (take 4 (drop 16 header));
              chk = take 4 (drop 20 header)
          in if 0 < len then
               (case ReadFull len r of
                  (Err e, r1) \<Rightarrow> (Err (BtcIO e), r1)
                | (Panic, r1) \<Rightarrow> (Panic, r1)
                | (Ok payload, r1) \<Rightarrow>
                    if chk \<noteq> take 4 (Sha256d lib payload) then (Err BadChecksum, r1)
                    else (Ok \<lparr>bm_command = cmd, bm_payload = payload\<rparr>, r1))
             else (Ok \<lparr>bm_command = cmd, bm_payload = []\<rparr>, r))"

text \<open>\<^verbatim>\<open>strings.TrimRight(string(msg.command[:]), "\x00")\<close>.\<close>

definition command_name :: "btcMsg \<Rightarrow> bytes" where
  "command_name msg = rev (dropWhile (\<lambda>b. b = 0) (rev (bm_command msg)))"

section \<open>Variable-length numbers and strings\<close>

definition btcWriteVarStr :: "bytes \<Rightarrow> bytes" where
  "btcWriteVarStr s =
    (let l = length s in
     (if l < 0xFD then [of_nat l]
      else if l \<le> 0xFFFF then 0xFD # le_bytes 2 l
      else 0xFE # le_bytes 4 l) @ s)"

definition btcReadVarInt :: "bytes \<Rightarrow> (io_error, nat) res \<times> bytes" where
  "btcReadVarInt r = (case r of
      [] \<Rightarrow> (Err EOF, [])
    | b # r1 \<Rightarrow>
        let fixed = (\<lambda>k. case ReadFull k r1 of
              (Ok tmp, r2) \<Rightarrow> (Ok (le_nat tmp), r2)
            | (Err e, r2) \<Rightarrow> (Err e, r2)
            | (Panic, r2) \<Rightarrow> (Panic, r2))
        in if b = 0xFD then fixed 2
           else if b = 0xFE then fixed 4
           else if b = 0xFF then fixed 8
           else (Ok (unat b), r1))"

text \<open>\<^verbatim>\<open>btcReadVarStr\<close> repeats the code of \<^verbatim>\<open>btcReadVarInt\<close>; the length goes to \<^verbatim>\<open>make\<close> without a check.\<close>

definition btcReadVarStr :: "bytes \<Rightarrow> (io_error, bytes) res \<times> bytes" where
  "btcReadVarStr r = (case btcReadVarInt r of
      (Ok l, r1) \<Rightarrow> if max_alloc < l then (Panic, r1) else ReadFull l r1
    | (Err e, r1) \<Rightarrow> (Err e, r1)
    | (Panic, r1) \<Rightarrow> (Panic, r1))"

section \<open>The version message\<close>

record TCPAddr =
  ta_IP :: bytes
  ta_Port :: int

text \<open>\<^verbatim>\<open>net.IP.To16\<close>: nil for anything but 4 or 16 bytes.\<close>

definition v4InV6Prefix :: bytes where
  "v4InV6Prefix = replicate 10 0 @ [0xFF, 0xFF]"

definition To16 :: "bytes \<Rightarrow> bytes" where
  "To16 ip = (if length ip = 4 then v4InV6Prefix @ ip else if length ip = 16 then ip else [])"

definition version_addr :: "TCPAddr option \<Rightarrow> bytes" where
  "version_addr a = (case a of
      None \<Rightarrow> replicate 26 0
    | Some ta \<Rightarrow> go_copy_at 24 (go_copy_at 8 (replicate 26 0) (To16 (ta_IP ta))) (put_u16 (of_int (ta_Port ta))))"

text \<open>\<^verbatim>\<open>now\<close> is the Unix time.\<close>

definition btcBuildVersion :: "u64 \<Rightarrow> bytes \<Rightarrow> TCPAddr option \<Rightarrow> TCPAddr option \<Rightarrow> u64 \<Rightarrow> bytes" where
  "btcBuildVersion now myPub localAddr remoteAddr nonce =
    le_bytes 4 btcProtocolVer @ le_bytes 8 btcServices @ le_bytes 8 (unat now)
    @ version_addr remoteAddr @ version_addr localAddr @ le_bytes 8 (unat nonce)
    @ btcWriteVarStr (ascii ''/bitcoin_bs:pubkey='' @ myPub @ ascii ''/'') @ le_bytes 4 0 @ [0]"

text \<open>\<^verbatim>\<open>strings.Index\<close> and \<^verbatim>\<open>strings.IndexByte\<close>; None is their -1.\<close>

fun str_index :: "bytes \<Rightarrow> bytes \<Rightarrow> nat option" where
  "str_index [] p = (if p = [] then Some 0 else None)"
| "str_index (b # s) p = (if take (length p) (b # s) = p then Some 0 else map_option Suc (str_index s p))"

definition index_byte :: "bytes \<Rightarrow> byte \<Rightarrow> nat option" where
  "index_byte s c = (if c \<in> set s then Some (length (takeWhile (\<lambda>b. b \<noteq> c) s)) else None)"

definition btcParseVersionPubkey :: "bytes \<Rightarrow> (unit, bytes) res" where
  "btcParseVersionPubkey payload = (case fst (btcReadVarStr (drop 80 payload)) of
      Panic \<Rightarrow> Panic
    | Err e \<Rightarrow> Ok []
    | Ok ua \<Rightarrow>
        (case str_index ua (ascii ''pubkey='') of
           None \<Rightarrow> Ok []
         | Some idx \<Rightarrow>
             let p = drop (idx + 7) ua;
                 end0 = (case index_byte p 0x2F of None \<Rightarrow> length p | Some i \<Rightarrow> i);
                 end1 = (if 128 \<le> end0 then 128 else end0)
             in Ok (take end1 p)))"

section \<open>Addresses\<close>

definition v6u16 :: "bytes \<Rightarrow> nat \<Rightarrow> nat" where
  "v6u16 ip i = be_nat (take 2 (drop (2 * i) ip))"

fun hex_nat :: "nat \<Rightarrow> string" where
  "hex_nat n = (if n < 16 then [hex_digit n] else hex_nat (n div 16) @ [hex_digit (n mod 16)])"

declare hex_nat.simps [simp del]

text \<open>The longest run of at least two zero groups, the first of them if there are several.\<close>

definition zero_run :: "bytes \<Rightarrow> nat \<Rightarrow> nat" where
  "zero_run ip i = length (takeWhile (\<lambda>j. v6u16 ip j = 0) [i..<8])"

definition longest_zeros :: "bytes \<Rightarrow> (nat \<times> nat) option" where
  "longest_zeros ip = fold (\<lambda>i best.
     let l = zero_run ip i; old = (case best of None \<Rightarrow> 0 | Some (a, b) \<Rightarrow> b - a)
     in if 2 \<le> l \<and> old < l then Some (i, i + l) else best) [0..<8] None"

definition v6_groups :: "bytes \<Rightarrow> nat list \<Rightarrow> string" where
  "v6_groups ip is = join_str '':'' (map (\<lambda>i. hex_nat (v6u16 ip i)) is)"

definition v6_text :: "bytes \<Rightarrow> string" where
  "v6_text ip = (case longest_zeros ip of
      None \<Rightarrow> v6_groups ip [0..<8]
    | Some (a, b) \<Rightarrow> v6_groups ip [0..<a] @ ''::'' @ v6_groups ip [b..<8])"

definition IP_String :: "bytes \<Rightarrow> string" where
  "IP_String ip =
    (let v4 = (\<lambda>a. join_str ''.'' (map (\<lambda>b. show_nat (unat b)) a)) in
     if length ip = 0 then ''<nil>''
     else if length ip = 4 then v4 ip
     else if length ip = 16 then (if take 12 ip = v4InV6Prefix then v4 (drop 12 ip) else v6_text ip)
     else ''?'' @ hex_encode ip)"

definition JoinHostPort :: "string \<Rightarrow> string \<Rightarrow> string" where
  "JoinHostPort host port =
    (if CHR '':'' \<in> set host \<or> CHR ''%'' \<in> set host then ''['' @ host @ '']:'' @ port else host @ '':'' @ port)"

definition addr_text :: "bytes \<Rightarrow> u16 \<Rightarrow> string" where
  "addr_text ip port = JoinHostPort (IP_String ip) (show_nat (unat port))"

text \<open>The loop of \<^verbatim>\<open>parseAddrMsg\<close>: \<^verbatim>\<open>n\<close> entries are still announced.\<close>

function addr_loop :: "nat \<Rightarrow> bytes \<Rightarrow> string list \<Rightarrow> string list" where
  "addr_loop n r addrs =
    (if n = 0 then addrs
     else case ReadFull 30 r of
       (Ok buf, r1) \<Rightarrow>
         let ip = take 16 (drop 8 buf);
             port = get_u16 (take 2 (drop 24 buf));
             addrs1 = addrs @ [addr_text ip port]
         in if 1000 \<le> length addrs1 then addrs1 else addr_loop (n - 1) r1 addrs1
     | _ \<Rightarrow> addrs)"
  by pat_completeness auto
termination by (relation "measure fst") auto

declare addr_loop.simps [simp del]

definition parseAddrMsg :: "bytes \<Rightarrow> string list" where
  "parseAddrMsg payload = (case btcReadVarInt payload of
      (Ok count, r) \<Rightarrow> if count = 0 then [] else addr_loop count r []
    | _ \<Rightarrow> [])"


section \<open>Frames\<close>

lemma length_btc_header:
  assumes "\<And>x. length (kl_sha256 lib x) = 32"
  shows "length (btc_header lib cmd payload) = 24"
  using assms by (simp add: btc_header_def Let_def Sha256d_def)

lemma btcReadMsg_frame:
  assumes hash: "\<And>x. length (kl_sha256 lib x) = 32" and cmd: "length cmd \<le> 12" and len: "length payload < 2 ^ 32"
  shows "btcReadMsg lib (btc_frame lib cmd payload @ rest) =
    (Ok \<lparr>bm_command = go_copy (replicate 12 0) cmd, bm_payload = payload\<rparr>, rest)"
proof -
  define c where "c = go_copy (replicate 12 0) cmd"
  define h where "h = (if 0 < length payload then take 4 (Sha256d lib payload) else replicate 4 0)"
  define hd where "hd = le_bytes 4 bitcoinMagic @ c @ le_bytes 4 (length payload) @ h"
  have l: "length c = 12" "length h = 4" using hash by (simp_all add: c_def h_def Sha256d_def)
  have hd: "btc_header lib cmd payload = hd" using cmd by (simp add: btc_header_def Let_def hd_def c_def h_def btcCmdLen_def)
  have parts: "length hd = 24" "take 4 hd = le_bytes 4 bitcoinMagic" "take 12 (drop 4 hd) = c"
    "take 4 (drop 16 hd) = le_bytes 4 (length payload)" "take 4 (drop 20 hd) = h"
    using l by (simp_all add: hd_def)
  have n: "le_nat (le_bytes 4 bitcoinMagic) = bitcoinMagic" "le_nat (le_bytes 4 (length payload)) = length payload"
    using len by (simp_all add: bitcoinMagic_def)
  show ?thesis
    using parts n l by (auto simp: btcReadMsg_def btc_frame_def hd btcHeaderLen_def Let_def c_def h_def)
qed

lemma btcReadMsg_frame': 
  assumes "\<And>x. length (kl_sha256 lib x) = 32" "length cmd \<le> 12" "length payload < 2 ^ 32"
  shows "btcReadMsg lib (btc_frame lib cmd payload) =
    (Ok \<lparr>bm_command = go_copy (replicate 12 0) cmd, bm_payload = payload\<rparr>, [])"
  using btcReadMsg_frame [OF assms, of "[]"] by simp

lemma command_name_copy:
  assumes "length cmd \<le> 12" "cmd = [] \<or> last cmd \<noteq> 0"
  shows "command_name \<lparr>bm_command = go_copy (replicate 12 0) cmd, bm_payload = p\<rparr> = cmd"
proof -
  have "go_copy (replicate 12 0) cmd = cmd @ replicate (12 - length cmd) 0"
    using assms(1) by (simp add: go_copy_def)
  then have "command_name \<lparr>bm_command = go_copy (replicate 12 0) cmd, bm_payload = p\<rparr> =
      rev (dropWhile (\<lambda>b. b = 0) (rev cmd))"
    by (simp add: command_name_def dropWhile_append)
  moreover have "dropWhile (\<lambda>b. b = 0) (rev cmd) = rev cmd"
    using assms(2) by (cases cmd rule: rev_cases) auto
  ultimately show ?thesis by simp
qed

lemma ReadFull_more: "ReadFull n inp = (Ok b, r) \<Longrightarrow> ReadFull n (inp @ x) = (Ok b, r @ x)"
  by (auto simp: ReadFull_def read_full_def split: if_splits)

lemma ReadFull_Ok: "ReadFull n inp = (Ok b, r) \<longleftrightarrow> n \<le> length inp \<and> b = take n inp \<and> r = drop n inp"
  by (auto simp: ReadFull_def read_full_def)

text \<open>A message that is complete is read the same whatever arrives behind it, and at least a header is consumed.\<close>

definition btc_complete :: "key_lib \<Rightarrow> bytes \<Rightarrow> bytes \<Rightarrow> bool" where
  "btc_complete lib header body \<longleftrightarrow> le_nat (take 4 header) = bitcoinMagic \<and>
    le_nat (take 4 (drop 16 header)) \<le> length body \<and>
    (0 < le_nat (take 4 (drop 16 header)) \<longrightarrow>
      take 4 (drop 20 header) = take 4 (Sha256d lib (take (le_nat (take 4 (drop 16 header))) body)))"

lemma btcReadMsg_Ok:
  "btcReadMsg lib inp = (Ok m, r) \<longleftrightarrow>
    24 \<le> length inp \<and> btc_complete lib (take 24 inp) (drop 24 inp) \<and>
    m = \<lparr>bm_command = take 12 (drop 4 (take 24 inp)),
         bm_payload = take (le_nat (take 4 (drop 16 (take 24 inp)))) (drop 24 inp)\<rparr> \<and>
    r = drop (le_nat (take 4 (drop 16 (take 24 inp)))) (drop 24 inp)"
proof (cases "24 \<le> length inp")
  case True
  define h b where "h = take 24 inp" and "b = drop 24 inp"
  have "ReadFull 24 inp = (Ok h, b)" using True by (simp add: ReadFull_Ok h_def b_def)
  moreover have "ReadFull n b = (if n \<le> length b then (Ok (take n b), drop n b)
      else (Err (if b = [] then EOF else UnexpectedEOF), []))" for n
    by (simp add: ReadFull_def read_full_def)
  ultimately show ?thesis
    using True unfolding btcReadMsg_def btcHeaderLen_def h_def [symmetric] b_def [symmetric]
    by (auto simp: btc_complete_def Let_def)
next
  case False
  then show ?thesis by (simp add: btcReadMsg_def btcHeaderLen_def ReadFull_def read_full_def)
qed

lemma btcReadMsg_more:
  assumes "btcReadMsg lib inp = (Ok m, r)"
  shows "btcReadMsg lib (inp @ x) = (Ok m, r @ x)"
proof -
  define h b where "h = take 24 inp" and "b = drop 24 inp"
  have a: "24 \<le> length inp" "btc_complete lib h b"
    "m = \<lparr>bm_command = take 12 (drop 4 h), bm_payload = take (le_nat (take 4 (drop 16 h))) b\<rparr>"
    "r = drop (le_nat (take 4 (drop 16 h))) b"
    using assms unfolding btcReadMsg_Ok h_def [symmetric] b_def [symmetric] by blast+
  have "take 24 (inp @ x) = h" "drop 24 (inp @ x) = b @ x" using a(1) by (simp_all add: h_def b_def)
  then show ?thesis using a unfolding btcReadMsg_Ok by (auto simp: btc_complete_def)
qed

lemma btcReadMsg_consumes: "btcReadMsg lib inp = (Ok m, r) \<Longrightarrow> length r < length inp"
  unfolding btcReadMsg_Ok by auto

text \<open>A payload that was changed on the way is refused, unless its checksum is the same.\<close>

lemma btcReadMsg_corrupt:
  assumes hash: "\<And>x. length (kl_sha256 lib x) = 32" and "length cmd \<le> 12" "length payload < 2 ^ 32"
    and "length bad = length payload" "take 4 (Sha256d lib bad) \<noteq> take 4 (Sha256d lib payload)"
  shows "btcReadMsg lib (btc_header lib cmd payload @ bad @ rest) = (Err BadChecksum, rest)"
proof -
  define c where "c = go_copy (replicate 12 0) cmd"
  have p: "payload \<noteq> []" using assms(4,5) by auto
  define hd where "hd = le_bytes 4 bitcoinMagic @ c @ le_bytes 4 (length payload) @ take 4 (Sha256d lib payload)"
  have l: "length c = 12" "length (take 4 (Sha256d lib payload)) = 4" using hash by (simp_all add: c_def Sha256d_def)
  have hd: "btc_header lib cmd payload = hd"
    using assms(2) p by (simp add: btc_header_def Let_def hd_def c_def btcCmdLen_def)
  have "length hd = 24" "take 4 hd = le_bytes 4 bitcoinMagic" "take 4 (drop 16 hd) = le_bytes 4 (length payload)"
    "take 4 (drop 20 hd) = take 4 (Sha256d lib payload)"
    using l by (simp_all add: hd_def)
  moreover have "le_nat (le_bytes 4 bitcoinMagic) = bitcoinMagic" "le_nat (le_bytes 4 (length payload)) = length payload"
    using assms(3) by (simp_all add: bitcoinMagic_def)
  ultimately show ?thesis
    using assms(4,5) p by (auto simp: btcReadMsg_def hd btcHeaderLen_def Let_def)
qed

section \<open>Strings\<close>

lemma unat_marker: "n < 0xFD \<Longrightarrow> unat (of_nat n :: byte) = n"
  by (simp add: unat_of_nat)

lemma small_not_marker: "n < 0xFD \<Longrightarrow> (of_nat n :: byte) \<notin> {0xFD, 0xFE, 0xFF}"
  using unat_marker [of n] by (auto dest: arg_cong [where f = unat])

lemma btcReadVarStr_write:
  assumes "length s < 2 ^ 32"
  shows "btcReadVarStr (btcWriteVarStr s @ rest) = (Ok s, rest)"
proof -
  have "length s < 2 ^ 32 \<Longrightarrow> \<not> max_alloc < length s" by (simp add: max_alloc_def)
  moreover consider "length s < 0xFD" | "0xFD \<le> length s" "length s \<le> 0xFFFF" | "0xFFFF < length s" by linarith
  then have "btcReadVarInt (btcWriteVarStr s @ rest) = (Ok (length s), s @ rest)"
  proof cases
    case 1
    then show ?thesis
      using small_not_marker [OF 1] unat_marker [OF 1] by (simp add: btcReadVarInt_def btcWriteVarStr_def Let_def)
  qed (use assms in \<open>simp_all add: btcReadVarInt_def btcWriteVarStr_def Let_def\<close>)
  ultimately show ?thesis using assms by (simp add: btcReadVarStr_def)
qed

section \<open>The version message\<close>

lemma length_version_addr [simp]: "length (version_addr a) = 26"
  by (simp add: version_addr_def split: option.split)

lemma drop_version:
  "drop 80 (btcBuildVersion now myPub la ra nonce) =
    btcWriteVarStr (ascii ''/bitcoin_bs:pubkey='' @ myPub @ ascii ''/'') @ le_bytes 4 0 @ [0]"
  by (simp add: btcBuildVersion_def)

lemma str_index_agent: "str_index (ascii ''/bitcoin_bs:pubkey='' @ s) (ascii ''pubkey='') = Some 12"
  by (simp add: ascii_def)

lemma index_byte_end: "c \<notin> set s \<Longrightarrow> index_byte (s @ c # r) c = Some (length s)"
  by (simp add: index_byte_def takeWhile_append)

lemma version_pubkey:
  assumes "0x2F \<notin> set pub" "length pub < 2 ^ 31"
  shows "btcParseVersionPubkey (btcBuildVersion now pub la ra nonce) = Ok (take 128 pub)"
proof -
  let ?ua = "ascii ''/bitcoin_bs:pubkey='' @ pub @ ascii ''/''"
  have "length ?ua < 2 ^ 32" using assms(2) by simp
  then have "fst (btcReadVarStr (drop 80 (btcBuildVersion now pub la ra nonce))) = Ok ?ua"
    unfolding drop_version by (simp only: btcReadVarStr_write fst_conv)
  moreover have "drop (12 + 7) ?ua = pub @ 0x2F # []" by (simp add: ascii_def)
  ultimately show ?thesis
    using index_byte_end [OF assms(1), of "[]"]
    by (simp add: btcParseVersionPubkey_def str_index_agent Let_def min_def)
qed


section \<open>The address message\<close>

definition entry_text :: "bytes \<Rightarrow> string" where
  "entry_text e = addr_text (take 16 (drop 8 e)) (get_u16 (take 2 (drop 24 e)))"

lemma addr_loop_entries:
  assumes "list_all (\<lambda>e. length e = 30) es" "length addrs + length es \<le> 1000"
  shows "addr_loop (length es) (concat es @ rest) addrs = addrs @ map entry_text es"
  using assms
proof (induction es arbitrary: addrs)
  case Nil
  then show ?case by (simp add: addr_loop.simps)
next
  case (Cons e es)
  have step: "addr_loop (length (e # es)) (concat (e # es) @ rest) addrs =
      (if 1000 \<le> length addrs + 1 then addrs @ [entry_text e]
       else addr_loop (length es) (concat es @ rest) (addrs @ [entry_text e]))"
    using Cons.prems(1) by (subst addr_loop.simps) (simp add: entry_text_def Let_def)
  show ?case
  proof (cases "1000 \<le> length addrs + 1")
    case True
    then have "length es \<le> 0" using Cons.prems(2) unfolding list.size by linarith
    then have "es = []" by simp
    then show ?thesis using step True by simp
  next
    case False
    then show ?thesis using step Cons.IH [of "addrs @ [entry_text e]"] Cons.prems by simp
  qed
qed

lemma addr_loop_length:
  "length addrs < 1000 \<Longrightarrow>
   length (addr_loop n r addrs) \<le> 1000 \<and> length (addr_loop n r addrs) \<le> length addrs + length r div 30"
proof (induction n arbitrary: r addrs)
  case (Suc n)
  show ?case
  proof (cases "30 \<le> length r")
    case True
    let ?a = "addrs @ [entry_text (take 30 r)]"
    have "addr_loop (Suc n) r addrs = (if 1000 \<le> length ?a then ?a else addr_loop n (drop 30 r) ?a)"
      using True by (subst addr_loop.simps) (simp add: ReadFull_def read_full_def entry_text_def Let_def)
    moreover have "length r div 30 = Suc (length (drop 30 r) div 30)" using True by (simp add: le_div_geq)
    ultimately show ?thesis using Suc.IH [of ?a "drop 30 r"] Suc.prems by (cases "1000 \<le> length ?a") auto
  next
    case False
    then show ?thesis using Suc.prems by (subst (1 2) addr_loop.simps) (simp add: ReadFull_def read_full_def)
  qed
qed (simp add: addr_loop.simps)

text \<open>An entry of the Bitcoin protocol: time, services, address in 16 bytes, port.\<close>

definition addr_entry :: "nat \<Rightarrow> nat \<Rightarrow> bytes \<Rightarrow> u16 \<Rightarrow> bytes" where
  "addr_entry t services ip port = le_bytes 4 t @ le_bytes 8 services @ ip @ put_u16 port"

lemma be_bytes_high: "n < 256 ^ k \<Longrightarrow> be_bytes (j + k) n = replicate j 0 @ be_bytes k n"
proof (induction k arbitrary: n)
  case 0
  then have "n = 0" by simp
  moreover have "be_bytes j 0 = replicate j 0" by (induction j) (simp_all add: replicate_append_same)
  ultimately show ?case by simp
next
  case (Suc k)
  then have "n div 256 < 256 ^ k" by (simp add: less_mult_imp_div_less mult.commute)
  then show ?case using Suc.IH [of "n div 256"] by simp
qed

abbreviation shifted_ip :: bytes where
  "shifted_ip \<equiv> replicate 14 0 @ [0xFF, 0xFF]"

lemma shifted_groups: "j < 7 \<Longrightarrow> v6u16 shifted_ip j = 0" "v6u16 shifted_ip 7 = 0xFFFF"
proof -
  assume "j < 7"
  then have "take 2 (drop (2 * j) shifted_ip) = replicate 2 0" by (simp add: take_replicate min_def)
  then show "v6u16 shifted_ip j = 0" by (simp add: v6u16_def be_nat_def numeral_2_eq_2)
qed (simp add: v6u16_def be_nat_def)

lemma shifted_run: "i \<le> 7 \<Longrightarrow> zero_run shifted_ip i = 7 - i"
proof -
  assume "i \<le> 7"
  then have "[i..<8] = [i..<7] @ [7]" using upt_Suc_append [of i 7] by simp
  moreover have "takeWhile (\<lambda>j. v6u16 shifted_ip j = 0) ([i..<7] @ [7]) = [i..<7]"
    using shifted_groups by (subst takeWhile_append2) auto
  ultimately show ?thesis by (simp add: zero_run_def)
qed

lemma shifted_zeros: "longest_zeros shifted_ip = Some (0, 7)"
proof -
  have "[0..<8] = [0, 1, 2, 3, 4, 5, 6, 7 :: nat]" by (simp add: upt_rec)
  then show ?thesis by (simp add: longest_zeros_def shifted_run Let_def)
qed

lemma shifted_text: "IP_String shifted_ip = ''::ffff''"
proof -
  have "v6_text shifted_ip = ''::ffff''"
    by (simp add: v6_text_def shifted_zeros v6_groups_def shifted_groups(2) hex_nat.simps hex_digit_def
        char_of_def bit_iff_odd)
  moreover have "take 12 shifted_ip \<noteq> v4InV6Prefix"
    by (auto simp: v4InV6Prefix_def list_eq_iff_nth_eq nth_append intro!: exI [of _ 10])
  ultimately show ?thesis by (simp add: IP_String_def)
qed

lemma entry_misread:
  assumes "s < 2 ^ 32" "length a = 4"
  shows "entry_text (addr_entry t s (v4InV6Prefix @ a) p) = ''[::ffff]:'' @ show_nat (256 * unat (a ! 0) + unat (a ! 1))"
proof -
  obtain w x y z where a: "a = [w, x, y, z]" using assms(2) by (auto simp: length_Suc_conv numeral_eq_Suc)
  have s: "le_bytes 8 s = le_bytes 4 s @ replicate 4 0" using be_bytes_high [of s 4 4] assms(1) by (simp add: le_bytes_def)
  have ip: "take 16 (drop 8 (addr_entry t s (v4InV6Prefix @ a) p)) = replicate 14 0 @ [0xFF, 0xFF]"
    by (simp add: addr_entry_def s v4InV6Prefix_def flip: replicate_add)
  have port: "take 2 (drop 24 (addr_entry t s (v4InV6Prefix @ a) p)) = [w, x]"
    by (simp add: addr_entry_def v4InV6Prefix_def a)
  have "unat (get_u16 [w, x]) = 256 * unat w + unat x"
  proof -
    have "unat (get_u16 [w, x]) = be_nat [w, x] mod 2 ^ 16" by (simp only: get_u16_def unat_of_nat) simp
    also have "\<dots> = be_nat [w, x]" using be_nat_less [of "[w, x]"] by simp
    finally show ?thesis by (simp add: be_nat_def mult.commute)
  qed
  then show ?thesis unfolding entry_text_def ip port addr_text_def shifted_text by (simp add: JoinHostPort_def a)
qed

text \<open>A length that cannot be allocated makes the reader of the version message panic.\<close>

lemma version_length_panics:
  assumes "length pre = 80" "max_alloc < n" "n < 2 ^ 64"
  shows "btcParseVersionPubkey (pre @ 0xFF # le_bytes 8 n @ rest) = Panic"
  using assms by (simp add: btcParseVersionPubkey_def btcReadVarStr_def btcReadVarInt_def Let_def)

lemma version_read:
  assumes "\<And>x. length (kl_sha256 lib x) = 32" "0x2F \<notin> set pub" "length pub < 2 ^ 31"
  shows "\<exists>m. btcReadMsg lib (btc_frame lib (ascii ''version'') (btcBuildVersion now pub la ra nonce) @ rest) = (Ok m, rest) \<and>
    command_name m = ascii ''version'' \<and> btcParseVersionPubkey (bm_payload m) = Ok (take 128 pub)"
proof -
  have "length (btcBuildVersion now pub la ra nonce) < 2 ^ 32"
    using assms(3) by (simp add: btcBuildVersion_def btcWriteVarStr_def Let_def)
  moreover have "length (ascii ''version'') \<le> 12" "last (ascii ''version'') \<noteq> 0" by (simp_all add: ascii_def)
  ultimately show ?thesis
    using btcReadMsg_frame [OF assms(1)] version_pubkey [OF assms(2,3)] command_name_copy [of "ascii ''version''"] by simp
qed

section \<open>Properties\<close>

text \<open>The version message carries the public key: the reader finds the key the builder was given, cut to 128 characters,
  whatever the addresses, the time and the nonce are, and also after the message went through a frame.\<close>

theorem version_carries_key:
  assumes "\<And>x. length (kl_sha256 lib x) = 32" "0x2F \<notin> set pub" "length pub < 2 ^ 31"
  shows "\<exists>m. btcReadMsg lib (btc_frame lib (ascii ''version'') (btcBuildVersion now pub la ra nonce) @ rest) = (Ok m, rest) \<and>
    command_name m = ascii ''version'' \<and> btcParseVersionPubkey (bm_payload m) = Ok (take 128 pub)"
  by (rule version_read [OF assms])

theorem version_carries_key_witness:
  "\<exists>m. btcReadMsg demo_lib (btc_frame demo_lib (ascii ''version'')
      (btcBuildVersion 7 (ascii ''02ab'') None (Some \<lparr>ta_IP = [127, 0, 0, 1], ta_Port = 8333\<rparr>) 9) @ [1]) = (Ok m, [1]) \<and>
    btcParseVersionPubkey (bm_payload m) = Ok (ascii ''02ab'')"
  using version_carries_key [of demo_lib "ascii ''02ab''" 7 None "Some \<lparr>ta_IP = [127, 0, 0, 1], ta_Port = 8333\<rparr>" 9 "[1]"]
  by (auto simp: demo_lib_def ascii_def)

text \<open>C39: The reader of the address message looks for the address at offset 8 of an entry and for the port at offset 24, while the
  protocol has them at 12 and 28: every IPv4 node is reported with the host \<^verbatim>\<open>::ffff\<close> and its first two
  address bytes as the port.\<close>

theorem addresses_misread:
  assumes "0 < length ns" "length ns < 0xFD" "list_all (\<lambda>(t, s, a, p). s < 2 ^ 32 \<and> length a = 4) ns"
  shows "parseAddrMsg (of_nat (length ns) # concat (map (\<lambda>(t, s, a, p). addr_entry t s (v4InV6Prefix @ a) p) ns)) =
    map (\<lambda>(t, s, a, p). ''[::ffff]:'' @ show_nat (256 * unat (a ! 0) + unat (a ! 1))) ns"
proof -
  let ?es = "map (\<lambda>(t, s, a, p). addr_entry t s (v4InV6Prefix @ a) p) ns"
  have "list_all (\<lambda>e. length e = 30) ?es"
    using assms(3) by (auto simp: list_all_iff addr_entry_def v4InV6Prefix_def)
  then have "addr_loop (length ns) (concat ?es) [] = map entry_text ?es"
    using addr_loop_entries [of ?es "[]" "[]"] assms(2) by simp
  also have "\<dots> = map (\<lambda>(t, s, a, p). ''[::ffff]:'' @ show_nat (256 * unat (a ! 0) + unat (a ! 1))) ns"
    using assms(3) entry_misread by (auto simp: list_all_iff)
  finally show ?thesis
    using small_not_marker [OF assms(2)] unat_marker [OF assms(2)] assms(1)
    by (simp add: parseAddrMsg_def btcReadVarInt_def)
qed

theorem addresses_misread_witness:
  "parseAddrMsg (1 # addr_entry 0 1 (v4InV6Prefix @ [10, 0, 0, 1]) 8333) = [''[::ffff]:'' @ show_nat 2560]"
  using addresses_misread [of "[(0, 1, [10, 0, 0, 1], 8333)]"] by simp

end
