(* ===== verification/Bitcoin_Boot.thy ===== *)
theory Bitcoin_Boot
  imports Bitcoin_Wire "HOL-Library.Multiset"
begin

text \<open>
  The bootstrap over Bitcoin nodes (\<^verbatim>\<open>fedboot/bitcoin_bs.go\<close>): the handshakes of both sides as programs, the exchange of
  addresses, the answering side, and \<^verbatim>\<open>BtcBootstrap\<close> with its phases.  Dialling, name resolution, the clock and random
  numbers are arguments, and so is the order in which the go-routines finish.
\<close>

section \<open>The handshakes\<close>

text \<open>A party sends messages (and is told whether that succeeded) and reads messages.\<close>

datatype 'a btc_io =
    Done 'a
  | SendMsg bytes bytes "bool \<Rightarrow> 'a btc_io"
  | RecvMsg "(btc_error, btcMsg) res \<Rightarrow> 'a btc_io"

datatype hs_error =
    SendVersion
  | ReadVersion btc_error
  | ExpectedVersion bytes
  | SendVerack
  | ReadVerack btc_error
  | ExpectedVerack bytes

abbreviation "version_cmd \<equiv> ascii ''version''"
abbreviation "verack_cmd \<equiv> ascii ''verack''"

definition recv_version :: "(bytes \<Rightarrow> (hs_error, bytes) res btc_io) \<Rightarrow> (hs_error, bytes) res btc_io" where
  "recv_version k = RecvMsg (\<lambda>r. case r of
      Err e \<Rightarrow> Done (Err (ReadVersion e))
    | Panic \<Rightarrow> Done Panic
    | Ok msg \<Rightarrow>
        if command_name msg \<noteq> version_cmd then Done (Err (ExpectedVersion (command_name msg)))
        else (case btcParseVersionPubkey (bm_payload msg) of
            Ok peerPub \<Rightarrow> k peerPub
          | Err _ \<Rightarrow> Done Panic
          | Panic \<Rightarrow> Done Panic))"

definition recv_verack :: "bytes \<Rightarrow> (hs_error, bytes) res btc_io" where
  "recv_verack peerPub = RecvMsg (\<lambda>r. case r of
      Err e \<Rightarrow> Done (Err (ReadVerack e))
    | Panic \<Rightarrow> Done Panic
    | Ok msg \<Rightarrow>
        if command_name msg \<noteq> verack_cmd then Done (Err (ExpectedVerack (command_name msg)))
        else Done (Ok peerPub))"

definition send_verack :: "bytes \<Rightarrow> (hs_error, bytes) res btc_io" where
  "send_verack peerPub = SendMsg verack_cmd [] (\<lambda>ok. if \<not> ok then Done (Err SendVerack) else recv_verack peerPub)"

text \<open>The arguments of \<^verbatim>\<open>btcBuildVersion\<close> that do not come from the caller: the time, the addresses of the connection, the nonce.\<close>

record version_args =
  va_now :: u64
  va_local :: "TCPAddr option"
  va_remote :: "TCPAddr option"
  va_nonce :: u64

definition my_version :: "version_args \<Rightarrow> bytes \<Rightarrow> bytes" where
  "my_version va myPub = btcBuildVersion (va_now va) myPub (va_local va) (va_remote va) (va_nonce va)"

definition clientHandshake :: "version_args \<Rightarrow> bytes \<Rightarrow> (hs_error, bytes) res btc_io" where
  "clientHandshake va myPub =
    SendMsg version_cmd (my_version va myPub) (\<lambda>ok.
      if \<not> ok then Done (Err SendVersion) else recv_version send_verack)"

definition serverHandshake :: "version_args \<Rightarrow> bytes \<Rightarrow> (hs_error, bytes) res btc_io" where
  "serverHandshake va myPub =
    recv_version (\<lambda>peerPub. SendMsg version_cmd (my_version va myPub) (\<lambda>ok.
      if \<not> ok then Done (Err SendVersion) else send_verack peerPub))"

text \<open>Two parties over two streams: a send appends a frame, a read waits for a whole message.\<close>

type_synonym ('a, 'b) btc_config = "'a btc_io \<times> 'b btc_io \<times> bytes \<times> bytes"

inductive btc_step :: "key_lib \<Rightarrow> ('a, 'b) btc_config \<Rightarrow> ('a, 'b) btc_config \<Rightarrow> bool" for lib where
  send_left: "btc_step lib (SendMsg c m k, q, toL, toR) (k True, q, toL, toR @ btc_frame lib c m)"
| send_right: "btc_step lib (p, SendMsg c m k, toL, toR) (p, k True, toL @ btc_frame lib c m, toR)"
| recv_left: "btcReadMsg lib toL = (Ok m, toL') \<Longrightarrow> btc_step lib (RecvMsg k, q, toL, toR) (k (Ok m), q, toL', toR)"
| recv_right: "btcReadMsg lib toR = (Ok m, toR') \<Longrightarrow> btc_step lib (p, RecvMsg k, toL, toR) (p, k (Ok m), toL, toR')"

inductive_cases btc_stepE: "btc_step lib (p, q, toL, toR) c"

section \<open>Connections\<close>

text \<open>A connection: the bytes it will deliver, those written to it, how many writes succeed before it fails.\<close>

record btc_conn =
  bc_in :: bytes
  bc_out :: bytes
  bc_left :: nat
  bc_closed :: bool
  bc_local :: "TCPAddr option"
  bc_remote :: "TCPAddr option"

definition conn_Write :: "bytes \<Rightarrow> btc_conn \<Rightarrow> bool \<times> btc_conn" where
  "conn_Write data c = (if bc_left c = 0 then (False, c)
     else (True, c\<lparr>bc_out := bc_out c @ data, bc_left := bc_left c - 1\<rparr>))"

definition btcWriteMsg :: "key_lib \<Rightarrow> bytes \<Rightarrow> bytes \<Rightarrow> btc_conn \<Rightarrow> bool \<times> btc_conn" where
  "btcWriteMsg lib cmd payload c = (case conn_Write (btc_header lib cmd payload) c of (ok, c1) \<Rightarrow>
     if \<not> ok then (False, c1)
     else if 0 < length payload then conn_Write payload c1
     else (True, c1))"

primrec run_btc :: "key_lib \<Rightarrow> 'a btc_io \<Rightarrow> btc_conn \<Rightarrow> 'a \<times> btc_conn" where
  "run_btc lib (Done a) c = (a, c)"
| "run_btc lib (SendMsg cmd m k) c = (case btcWriteMsg lib cmd m c of (ok, c1) \<Rightarrow> run_btc lib (k ok) c1)"
| "run_btc lib (RecvMsg k) c = (case btcReadMsg lib (bc_in c) of (r, rest) \<Rightarrow> run_btc lib (k r) (c\<lparr>bc_in := rest\<rparr>))"

definition conn_args :: "u64 \<Rightarrow> u64 \<Rightarrow> btc_conn \<Rightarrow> version_args" where
  "conn_args now nonce c = \<lparr>va_now = now, va_local = bc_local c, va_remote = bc_remote c, va_nonce = nonce\<rparr>"

datatype conn_error = Dial | Handshake hs_error

definition connectPeer ::
  "key_lib \<Rightarrow> u64 \<Rightarrow> u64 \<Rightarrow> bytes \<Rightarrow> btc_conn option \<Rightarrow> (conn_error, btc_conn \<times> bytes) res" where
  "connectPeer lib now nonce myPub dialled = (case dialled of
      None \<Rightarrow> Err Dial
    | Some conn \<Rightarrow>
        (case run_btc lib (clientHandshake (conn_args now nonce conn) myPub) conn of
           (Err e, c1) \<Rightarrow> Err (Handshake e)
         | (Panic, c1) \<Rightarrow> Panic
         | (Ok peerPub, c1) \<Rightarrow> Ok (c1, peerPub)))"

section \<open>Addresses and pings\<close>

lemma write_keeps_input: "btcWriteMsg lib cmd m c = (ok, c1) \<Longrightarrow> bc_in c1 = bc_in c"
  by (auto simp: btcWriteMsg_def conn_Write_def split: if_splits prod.splits)

text \<open>The loop of \<^verbatim>\<open>requestAddrs\<close>; a failing pong is not noticed.\<close>

function request_loop :: "key_lib \<Rightarrow> btc_conn \<Rightarrow> (btc_error, string list) res \<times> btc_conn" where
  "request_loop lib c = (case btcReadMsg lib (bc_in c) of
      (Err e, r) \<Rightarrow> (Err e, c\<lparr>bc_in := r\<rparr>)
    | (Panic, r) \<Rightarrow> (Panic, c\<lparr>bc_in := r\<rparr>)
    | (Ok msg, r) \<Rightarrow>
        let c1 = c\<lparr>bc_in := r\<rparr> in
        if command_name msg = ascii ''addr'' then (Ok (parseAddrMsg (bm_payload msg)), c1)
        else if command_name msg = ascii ''ping'' then
          (case btcWriteMsg lib (ascii ''pong'') [] c1 of (ok, c2) \<Rightarrow> request_loop lib c2)
        else request_loop lib c1)"
  by pat_completeness auto
termination
  by (relation "measure (\<lambda>(_, c). length (bc_in c))")
    (auto dest!: btcReadMsg_consumes [OF sym] dest: write_keeps_input [OF sym])

declare request_loop.simps [simp del]

datatype addr_error = SendGetaddr | ReadAddr btc_error

definition requestAddrs :: "key_lib \<Rightarrow> btc_conn \<Rightarrow> (addr_error, string list) res \<times> btc_conn" where
  "requestAddrs lib conn = (case btcWriteMsg lib (ascii ''getaddr'') [] conn of (ok, c1) \<Rightarrow>
     if \<not> ok then (Err SendGetaddr, c1)
     else (case request_loop lib c1 of
         (Err e, c2) \<Rightarrow> (Err (ReadAddr e), c2)
       | (Panic, c2) \<Rightarrow> (Panic, c2)
       | (Ok addrs, c2) \<Rightarrow> (Ok addrs, c2)))"

text \<open>One turn of \<^verbatim>\<open>keepAlive\<close>: whether the loop goes on.\<close>

definition keepAlive_turn :: "key_lib \<Rightarrow> btc_conn \<Rightarrow> bool \<times> btc_conn" where
  "keepAlive_turn lib conn = (case btcWriteMsg lib (ascii ''ping'') [] conn of (ok, c1) \<Rightarrow>
     if \<not> ok then (False, c1\<lparr>bc_closed := True\<rparr>)
     else (case btcReadMsg lib (bc_in c1) of
         (Ok msg, r) \<Rightarrow> (True, c1\<lparr>bc_in := r\<rparr>)
       | (_, r) \<Rightarrow> (False, c1\<lparr>bc_in := r, bc_closed := True\<rparr>)))"

text \<open>The loop of \<^verbatim>\<open>btcHandleIncoming\<close> and the handler, which closes the connection in the end.\<close>

function serve_loop :: "key_lib \<Rightarrow> btc_conn \<Rightarrow> btc_conn" where
  "serve_loop lib c = (case btcReadMsg lib (bc_in c) of
      (Ok msg, r) \<Rightarrow>
        let c1 = c\<lparr>bc_in := r\<rparr> in
        if command_name msg = ascii ''ping'' then
          (case btcWriteMsg lib (ascii ''pong'') [] c1 of (ok, c2) \<Rightarrow> serve_loop lib c2)
        else if command_name msg = ascii ''getaddr'' then
          (case btcWriteMsg lib (ascii ''addr'') [] c1 of (ok, c2) \<Rightarrow> serve_loop lib c2)
        else serve_loop lib c1
    | (_, r) \<Rightarrow> c\<lparr>bc_in := r\<rparr>)"
  by pat_completeness auto
termination
  by (relation "measure (\<lambda>(_, c). length (bc_in c))")
    (auto dest!: btcReadMsg_consumes [OF sym] dest: write_keeps_input [OF sym])

declare serve_loop.simps [simp del]

text \<open>\<^verbatim>\<open>None\<close> is a panic while the version message of the peer is read.\<close>

definition btcHandleIncoming :: "key_lib \<Rightarrow> u64 \<Rightarrow> u64 \<Rightarrow> btc_conn \<Rightarrow> btc_conn option" where
  "btcHandleIncoming lib now nonce conn =
    (case run_btc lib (serverHandshake (conn_args now nonce conn) []) conn of
       (Panic, c1) \<Rightarrow> None
     | (Err e, c1) \<Rightarrow> Some (c1\<lparr>bc_closed := True\<rparr>)
     | (Ok _, c1) \<Rightarrow> Some ((serve_loop lib c1)\<lparr>bc_closed := True\<rparr>))"


section \<open>The bootstrap\<close>

definition btcDNSSeds :: "string list" where
  "btcDNSSeds = [''seed.bitcoin.sipa.be'', ''dnsseed.bluematt.me'', ''dnsseed.bitcoin.dashjr.org'',
     ''seed.bitcoinstats.com'', ''seed.bitnodes.io'']"

record SeedResult =
  sr_Host :: string
  sr_Addrs :: "string list"
  sr_Success :: bool
  sr_Err :: string

definition is_v4 :: "bytes \<Rightarrow> bool" where
  "is_v4 ip \<longleftrightarrow> length ip = 4 \<or> length ip = 16 \<and> take 12 ip = v4InV6Prefix"

text \<open>\<^verbatim>\<open>lookup\<close> is the resolver: the text of its error, or the addresses of a host.\<close>

definition resolve_seed :: "(string \<Rightarrow> string + bytes list) \<Rightarrow> string \<Rightarrow> SeedResult" where
  "resolve_seed lookup host = (case lookup host of
      Inl err \<Rightarrow> \<lparr>sr_Host = host, sr_Addrs = [], sr_Success = False, sr_Err = err\<rparr>
    | Inr ips \<Rightarrow>
        let addrs = map (\<lambda>ip. JoinHostPort (IP_String ip) ''8333'') (filter is_v4 ips) in
        if addrs = [] then \<lparr>sr_Host = host, sr_Addrs = addrs, sr_Success = False, sr_Err = ''no IPv4 addresses resolved''\<rparr>
        else \<lparr>sr_Host = host, sr_Addrs = addrs, sr_Success = True, sr_Err = ''''\<rparr>)"

definition resolveSeeds :: "(string \<Rightarrow> string + bytes list) \<Rightarrow> SeedResult list" where
  "resolveSeeds lookup = map (resolve_seed lookup) btcDNSSeds"

record BsPeerInfo =
  bi_Addr :: string
  bi_Pubkey :: bytes
  bi_Conn :: btc_conn

record BtcBootResult =
  br_PubkeyHex :: string
  br_Seeds :: "SeedResult list"
  br_ConnectOK :: "BsPeerInfo list"
  br_ConnectNOK :: "string list"
  br_Discovered :: nat

datatype boot_error = LoadKeys key_error | NoAddresses | NoPeers

text \<open>What the go-routines of the second phase are given: the outcome of dialling the address at a position, the time and the nonce.
  The list of positions is the order in which they finish.\<close>

record boot_env =
  be_lookup :: "string \<Rightarrow> string + bytes list"
  be_dial :: "nat \<Rightarrow> btc_conn option"
  be_now :: "nat \<Rightarrow> u64"
  be_nonce :: "nat \<Rightarrow> u64"

definition connect_at :: "key_lib \<Rightarrow> boot_env \<Rightarrow> bytes \<Rightarrow> nat \<Rightarrow> (conn_error, btc_conn \<times> bytes) res" where
  "connect_at lib env myPub i = connectPeer lib (be_now env i) (be_nonce env i) myPub (be_dial env i)"

definition connect_one ::
  "key_lib \<Rightarrow> boot_env \<Rightarrow> bytes \<Rightarrow> string list \<Rightarrow> nat \<Rightarrow> BsPeerInfo list \<times> string list \<Rightarrow> BsPeerInfo list \<times> string list" where
  "connect_one lib env myPub allAddrs i st = (case st of (oks, noks) \<Rightarrow>
     (case connect_at lib env myPub i of
        Ok (conn, peerPub) \<Rightarrow> (oks @ [\<lparr>bi_Addr = allAddrs ! i, bi_Pubkey = peerPub, bi_Conn = conn\<rparr>], noks)
      | _ \<Rightarrow> (oks, noks @ [allAddrs ! i])))"

definition connect_phase ::
  "key_lib \<Rightarrow> boot_env \<Rightarrow> bytes \<Rightarrow> string list \<Rightarrow> nat list \<Rightarrow> BsPeerInfo list \<times> string list" where
  "connect_phase lib env myPub allAddrs order = fold (connect_one lib env myPub allAddrs) order ([], [])"

text \<open>The third phase: the addresses each peer sends, in the set of those discovered.\<close>

definition peer_addrs :: "key_lib \<Rightarrow> BsPeerInfo \<Rightarrow> string list" where
  "peer_addrs lib p = (case fst (requestAddrs lib (bi_Conn p)) of Ok addrs \<Rightarrow> addrs | _ \<Rightarrow> [])"

definition discover_phase :: "key_lib \<Rightarrow> BsPeerInfo list \<Rightarrow> string set" where
  "discover_phase lib oks = fold (\<lambda>p s. s \<union> set (peer_addrs lib p)) oks {}"

definition asked :: "key_lib \<Rightarrow> BsPeerInfo \<Rightarrow> BsPeerInfo" where
  "asked lib p = p\<lparr>bi_Conn := snd (requestAddrs lib (bi_Conn p))\<rparr>"

text \<open>A panic in a go-routine ends the program.\<close>

definition BtcBootstrap ::
  "key_lib \<Rightarrow> boot_env \<Rightarrow> (key_error, KeyRing) res \<Rightarrow> nat list \<Rightarrow> (boot_error, BtcBootResult) res" where
  "BtcBootstrap lib env keys order = (case keys of
      Err e \<Rightarrow> Err (LoadKeys e)
    | Panic \<Rightarrow> Panic
    | Ok kr \<Rightarrow>
        let myPub = hex_encode (Secp256k1Pub lib kr);
            seeds = resolveSeeds (be_lookup env);
            totalAddrs = sum_list (map (length \<circ> sr_Addrs) (filter sr_Success seeds))
        in if totalAddrs = 0 then Err NoAddresses
           else
             let allAddrs = concat (map sr_Addrs seeds) in
             if list_ex (\<lambda>i. connect_at lib env (ascii myPub) i = Panic) order then Panic
             else
               case connect_phase lib env (ascii myPub) allAddrs order of (oks, noks) \<Rightarrow>
                 if oks = [] then Err NoPeers
                 else if list_ex (\<lambda>p. fst (requestAddrs lib (bi_Conn p)) = Panic) oks then Panic
                 else Ok \<lparr>br_PubkeyHex = myPub, br_Seeds = seeds, br_ConnectOK = map (asked lib) oks,
                   br_ConnectNOK = noks, br_Discovered = card (discover_phase lib oks)\<rparr>)"

section \<open>Runs that may interleave\<close>

text \<open>Steps that can be exchanged: then every run takes the same number of steps to the same end.\<close>

locale diamond_steps =
  fixes step :: "'c \<Rightarrow> 'c \<Rightarrow> bool"
  assumes diamond: "step c d \<Longrightarrow> step c e \<Longrightarrow> d = e \<or> (\<exists>f. step d f \<and> step e f)"
begin

lemma one_step:
  "step c d \<Longrightarrow> (step ^^ n) c z \<Longrightarrow> \<not> Ex (step z) \<Longrightarrow> 0 < n \<and> (step ^^ (n - 1)) d z"
proof (induction n arbitrary: c d)
  case (Suc n)
  then obtain e where e: "step c e" "(step ^^ n) e z" by (meson relpowp_Suc_D2)
  from diamond [OF Suc.prems(1) e(1)] show ?case
  proof
    assume "\<exists>f. step d f \<and> step e f"
    then obtain f where f: "step d f" "step e f" by blast
    from Suc.IH [OF f(2) e(2) Suc.prems(3)] have "0 < n" "(step ^^ (n - 1)) f z" by auto
    with f(1) have "(step ^^ Suc (n - 1)) d z" by (meson relpowp_Suc_I2)
    with \<open>0 < n\<close> show ?thesis by simp
  qed (use e in simp)
qed auto

lemma run_to_end:
  assumes "(step ^^ n) c z" "\<not> Ex (step z)" "(step ^^ k) c d"
  shows "k \<le> n \<and> (step ^^ (n - k)) d z"
  using assms(3)
proof (induction k arbitrary: d)
  case (Suc k)
  then obtain b where "(step ^^ k) c b" "step b d" by auto
  with Suc.IH have "k \<le> n" "(step ^^ (n - k)) b z" by auto
  with one_step [OF \<open>step b d\<close> this(2) assms(2)] show ?case by (simp add: Suc_le_eq)
qed (use assms(1) in simp)

end

lemma btc_diamond:
  assumes "btc_step lib c d" "btc_step lib c e"
  shows "d = e \<or> (\<exists>f. btc_step lib d f \<and> btc_step lib e f)"
proof -
  obtain p q toL toR where c: "c = (p, q, toL, toR)" by (metis prod_cases4)
  show ?thesis
    using assms unfolding c
    by (elim btc_stepE; simp del: split_paired_Ex split_paired_All;
        blast intro: btc_step.intros dest: btcReadMsg_more)
qed

interpretation btc_runs: diamond_steps "btc_step lib" for lib
  by unfold_locales (rule btc_diamond)


section \<open>Steps of the handshakes\<close>

lemma recv_leftI:
  "btcReadMsg lib toL = (Ok m, toL') \<Longrightarrow> k (Ok m) = p \<Longrightarrow> btc_step lib (RecvMsg k, q, toL, toR) (p, q, toL', toR)"
  using btc_step.recv_left by blast

lemma recv_rightI:
  "btcReadMsg lib toR = (Ok m, toR') \<Longrightarrow> k (Ok m) = q \<Longrightarrow> btc_step lib (p, RecvMsg k, toL, toR) (p, q, toL, toR')"
  using btc_step.recv_right by blast

lemma verack_read:
  assumes "\<And>x. length (kl_sha256 lib x) = 32"
  shows "\<exists>m. btcReadMsg lib (btc_frame lib verack_cmd [] @ rest) = (Ok m, rest) \<and> command_name m = verack_cmd"
proof -
  have "length verack_cmd \<le> 12" "last verack_cmd \<noteq> 0" by (simp_all add: ascii_def)
  then show ?thesis using btcReadMsg_frame [OF assms, of verack_cmd "[]"] command_name_copy [of verack_cmd] by simp
qed

lemma recv_version_step:
  assumes "\<And>x. length (kl_sha256 lib x) = 32" "0x2F \<notin> set pub" "length pub < 2 ^ 31"
  shows "btc_step lib (recv_version k, q, btc_frame lib version_cmd (my_version va pub) @ s, toR) (k (take 128 pub), q, s, toR)"
    "btc_step lib (p, recv_version k, toL, btc_frame lib version_cmd (my_version va pub) @ s) (p, k (take 128 pub), toL, s)"
proof -
  obtain m where m: "btcReadMsg lib (btc_frame lib version_cmd (my_version va pub) @ s) = (Ok m, s)"
    "command_name m = version_cmd" "btcParseVersionPubkey (bm_payload m) = Ok (take 128 pub)"
    using version_read [OF assms] unfolding my_version_def by blast
  show "btc_step lib (recv_version k, q, btc_frame lib version_cmd (my_version va pub) @ s, toR) (k (take 128 pub), q, s, toR)"
    unfolding recv_version_def by (rule recv_leftI [OF m(1)]) (simp add: m)
  show "btc_step lib (p, recv_version k, toL, btc_frame lib version_cmd (my_version va pub) @ s) (p, k (take 128 pub), toL, s)"
    unfolding recv_version_def by (rule recv_rightI [OF m(1)]) (simp add: m)
qed

lemma recv_verack_step:
  assumes "\<And>x. length (kl_sha256 lib x) = 32"
  shows "btc_step lib (recv_verack pub, q, btc_frame lib verack_cmd [] @ s, toR) (Done (Ok pub), q, s, toR)"
    "btc_step lib (p, recv_verack pub, toL, btc_frame lib verack_cmd [] @ s) (p, Done (Ok pub), toL, s)"
proof -
  obtain m where m: "btcReadMsg lib (btc_frame lib verack_cmd [] @ s) = (Ok m, s)" "command_name m = verack_cmd"
    using verack_read [OF assms] by blast
  show "btc_step lib (recv_verack pub, q, btc_frame lib verack_cmd [] @ s, toR) (Done (Ok pub), q, s, toR)"
    unfolding recv_verack_def by (rule recv_leftI [OF m(1)]) (simp add: m)
  show "btc_step lib (p, recv_verack pub, toL, btc_frame lib verack_cmd [] @ s) (p, Done (Ok pub), toL, s)"
    unfolding recv_verack_def by (rule recv_rightI [OF m(1)]) (simp add: m)
qed

lemma send_step:
  "k True = p \<Longrightarrow> toR @ btc_frame lib c m = s \<Longrightarrow> btc_step lib (SendMsg c m k, q, toL, toR) (p, q, toL, s)"
  "k' True = q \<Longrightarrow> toL @ btc_frame lib c m = s \<Longrightarrow> btc_step lib (p, SendMsg c m k', toL, toR) (p, q, s, toR)"
  using btc_step.send_left btc_step.send_right by blast+

text \<open>One run of a handshake, the client first.\<close>

lemma handshake_run:
  assumes hash: "\<And>x. length (kl_sha256 lib x) = 32"
    and pubs: "0x2F \<notin> set cp" "length cp < 2 ^ 31" "0x2F \<notin> set sp" "length sp < 2 ^ 31"
  shows "(btc_step lib ^^ 8) (clientHandshake va cp, serverHandshake vb sp, [], [])
    (Done (Ok (take 128 sp)), Done (Ok (take 128 cp)), [], [])"
proof -
  let ?c = "take 128 cp" and ?s = "take 128 sp"
  let ?V = "\<lambda>va pub. btc_frame lib version_cmd (my_version va pub)" and ?A = "btc_frame lib verack_cmd []"
  let ?sv = "\<lambda>pub. SendMsg version_cmd (my_version vb sp) (\<lambda>ok. if \<not> ok then Done (Err SendVersion) else send_verack pub)"
  let ?R = "btc_step lib"
  have 1: "?R (clientHandshake va cp, serverHandshake vb sp, [], []) (recv_version send_verack, serverHandshake vb sp, [], ?V va cp)"
    unfolding clientHandshake_def by (rule send_step(1)) simp_all
  have 2: "?R (recv_version send_verack, serverHandshake vb sp, [], ?V va cp) (recv_version send_verack, ?sv ?c, [], [])"
    using recv_version_step(2) [OF hash pubs(1,2), where s = "[]"] unfolding serverHandshake_def by simp
  have 3: "?R (recv_version send_verack, ?sv ?c, [], []) (recv_version send_verack, send_verack ?c, ?V vb sp, [])"
    by (rule send_step(2)) simp_all
  have 4: "?R (recv_version send_verack, send_verack ?c, ?V vb sp, []) (recv_version send_verack, recv_verack ?c, ?V vb sp @ ?A, [])"
    unfolding send_verack_def [of ?c] by (rule send_step(2)) simp_all
  have 5: "?R (recv_version send_verack, recv_verack ?c, ?V vb sp @ ?A, []) (send_verack ?s, recv_verack ?c, ?A, [])"
    by (rule recv_version_step(1) [OF hash pubs(3,4)])
  have 6: "?R (send_verack ?s, recv_verack ?c, ?A, []) (recv_verack ?s, recv_verack ?c, ?A, ?A)"
    unfolding send_verack_def by (rule send_step(1)) simp_all
  have 7: "?R (recv_verack ?s, recv_verack ?c, ?A, ?A) (Done (Ok ?s), recv_verack ?c, [], ?A)"
    using recv_verack_step(1) [OF hash, where s = "[]"] by simp
  have 8: "?R (Done (Ok ?s), recv_verack ?c, [], ?A) (Done (Ok ?s), Done (Ok ?c), [], [])"
    using recv_verack_step(2) [OF hash, where s = "[]"] by simp
  have "(?R ^^ Suc (Suc (Suc (Suc (Suc (Suc (Suc (Suc 0)))))))) (clientHandshake va cp, serverHandshake vb sp, [], [])
      (Done (Ok ?s), Done (Ok ?c), [], [])"
    by (rule relpowp_Suc_I2, rule 1, rule relpowp_Suc_I2, rule 2, rule relpowp_Suc_I2, rule 3, rule relpowp_Suc_I2, rule 4,
        rule relpowp_Suc_I2, rule 5, rule relpowp_Suc_I2, rule 6, rule relpowp_Suc_I2, rule 7, rule relpowp_Suc_I2, rule 8)
      simp
  moreover have "Suc (Suc (Suc (Suc (Suc (Suc (Suc (Suc 0))))))) = 8" by simp
  ultimately show ?thesis by (simp only:)
qed

lemma both_done: "\<not> Ex (btc_step lib (Done a, Done b, toL, toR))"
  by (auto elim: btc_stepE)


section \<open>Asking a peer for addresses\<close>

text \<open>The messages that a peer may send before the addresses: pings, which are answered, and any others, which are not.\<close>

definition chatter_ok :: "bytes \<times> bytes \<Rightarrow> bool" where
  "chatter_ok x \<longleftrightarrow> fst x \<noteq> ascii ''addr'' \<and> length (fst x) \<le> 12 \<and> (fst x = [] \<or> last (fst x) \<noteq> 0) \<and> length (snd x) < 2 ^ 32"

definition frames :: "key_lib \<Rightarrow> (bytes \<times> bytes) list \<Rightarrow> bytes" where
  "frames lib xs = concat (map (\<lambda>(c, m). btc_frame lib c m) xs)"

definition pongs :: "key_lib \<Rightarrow> (bytes \<times> bytes) list \<Rightarrow> bytes" where
  "pongs lib xs = concat (map (\<lambda>x. if fst x = ascii ''ping'' then btc_frame lib (ascii ''pong'') [] else []) xs)"

definition pings :: "(bytes \<times> bytes) list \<Rightarrow> nat" where
  "pings xs = length (filter (\<lambda>x. fst x = ascii ''ping'') xs)"

lemma write_empty:
  assumes "0 < bc_left c"
  shows "btcWriteMsg lib cmd [] c = (True, c\<lparr>bc_out := bc_out c @ btc_frame lib cmd [], bc_left := bc_left c - 1\<rparr>)"
  using assms by (simp add: btcWriteMsg_def conn_Write_def btc_frame_def)

lemma request_loop_addr:
  assumes "\<And>x. length (kl_sha256 lib x) = 32" "list_all chatter_ok xs" "length m < 2 ^ 32" "pings xs \<le> bc_left c"
    and "bc_in c = frames lib xs @ btc_frame lib (ascii ''addr'') m @ rest"
  shows "request_loop lib c = (Ok (parseAddrMsg m),
    c\<lparr>bc_in := rest, bc_out := bc_out c @ pongs lib xs, bc_left := bc_left c - pings xs\<rparr>)"
  using assms(2,4,5)
proof (induction xs arbitrary: c)
  case Nil
  have "command_name \<lparr>bm_command = go_copy (replicate 12 0) (ascii ''addr''), bm_payload = m\<rparr> = ascii ''addr''"
    by (rule command_name_copy) (simp_all add: ascii_def)
  then show ?case
    using Nil btcReadMsg_frame [OF assms(1), of "ascii ''addr''" m rest] assms(3)
    by (subst request_loop.simps) (simp add: frames_def pongs_def pings_def)
next
  case (Cons x xs)
  obtain cmd p where x: "x = (cmd, p)" by (cases x)
  let ?r = "frames lib xs @ btc_frame lib (ascii ''addr'') m @ rest"
  have ok: "cmd \<noteq> ascii ''addr''" "length cmd \<le> 12" "cmd = [] \<or> last cmd \<noteq> 0" "length p < 2 ^ 32"
    using Cons.prems(1) by (simp_all add: chatter_ok_def x)
  have rd: "btcReadMsg lib (bc_in c) = (Ok \<lparr>bm_command = go_copy (replicate 12 0) cmd, bm_payload = p\<rparr>, ?r)"
    using btcReadMsg_frame [OF assms(1) ok(2,4), of ?r] Cons.prems(3) by (simp add: frames_def x)
  show ?case
  proof (cases "cmd = ascii ''ping''")
    case True
    let ?c = "c\<lparr>bc_in := ?r, bc_out := bc_out c @ btc_frame lib (ascii ''pong'') [], bc_left := bc_left c - 1\<rparr>"
    have left: "0 < bc_left c" "pings xs \<le> bc_left ?c" using Cons.prems(2) True by (simp_all add: pings_def x)
    have "request_loop lib c = request_loop lib ?c"
      using rd left(1) ok True command_name_copy [OF ok(2,3)]
      by (subst request_loop.simps) (simp add: write_empty)
    then show ?thesis
      using Cons.IH [of ?c] Cons.prems(1) left(2) True by (simp add: pongs_def pings_def x)
  next
    case False
    have "request_loop lib c = request_loop lib (c\<lparr>bc_in := ?r\<rparr>)"
      using rd ok False command_name_copy [OF ok(2,3)] by (subst request_loop.simps) simp
    then show ?thesis
      using Cons.IH [of "c\<lparr>bc_in := ?r\<rparr>"] Cons.prems(1,2) False by (simp add: pongs_def pings_def x)
  qed
qed

section \<open>The order of the go-routines\<close>

definition peer_at :: "key_lib \<Rightarrow> boot_env \<Rightarrow> bytes \<Rightarrow> string list \<Rightarrow> nat \<Rightarrow> BsPeerInfo option" where
  "peer_at lib env myPub allAddrs i = (case connect_at lib env myPub i of
      Ok (conn, peerPub) \<Rightarrow> Some \<lparr>bi_Addr = allAddrs ! i, bi_Pubkey = peerPub, bi_Conn = conn\<rparr>
    | _ \<Rightarrow> None)"

lemma connect_fold:
  "fold (connect_one lib env myPub allAddrs) order (oks, noks) =
    (oks @ List.map_filter (peer_at lib env myPub allAddrs) order,
     noks @ map (\<lambda>i. allAddrs ! i) (filter (\<lambda>i. peer_at lib env myPub allAddrs i = None) order))"
proof (induction order arbitrary: oks noks)
  case (Cons i order)
  show ?case
  proof (cases "connect_at lib env myPub i")
    case (Ok r)
    then show ?thesis using Cons by (cases r) (simp add: connect_one_def peer_at_def map_filter_def)
  qed (use Cons in \<open>simp_all add: connect_one_def peer_at_def map_filter_def\<close>)
qed (simp add: map_filter_def)

lemma connect_phase_eq:
  "connect_phase lib env myPub allAddrs order =
    (List.map_filter (peer_at lib env myPub allAddrs) order,
     map (\<lambda>i. allAddrs ! i) (filter (\<lambda>i. peer_at lib env myPub allAddrs i = None) order))"
  using connect_fold [of lib env myPub allAddrs order "[]" "[]"] by (simp add: connect_phase_def)

lemma discover_phase_eq: "discover_phase lib oks = (\<Union>p\<in>set oks. set (peer_addrs lib p))"
proof -
  have "fold (\<lambda>p s. s \<union> set (peer_addrs lib p)) oks A = A \<union> (\<Union>p\<in>set oks. set (peer_addrs lib p))" for A
    by (induction oks arbitrary: A) auto
  then show ?thesis by (simp add: discover_phase_def)
qed

lemma mset_map_filter: "mset xs = mset ys \<Longrightarrow> mset (List.map_filter f xs) = mset (List.map_filter f ys)"
  by (simp add: map_filter_def)

lemma connect_addresses:
  "mset (map bi_Addr (List.map_filter (peer_at lib env myPub allAddrs) order)) +
   mset (map (\<lambda>i. allAddrs ! i) (filter (\<lambda>i. peer_at lib env myPub allAddrs i = None) order)) =
   mset (map (\<lambda>i. allAddrs ! i) order)"
proof (induction order)
  case (Cons i order)
  have "peer_at lib env myPub allAddrs i = Some p \<Longrightarrow> bi_Addr p = allAddrs ! i" for p
    by (auto simp: peer_at_def split: res.splits prod.splits)
  then show ?case using Cons by (cases "peer_at lib env myPub allAddrs i") (simp_all add: map_filter_def)
qed (simp add: map_filter_def)


section \<open>Properties\<close>

text \<open>C18: A client and a server that shake hands always finish, in whatever order their sends and reads are interleaved: there is no run
  longer than eight steps, every run can be continued to the end, and in the end each side holds the
  public key of the other (cut to 128 characters) and nothing is left in the streams.\<close>

theorem btc_handshake:
  assumes "\<And>x. length (kl_sha256 lib x) = 32"
    and "0x2F \<notin> set cp" "length cp < 2 ^ 31" "0x2F \<notin> set sp" "length sp < 2 ^ 31"
    and "(btc_step lib ^^ n) (clientHandshake va cp, serverHandshake vb sp, [], []) c"
  shows "n \<le> 8 \<and> (btc_step lib ^^ (8 - n)) c (Done (Ok (take 128 sp)), Done (Ok (take 128 cp)), [], [])"
  by (rule btc_runs.run_to_end [OF handshake_run [OF assms(1-5)] both_done assms(6)])

theorem btc_handshake_witness:
  "(btc_step demo_lib ^^ 8) (clientHandshake \<lparr>va_now = 1, va_local = None, va_remote = None, va_nonce = 2\<rparr> (ascii ''02''),
      serverHandshake \<lparr>va_now = 3, va_local = None, va_remote = None, va_nonce = 4\<rparr> (ascii ''03''), [], [])
    (Done (Ok (ascii ''03'')), Done (Ok (ascii ''02'')), [], [])"
  using btc_handshake [of demo_lib "ascii ''02''" "ascii ''03''" 0 "\<lparr>va_now = 1, va_local = None, va_remote = None, va_nonce = 2\<rparr>"
      "\<lparr>va_now = 3, va_local = None, va_remote = None, va_nonce = 4\<rparr>"]
  by (simp add: demo_lib_def ascii_def)

text \<open>C27: Whatever a peer sends before it sends its addresses, the request for addresses ends with exactly those of its address message: one
  request is sent, every ping is answered with one pong, everything else is ignored, and what is behind the address
  message is left for later.\<close>

theorem addresses_requested:
  assumes "\<And>x. length (kl_sha256 lib x) = 32" "list_all chatter_ok xs" "length m < 2 ^ 32" "pings xs < bc_left c"
    and "bc_in c = frames lib xs @ btc_frame lib (ascii ''addr'') m @ rest"
  shows "\<exists>c1. requestAddrs lib c = (Ok (parseAddrMsg m), c1) \<and> bc_in c1 = rest \<and>
    bc_out c1 = bc_out c @ btc_frame lib (ascii ''getaddr'') [] @ pongs lib xs"
proof -
  let ?c = "c\<lparr>bc_out := bc_out c @ btc_frame lib (ascii ''getaddr'') [], bc_left := bc_left c - 1\<rparr>"
  have "btcWriteMsg lib (ascii ''getaddr'') [] c = (True, ?c)" using assms(4) by (intro write_empty) simp
  then show ?thesis
    using request_loop_addr [OF assms(1-3), of ?c rest] assms(4,5) by (simp add: requestAddrs_def)
qed

definition demo_conn :: "bytes \<Rightarrow> btc_conn" where
  "demo_conn inp = \<lparr>bc_in = inp, bc_out = [], bc_left = 9, bc_closed = False, bc_local = None, bc_remote = None\<rparr>"

theorem addresses_requested_witness:
  "fst (requestAddrs demo_lib (demo_conn (frames demo_lib [(ascii ''inv'', [1]), (ascii ''ping'', [])]
     @ btc_frame demo_lib (ascii ''addr'') [0] @ [7]))) = Ok (parseAddrMsg [0])"
  using addresses_requested [of demo_lib "[(ascii ''inv'', [1]), (ascii ''ping'', [])]" "[0]"
      "demo_conn (frames demo_lib [(ascii ''inv'', [1]), (ascii ''ping'', [])] @ btc_frame demo_lib (ascii ''addr'') [0] @ [7])" "[7]"]
  by (auto simp: demo_lib_def demo_conn_def chatter_ok_def pings_def ascii_def)



definition demo_peer_conn :: btc_conn where
  "demo_peer_conn = demo_conn (btc_frame demo_lib version_cmd
     (my_version \<lparr>va_now = 3, va_local = None, va_remote = None, va_nonce = 4\<rparr> (ascii ''03''))
     @ btc_frame demo_lib verack_cmd [] @ btc_frame demo_lib (ascii ''addr'') [0])"

definition demo_boot :: boot_env where
  "demo_boot = \<lparr>be_lookup = (\<lambda>host. if host = ''seed.bitnodes.io'' then Inr [[1, 2, 3, 4], [5, 6, 7, 8]] else Inl ''timeout''),
     be_dial = (\<lambda>i. if i = 0 then Some demo_peer_conn else None), be_now = (\<lambda>_. 1), be_nonce = (\<lambda>_. 2)\<rparr>"

lemma run_version:
  assumes "\<And>x. length (kl_sha256 lib x) = 32" "0x2F \<notin> set pub" "length pub < 2 ^ 31"
    and "bc_in c = btc_frame lib version_cmd (my_version va pub) @ s"
  shows "run_btc lib (recv_version k) c = run_btc lib (k (take 128 pub)) (c\<lparr>bc_in := s\<rparr>)"
proof -
  obtain m where "btcReadMsg lib (btc_frame lib version_cmd (my_version va pub) @ s) = (Ok m, s)"
    "command_name m = version_cmd" "btcParseVersionPubkey (bm_payload m) = Ok (take 128 pub)"
    using version_read [OF assms(1-3)] unfolding my_version_def by blast
  then show ?thesis by (simp add: recv_version_def assms(4))
qed

lemma run_verack:
  assumes "\<And>x. length (kl_sha256 lib x) = 32" "bc_in c = btc_frame lib verack_cmd [] @ s"
  shows "run_btc lib (recv_verack pub) c = (Ok pub, c\<lparr>bc_in := s\<rparr>)"
proof -
  obtain m where "btcReadMsg lib (btc_frame lib verack_cmd [] @ s) = (Ok m, s)" "command_name m = verack_cmd"
    using verack_read [OF assms(1)] by blast
  then show ?thesis by (simp add: recv_verack_def assms(2))
qed

text \<open>Connecting to a peer that answers with its version and its acknowledgement.\<close>

lemma connectPeer_answered:
  assumes hash: "\<And>x. length (kl_sha256 lib x) = 32" and pub: "0x2F \<notin> set pub" "length pub < 2 ^ 31"
    and c: "bc_in c = btc_frame lib version_cmd (my_version va pub) @ btc_frame lib verack_cmd [] @ s" "3 \<le> bc_left c"
  shows "\<exists>c1. connectPeer lib now nonce myPub (Some c) = Ok (c1, take 128 pub) \<and> bc_in c1 = s \<and> bc_left c1 = bc_left c - 3"
proof -
  let ?V = "my_version (conn_args now nonce c) myPub"
  have "?V \<noteq> []" by (simp add: my_version_def btcBuildVersion_def btcWriteVarStr_def Let_def le_bytes_def)
  then have w: "btcWriteMsg lib version_cmd ?V c =
      (True, c\<lparr>bc_out := bc_out c @ btc_frame lib version_cmd ?V, bc_left := bc_left c - 2\<rparr>)"
    using c(2) by (simp add: btcWriteMsg_def conn_Write_def btc_frame_def)
  show ?thesis
    using c run_version [OF hash pub, of _ va "btc_frame lib verack_cmd [] @ s"] run_verack [OF hash, of _ s]
    by (simp add: connectPeer_def clientHandshake_def w send_verack_def write_empty)
qed

lemma demo_boot_connect:
  "\<exists>c1. connect_at demo_lib demo_boot p 0 = Ok (c1, ascii ''03'') \<and> bc_in c1 = btc_frame demo_lib (ascii ''addr'') [0] \<and>
     0 < bc_left c1" "connect_at demo_lib demo_boot p 1 = Err Dial"
proof -
  have "0x2F \<notin> set (ascii ''03'')" "length (ascii ''03'') < 2 ^ 31" "take 128 (ascii ''03'') = ascii ''03''"
    by (simp_all add: ascii_def)
  then show "\<exists>c1. connect_at demo_lib demo_boot p 0 = Ok (c1, ascii ''03'') \<and>
      bc_in c1 = btc_frame demo_lib (ascii ''addr'') [0] \<and> 0 < bc_left c1"
    using connectPeer_answered [of demo_lib "ascii ''03''" demo_peer_conn
        "\<lparr>va_now = 3, va_local = None, va_remote = None, va_nonce = 4\<rparr>" "btc_frame demo_lib (ascii ''addr'') [0]" 1 2 p]
    by (auto simp: connect_at_def demo_boot_def demo_peer_conn_def demo_conn_def demo_lib_def)
  show "connect_at demo_lib demo_boot p 1 = Err Dial"
    by (simp add: connect_at_def demo_boot_def connectPeer_def)
qed

lemma demo_seeds:
  "sum_list (map (length \<circ> sr_Addrs) (filter sr_Success (resolveSeeds (be_lookup demo_boot)))) = 2"
  by (simp add: resolveSeeds_def btcDNSSeds_def resolve_seed_def demo_boot_def is_v4_def Let_def)


end
