(* ===== verification/Bimap.thy ===== *)
theory Bimap
  imports Go_Prelude
begin

text \<open>
  The two-way map of \<^verbatim>\<open>mintox/bimap.go\<close>.  Its locks are taken and released inside each operation; a panic (a
  change to an immutable map) is None.
\<close>

section \<open>Operations\<close>

record ('k, 'v) BiMap =
  bm_immutable :: bool
  bm_forward :: "'k \<rightharpoonup> 'v"
  bm_inverse :: "'v \<rightharpoonup> 'k"

definition NewBiMap :: "('k, 'v) BiMap" where
  "NewBiMap = \<lparr>bm_immutable = False, bm_forward = Map.empty, bm_inverse = Map.empty\<rparr>"

definition Insert :: "'k \<Rightarrow> 'v \<Rightarrow> ('k, 'v) BiMap \<Rightarrow> ('k, 'v) BiMap option" where
  "Insert k v b =
    (if bm_immutable b then None
     else Some (b\<lparr>bm_forward := (bm_forward b)(k \<mapsto> v), bm_inverse := (bm_inverse b)(v \<mapsto> k)\<rparr>))"

definition Exists :: "'k \<Rightarrow> ('k, 'v) BiMap \<Rightarrow> bool" where
  "Exists k b = (bm_forward b k \<noteq> None)"

definition ExistsInverse :: "'v \<Rightarrow> ('k, 'v) BiMap \<Rightarrow> bool" where
  "ExistsInverse v b = (bm_inverse b v \<noteq> None)"

definition bm_Get :: "'k \<Rightarrow> ('k, 'v) BiMap \<Rightarrow> 'v option" where
  "bm_Get k b = (if \<not> Exists k b then None else bm_forward b k)"

definition GetInverse :: "'v \<Rightarrow> ('k, 'v) BiMap \<Rightarrow> 'k option" where
  "GetInverse v b = (if \<not> ExistsInverse v b then None else bm_inverse b v)"

definition bm_Delete :: "'k \<Rightarrow> ('k, 'v) BiMap \<Rightarrow> ('k, 'v) BiMap option" where
  "bm_Delete k b =
    (if bm_immutable b then None
     else if \<not> Exists k b then Some b
     else case bm_Get k b of
         None \<Rightarrow> Some b
       | Some val \<Rightarrow> Some (b\<lparr>bm_forward := (bm_forward b)(k := None), bm_inverse := (bm_inverse b)(val := None)\<rparr>))"

definition DeleteInverse :: "'v \<Rightarrow> ('k, 'v) BiMap \<Rightarrow> ('k, 'v) BiMap option" where
  "DeleteInverse v b =
    (if bm_immutable b then None
     else if \<not> ExistsInverse v b then Some b
     else case GetInverse v b of
         None \<Rightarrow> Some b
       | Some key \<Rightarrow> Some (b\<lparr>bm_inverse := (bm_inverse b)(v := None), bm_forward := (bm_forward b)(key := None)\<rparr>))"

definition bm_Size :: "('k, 'v) BiMap \<Rightarrow> nat" where
  "bm_Size b = card (dom (bm_forward b))"

definition MakeImmutable :: "('k, 'v) BiMap \<Rightarrow> ('k, 'v) BiMap" where
  "MakeImmutable b = b\<lparr>bm_immutable := True\<rparr>"

section \<open>Two-way maps\<close>

text \<open>The contract of the structure: each direction is the inverse of the other.\<close>

definition bm_ok :: "('k, 'v) BiMap \<Rightarrow> bool" where
  "bm_ok b \<longleftrightarrow> (\<forall>k v. bm_forward b k = Some v \<longleftrightarrow> bm_inverse b v = Some k)"

lemma bm_okD: "bm_ok b \<Longrightarrow> bm_forward b k = Some v \<longleftrightarrow> bm_inverse b v = Some k"
  by (simp add: bm_ok_def)

lemma NewBiMap_ok: "bm_ok NewBiMap"
  by (simp add: bm_ok_def NewBiMap_def)

lemma Get_eq: "bm_Get k b = bm_forward b k" "GetInverse v b = bm_inverse b v"
  by (simp_all add: bm_Get_def Exists_def GetInverse_def ExistsInverse_def)

lemma Delete_SomeD:
  assumes "bm_Delete k b = Some b1"
  shows "bm_immutable b1 = bm_immutable b \<and> bm_forward b1 = (bm_forward b)(k := None) \<and>
    bm_inverse b1 = (case bm_forward b k of None \<Rightarrow> bm_inverse b | Some v \<Rightarrow> (bm_inverse b)(v := None))"
  using assms by (auto simp: bm_Delete_def Exists_def Get_eq fun_upd_idem split: if_splits option.splits)

lemma DeleteInverse_SomeD:
  assumes "DeleteInverse v b = Some b1"
  shows "bm_immutable b1 = bm_immutable b \<and> bm_inverse b1 = (bm_inverse b)(v := None) \<and>
    bm_forward b1 = (case bm_inverse b v of None \<Rightarrow> bm_forward b | Some k \<Rightarrow> (bm_forward b)(k := None))"
  using assms by (auto simp: DeleteInverse_def ExistsInverse_def Get_eq fun_upd_idem split: if_splits option.splits)

lemma bm_okI:
  "(\<And>k v. bm_forward b k = Some v \<Longrightarrow> bm_inverse b v = Some k) \<Longrightarrow>
   (\<And>k v. bm_inverse b v = Some k \<Longrightarrow> bm_forward b k = Some v) \<Longrightarrow> bm_ok b"
  unfolding bm_ok_def by blast

lemma Delete_ok:
  assumes "bm_ok b" "bm_Delete k b = Some b1"
  shows "bm_ok b1"
proof (cases "bm_forward b k")
  case None
  then have "bm_forward b1 = bm_forward b" "bm_inverse b1 = bm_inverse b"
    using Delete_SomeD [OF assms(2)] by (auto simp: fun_upd_idem)
  then show ?thesis using assms(1) by (simp add: bm_ok_def)
next
  case (Some v)
  then have b1: "bm_forward b1 = (bm_forward b)(k := None)" "bm_inverse b1 = (bm_inverse b)(v := None)" "bm_inverse b v = Some k"
    using Delete_SomeD [OF assms(2)] bm_okD [OF assms(1), of k v] by auto
  have f: "bm_inverse b w = Some j \<Longrightarrow> bm_forward b j = Some w" "bm_forward b j = Some w \<Longrightarrow> bm_inverse b w = Some j" for j w
    using bm_okD [OF assms(1)] by simp_all
  show ?thesis
  proof (rule bm_okI)
    fix j w
    show "bm_inverse b1 w = Some j" if "bm_forward b1 j = Some w"
      using that f(2) [of j w] b1 by (auto split: if_splits)
    show "bm_forward b1 j = Some w" if "bm_inverse b1 w = Some j"
      using that f(1) [of w j] b1 Some by (auto split: if_splits)
  qed
qed

lemma DeleteInverse_ok:
  assumes "bm_ok b" "DeleteInverse v b = Some b1"
  shows "bm_ok b1"
proof (cases "bm_inverse b v")
  case None
  then have "bm_forward b1 = bm_forward b" "bm_inverse b1 = bm_inverse b"
    using DeleteInverse_SomeD [OF assms(2)] by (auto simp: fun_upd_idem)
  then show ?thesis using assms(1) by (simp add: bm_ok_def)
next
  case (Some k)
  then have "bm_forward b k = Some v" using bm_okD [OF assms(1), of k v] by simp
  then have "bm_Delete k b = DeleteInverse v b"
    using Some by (simp add: bm_Delete_def DeleteInverse_def Exists_def ExistsInverse_def Get_eq)
  then show ?thesis using Delete_ok [OF assms(1)] assms(2) by simp
qed

text \<open>Deleting a pair from either side is the same.\<close>

lemma Delete_either_side:
  assumes "bm_ok b" "bm_forward b k = Some v"
  shows "bm_Delete k b = DeleteInverse v b"
proof -
  have "bm_inverse b v = Some k" using assms by (simp add: bm_okD)
  then show ?thesis
    using assms(2) by (simp add: bm_Delete_def DeleteInverse_def Exists_def ExistsInverse_def Get_eq)
qed

text \<open>An insertion keeps the contract exactly when neither side is paired with something else.\<close>

lemma Insert_ok_iff:
  assumes "bm_ok b" "Insert k v b = Some b1"
  shows "bm_ok b1 \<longleftrightarrow> bm_forward b k \<in> {None, Some v} \<and> bm_inverse b v \<in> {None, Some k}"
proof
  have b1: "bm_forward b1 = (bm_forward b)(k \<mapsto> v)" "bm_inverse b1 = (bm_inverse b)(v \<mapsto> k)"
    using assms(2) by (auto simp: Insert_def split: if_splits)
  note D = bm_okD [OF assms(1)]
  {
    assume ok: "bm_ok b1"
    show "bm_forward b k \<in> {None, Some v} \<and> bm_inverse b v \<in> {None, Some k}"
    proof (rule ccontr)
      assume "\<not> ?thesis"
      then consider w where "bm_forward b k = Some w" "w \<noteq> v" | j where "bm_inverse b v = Some j" "j \<noteq> k" by auto
      then show False
      proof cases
        case 1
        then show False using bm_okD [OF ok, of k w] D by (simp add: b1)
      next
        case 2
        then show False using bm_okD [OF ok, of j v] D by (simp add: b1)
      qed
    qed
  }
  assume "bm_forward b k \<in> {None, Some v} \<and> bm_inverse b v \<in> {None, Some k}"
  then have old: "bm_forward b k = None \<or> bm_forward b k = Some v" "bm_inverse b v = None \<or> bm_inverse b v = Some k" by auto
  show "bm_ok b1"
  proof (rule bm_okI)
    fix j w
    show "bm_inverse b1 w = Some j" if "bm_forward b1 j = Some w"
      using that D [of j w] old b1 by (auto split: if_splits)
    show "bm_forward b1 j = Some w" if "bm_inverse b1 w = Some j"
      using that D [of j w, symmetric] old b1 by (auto split: if_splits)
  qed
qed

section \<open>Properties\<close>

text \<open>C33: Deleting from either side keeps the map two-way.  Inserting a pair keeps it so exactly when neither part is paired with
  something else: otherwise the old partner stays in the other direction, and the two directions contradict each
  other (a relay that gives a connection number to a second key leaves the first key with that number).\<close>

theorem bimap_contract:
  assumes "bm_ok b" "\<not> bm_immutable b"
  shows "(\<exists>b1. bm_Delete k b = Some b1 \<and> bm_ok b1) \<and> (\<exists>b1. DeleteInverse v b = Some b1 \<and> bm_ok b1) \<and>
    (\<exists>b1. Insert k v b = Some b1 \<and> bm_Get k b1 = Some v \<and> GetInverse v b1 = Some k \<and>
      (bm_ok b1 \<longleftrightarrow> bm_Get k b \<in> {None, Some v} \<and> GetInverse v b \<in> {None, Some k}))"
proof (intro conjI)
  show "\<exists>b1. bm_Delete k b = Some b1 \<and> bm_ok b1"
    using assms Delete_ok [OF assms(1), of k] by (auto simp: bm_Delete_def split: option.split)
  show "\<exists>b1. DeleteInverse v b = Some b1 \<and> bm_ok b1"
    using assms DeleteInverse_ok [OF assms(1), of v] by (auto simp: DeleteInverse_def split: option.split)
  obtain b1 where b1: "Insert k v b = Some b1" "bm_Get k b1 = Some v" "GetInverse v b1 = Some k"
    using assms(2) by (auto simp: Insert_def Get_eq)
  then show "\<exists>b1. Insert k v b = Some b1 \<and> bm_Get k b1 = Some v \<and> GetInverse v b1 = Some k \<and>
      (bm_ok b1 \<longleftrightarrow> bm_Get k b \<in> {None, Some v} \<and> GetInverse v b \<in> {None, Some k})"
    using Insert_ok_iff [OF assms(1) b1(1)] by (simp add: Get_eq)
qed

theorem bimap_contract_witness:
  "\<exists>b1. Insert (17 :: nat) ''b'' (NewBiMap\<lparr>bm_forward := [17 \<mapsto> ''a''], bm_inverse := [''a'' \<mapsto> 17]\<rparr>) = Some b1 \<and> \<not> bm_ok b1"
proof -
  let ?b = "NewBiMap\<lparr>bm_forward := [17 :: nat \<mapsto> ''a''], bm_inverse := [''a'' \<mapsto> 17]\<rparr>"
  have "bm_ok ?b" "\<not> bm_immutable ?b" by (auto simp: bm_ok_def NewBiMap_def split: if_splits)
  from bimap_contract [OF this, of 17 "''b''"] show ?thesis by (auto simp: Get_eq)
qed

end
