(* ===== verification/Blocked_Queue.thy ===== *)
theory Blocked_Queue
  imports Go_Prelude "HOL-Library.Multiset"
begin

text \<open>
  The bounded priority queue of \<^verbatim>\<open>mintox/blocked_priority_queue.go\<close>.  The queue inside it is a library: \<^verbatim>\<open>Put\<close> adds an
  item, \<^verbatim>\<open>Get\<close> waits for an item and takes one that no other precedes (which of several is its choice, the argument
  \<^verbatim>\<open>i\<close>); both fail once it is disposed.  \<^verbatim>\<open>BlockPut\<close> and \<^verbatim>\<open>Get\<close> run in go-routines of their own and are steps
  between two accesses to shared state: the length, the queue, the unbuffered channel \<^verbatim>\<open>subC\<close>.
\<close>

section \<open>The queue of the library\<close>

definition least_at :: "('a \<Rightarrow> nat) \<Rightarrow> nat \<Rightarrow> 'a list \<Rightarrow> bool" where
  "least_at prior i q = (i < length q \<and> list_all (\<lambda>x. prior (q ! i) \<le> prior x) q)"

definition pq_Get :: "('a \<Rightarrow> nat) \<Rightarrow> nat \<Rightarrow> 'a list \<Rightarrow> ('a \<times> 'a list) option" where
  "pq_Get prior i q = (if least_at prior i q then Some (q ! i, take i q @ drop (Suc i) q) else None)"

lemma pq_Get_Some:
  assumes "pq_Get prior i q = Some (x, q1)"
  shows "mset q = add_mset x (mset q1)" "x \<in> set q" "\<forall>y \<in> set q. prior x \<le> prior y"
proof -
  have i: "i < length q" "x = q ! i" "q1 = take i q @ drop (Suc i) q" "\<forall>y \<in> set q. prior (q ! i) \<le> prior y"
    using assms by (auto simp: pq_Get_def least_at_def list_all_iff split: if_splits)
  have "q = take i q @ q ! i # drop (Suc i) q" using id_take_nth_drop [OF i(1)] .
  then have "mset q = mset (take i q @ q ! i # drop (Suc i) q)" by simp
  then show "mset q = add_mset x (mset q1)" using i(2,3) by simp
  show "x \<in> set q" using i(1,2) by simp
  show "\<forall>y \<in> set q. prior x \<le> prior y" using i(2,4) by simp
qed

lemma pq_Get_any:
  assumes "q \<noteq> []"
  shows "\<exists>i x q1. pq_Get prior i q = Some (x, q1)"
proof -
  have "\<exists>x \<in> set q. \<forall>y \<in> set q. prior x \<le> prior y"
    using assms finite_set [of q] arg_min_if_finite [of "set q" prior] by (metis linorder_not_less set_empty)
  then obtain i where "i < length q" "\<forall>y \<in> set q. prior (q ! i) \<le> prior y" by (auto simp: in_set_conv_nth)
  then have "least_at prior i q" by (simp add: least_at_def list_all_iff)
  then show ?thesis by (auto simp: pq_Get_def)
qed

section \<open>Callers\<close>

text \<open>A caller of \<^verbatim>\<open>BlockPut\<close>: not in a call, before the first look at the length, after it when the queue was
  full, waiting on \<^verbatim>\<open>subC\<close>, before the second look, before \<^verbatim>\<open>Put\<close>.  The caller of \<^verbatim>\<open>Get\<close>: waiting for an item, or about to offer the signal.\<close>

datatype 'a put_state = Idle | Check 'a | Full 'a | Waiting 'a | Recheck 'a | Putting 'a

datatype get_state = Getting | Signalling

record 'a BlockedPriorityQueue =
  bq_pq :: "'a list"
  bq_disposed :: bool
  bq_puts :: "'a put_state list"
  bq_get :: get_state
  bq_got :: "'a list"

definition NewBlockedPriorityQueue :: "nat \<Rightarrow> 'a BlockedPriorityQueue" where
  "NewBlockedPriorityQueue n = \<lparr>bq_pq = [], bq_disposed = False, bq_puts = replicate n Idle, bq_get = Getting, bq_got = []\<rparr>"

definition is_waiting :: "'a put_state \<Rightarrow> bool" where
  "is_waiting p = (case p of Waiting _ \<Rightarrow> True | _ \<Rightarrow> False)"

definition bq_Put :: "'a \<Rightarrow> 'a BlockedPriorityQueue \<Rightarrow> bool \<times> 'a BlockedPriorityQueue" where
  "bq_Put x b = (if bq_disposed b then (False, b) else (True, b\<lparr>bq_pq := bq_pq b @ [x]\<rparr>))"

text \<open>\<^verbatim>\<open>Dispose\<close> offers the signal once; \<^verbatim>\<open>i\<close> is the caller that gets it, when one waits.\<close>

definition bq_Dispose :: "nat \<Rightarrow> 'a BlockedPriorityQueue \<Rightarrow> 'a BlockedPriorityQueue" where
  "bq_Dispose i b =
    (let b1 = b\<lparr>bq_disposed := True\<rparr> in
     if i < length (bq_puts b)
     then (case bq_puts b ! i of Waiting x \<Rightarrow> b1\<lparr>bq_puts := (bq_puts b)[i := Recheck x]\<rparr> | _ \<Rightarrow> b1)
     else b1)"

inductive BlockPut_step :: "nat \<Rightarrow> 'a BlockedPriorityQueue \<Rightarrow> 'a BlockedPriorityQueue \<Rightarrow> bool" for hint where
  full: "i < length (bq_puts b) \<Longrightarrow> bq_puts b ! i = Check x \<Longrightarrow> hint \<le> length (bq_pq b) \<Longrightarrow>
    BlockPut_step hint b (b\<lparr>bq_puts := (bq_puts b)[i := Full x]\<rparr>)"
| wait: "i < length (bq_puts b) \<Longrightarrow> bq_puts b ! i = Full x \<Longrightarrow>
    BlockPut_step hint b (b\<lparr>bq_puts := (bq_puts b)[i := Waiting x]\<rparr>)"
| room: "i < length (bq_puts b) \<Longrightarrow> bq_puts b ! i = Check x \<Longrightarrow> length (bq_pq b) < hint \<Longrightarrow>
    BlockPut_step hint b (b\<lparr>bq_puts := (bq_puts b)[i := Recheck x]\<rparr>)"
| taken: "i < length (bq_puts b) \<Longrightarrow> bq_puts b ! i = Recheck x \<Longrightarrow> hint \<le> length (bq_pq b) \<Longrightarrow>
    BlockPut_step hint b (b\<lparr>bq_puts := (bq_puts b)[i := Check x]\<rparr>)"
| free: "i < length (bq_puts b) \<Longrightarrow> bq_puts b ! i = Recheck x \<Longrightarrow> length (bq_pq b) < hint \<Longrightarrow>
    BlockPut_step hint b (b\<lparr>bq_puts := (bq_puts b)[i := Putting x]\<rparr>)"
| done_put: "i < length (bq_puts b) \<Longrightarrow> bq_puts b ! i = Putting x \<Longrightarrow>
    BlockPut_step hint b (snd (bq_Put x (b\<lparr>bq_puts := (bq_puts b)[i := Idle]\<rparr>)))"

text \<open>\<^verbatim>\<open>Get\<close> offers the signal without waiting: it is lost unless a caller already waits for it.\<close>

inductive Get_step :: "('a \<Rightarrow> nat) \<Rightarrow> 'a BlockedPriorityQueue \<Rightarrow> 'a BlockedPriorityQueue \<Rightarrow> bool" for prior where
  get: "bq_get b = Getting \<Longrightarrow> \<not> bq_disposed b \<Longrightarrow> pq_Get prior i (bq_pq b) = Some (x, q) \<Longrightarrow>
    Get_step prior b (b\<lparr>bq_pq := q, bq_got := bq_got b @ [x], bq_get := Signalling\<rparr>)"
| signal: "bq_get b = Signalling \<Longrightarrow> i < length (bq_puts b) \<Longrightarrow> bq_puts b ! i = Waiting x \<Longrightarrow>
    Get_step prior b (b\<lparr>bq_puts := (bq_puts b)[i := Recheck x], bq_get := Getting\<rparr>)"
| no_signal: "bq_get b = Signalling \<Longrightarrow> \<not> list_ex is_waiting (bq_puts b) \<Longrightarrow>
    Get_step prior b (b\<lparr>bq_get := Getting\<rparr>)"

inductive bq_step :: "nat \<Rightarrow> ('a \<Rightarrow> nat) \<Rightarrow> 'a BlockedPriorityQueue \<Rightarrow> 'a BlockedPriorityQueue \<Rightarrow> bool" for hint prior where
  put: "BlockPut_step hint b b1 \<Longrightarrow> bq_step hint prior b b1"
| get: "Get_step prior b b1 \<Longrightarrow> bq_step hint prior b b1"
| call: "i < length (bq_puts b) \<Longrightarrow> bq_puts b ! i = Idle \<Longrightarrow> bq_step hint prior b (b\<lparr>bq_puts := (bq_puts b)[i := Check x]\<rparr>)"

section \<open>The bound\<close>

definition putting :: "'a BlockedPriorityQueue \<Rightarrow> nat" where
  "putting b = length (filter (\<lambda>p. case p of Putting _ \<Rightarrow> True | _ \<Rightarrow> False) (bq_puts b))"

definition within :: "nat \<Rightarrow> nat \<Rightarrow> 'a BlockedPriorityQueue \<Rightarrow> bool" where
  "within hint n b \<longleftrightarrow> length (bq_puts b) = n \<and> length (bq_pq b) + putting b \<le> hint - 1 + n"

text \<open>What a change of one caller does to a count of callers.\<close>

lemma count_update:
  "i < length ps \<Longrightarrow> length (filter P (ps[i := p])) + (if P (ps ! i) then 1 else 0) = length (filter P ps) + (if P p then 1 else 0)"
proof (induction ps arbitrary: i)
  case (Cons a ps)
  then show ?case by (cases i) auto
qed simp

lemma count_others: "i < length ps \<Longrightarrow> \<not> P (ps ! i) \<Longrightarrow> length (filter P ps) < length ps"
  by (rule length_filter_less [of "ps ! i"]) simp_all


lemma BlockPut_within:
  assumes "BlockPut_step hint b b1" "within hint n b" "0 < hint"
  shows "within hint n b1"
  using assms
proof (induction rule: BlockPut_step.induct)
  case (free i b x)
  have "putting b < n"
    using count_others [OF free(1), of "\<lambda>p. case p of Putting _ \<Rightarrow> True | _ \<Rightarrow> False"] free(2,4)
    by (simp add: within_def putting_def)
  then show ?case
    using free count_update [OF free(1), of "\<lambda>p. case p of Putting _ \<Rightarrow> True | _ \<Rightarrow> False" "Putting x"]
    by (simp add: within_def putting_def)
next
  case (done_put i b x)
  then show ?case
    using count_update [OF done_put(1), of "\<lambda>p. case p of Putting _ \<Rightarrow> True | _ \<Rightarrow> False" Idle]
    by (auto simp: within_def putting_def bq_Put_def)
qed (use count_update [of _ _ "\<lambda>p. case p of Putting _ \<Rightarrow> True | _ \<Rightarrow> False"] in \<open>fastforce simp: within_def putting_def\<close>)+

lemma Get_within:
  assumes "Get_step prior b b1" "within hint n b"
  shows "within hint n b1"
  using assms
proof (induction rule: Get_step.induct)
  case (get b i x q)
  have "length (bq_pq b) = Suc (length q)"
    using arg_cong [OF pq_Get_Some(1) [OF get(3)], of size] by simp
  then show ?case using get by (simp add: within_def putting_def)
next
  case (signal b i x)
  then show ?case
    using count_update [OF signal(2), of "\<lambda>p. case p of Putting _ \<Rightarrow> True | _ \<Rightarrow> False" "Recheck x"]
    by (simp add: within_def putting_def)
qed (simp add: within_def putting_def)

lemma bq_step_within:
  assumes "bq_step hint prior b b1" "within hint n b" "0 < hint"
  shows "within hint n b1"
  using assms
proof (induction rule: bq_step.induct)
  case (call i b x)
  then show ?case
    using count_update [OF call(1), of "\<lambda>p. case p of Putting _ \<Rightarrow> True | _ \<Rightarrow> False" "Check x"]
    by (simp add: within_def putting_def)
qed (auto intro: BlockPut_within Get_within)

lemma bq_steps_within:
  assumes "(bq_step hint prior)\<^sup>*\<^sup>* b b1" "within hint n b" "0 < hint"
  shows "within hint n b1"
  using assms by (induction rule: rtranclp_induct) (auto intro: bq_step_within)

section \<open>The lost signal\<close>

text \<open>A call that finds room.\<close>

lemma call_puts:
  assumes "bq_puts b = [Idle]" "length (bq_pq b) < hint" "\<not> bq_disposed b"
  shows "(bq_step hint prior)\<^sup>*\<^sup>* b (b\<lparr>bq_pq := bq_pq b @ [x]\<rparr>)"
proof -
  let ?b = "\<lambda>p. b\<lparr>bq_puts := [p]\<rparr>"
  have b: "b = ?b Idle" using assms(1) by simp
  have "bq_step hint prior (?b Idle) (?b (Check x))"
    using bq_step.call [of 0 "?b Idle" hint prior x] by simp
  moreover have "bq_step hint prior (?b (Check x)) (?b (Recheck x))"
    using BlockPut_step.room [of 0 "?b (Check x)" x hint] assms(2) by (intro bq_step.put) simp
  moreover have "bq_step hint prior (?b (Recheck x)) (?b (Putting x))"
    using BlockPut_step.free [of 0 "?b (Recheck x)" x hint] assms(2) by (intro bq_step.put) simp
  moreover have "bq_step hint prior (?b (Putting x)) (b\<lparr>bq_pq := bq_pq b @ [x]\<rparr>)"
  proof (rule bq_step.put)
    have "b\<lparr>bq_puts := [Idle], bq_pq := bq_pq b @ [x]\<rparr> = b\<lparr>bq_pq := bq_pq b @ [x]\<rparr>" using assms(1) by (cases b) simp
    then show "BlockPut_step hint (?b (Putting x)) (b\<lparr>bq_pq := bq_pq b @ [x]\<rparr>)"
      using BlockPut_step.done_put [of 0 "?b (Putting x)" x hint] assms(3) by (simp add: bq_Put_def)
  qed
  ultimately have "(bq_step hint prior)\<^sup>*\<^sup>* (?b Idle) (b\<lparr>bq_pq := bq_pq b @ [x]\<rparr>)"
    by (meson converse_rtranclp_into_rtranclp r_into_rtranclp)
  then show ?thesis using b by simp
qed

lemma calls_fill:
  assumes "bq_puts b = [Idle]" "length (bq_pq b) + k \<le> hint" "\<not> bq_disposed b"
  shows "(bq_step hint prior)\<^sup>*\<^sup>* b (b\<lparr>bq_pq := bq_pq b @ replicate k x\<rparr>)"
  using assms
proof (induction k arbitrary: b)
  case (Suc k)
  let ?b = "b\<lparr>bq_pq := bq_pq b @ [x]\<rparr>"
  have "(bq_step hint prior)\<^sup>*\<^sup>* b ?b" using call_puts [of b hint prior x] Suc.prems by simp
  also have "(bq_step hint prior)\<^sup>*\<^sup>* ?b (?b\<lparr>bq_pq := bq_pq ?b @ replicate k x\<rparr>)"
    using Suc.IH [of ?b] Suc.prems by simp
  finally show ?case by simp
qed simp

text \<open>While the caller is about to wait, the queue can be emptied without a signal.\<close>

lemma gets_drain:
  assumes "bq_puts b = [Full x]" "bq_get b = Getting" "\<not> bq_disposed b"
  shows "\<exists>got. (bq_step hint prior)\<^sup>*\<^sup>* b (b\<lparr>bq_pq := [], bq_got := got\<rparr>)"
  using assms
proof (induction "length (bq_pq b)" arbitrary: b)
  case 0
  then have "b = b\<lparr>bq_pq := [], bq_got := bq_got b\<rparr>" by simp
  then show ?case by (metis rtranclp.rtrancl_refl)
next
  case (Suc k)
  then obtain i y q where g: "pq_Get prior i (bq_pq b) = Some (y, q)" using pq_Get_any [of "bq_pq b" prior] by fastforce
  let ?b1 = "b\<lparr>bq_pq := q, bq_got := bq_got b @ [y], bq_get := Signalling\<rparr>"
  let ?b2 = "b\<lparr>bq_pq := q, bq_got := bq_got b @ [y]\<rparr>"
  have len: "k = length q" using arg_cong [OF pq_Get_Some(1) [OF g], of size] Suc.hyps(2) by simp
  have "bq_step hint prior b ?b1" using Get_step.get [OF Suc.prems(2,3) g] by (rule bq_step.get)
  moreover have "bq_step hint prior ?b1 ?b2"
  proof (rule bq_step.get)
    have "b\<lparr>bq_pq := q, bq_got := bq_got b @ [y], bq_get := Getting\<rparr> = ?b2" using Suc.prems(2) by (cases b) simp
    then show "Get_step prior ?b1 ?b2"
      using Get_step.no_signal [of ?b1 prior] Suc.prems(1) by (simp add: is_waiting_def)
  qed
  moreover obtain got where "(bq_step hint prior)\<^sup>*\<^sup>* ?b2 (?b2\<lparr>bq_pq := [], bq_got := got\<rparr>)"
    using Suc.hyps(1) [of ?b2] len Suc.prems by auto
  ultimately have "(bq_step hint prior)\<^sup>*\<^sup>* b (b\<lparr>bq_pq := [], bq_got := got\<rparr>)"
    by (auto intro: converse_rtranclp_into_rtranclp)
  then show ?case by blast
qed

inductive_cases bq_stepE: "bq_step hint prior b b1"
inductive_cases BlockPut_stepE: "BlockPut_step hint b b1"
inductive_cases Get_stepE: "Get_step prior b b1"

lemma waiting_stuck:
  assumes "bq_puts b = [Waiting x]" "bq_get b = Getting" "bq_pq b = []"
  shows "\<not> bq_step hint prior b b1"
proof
  assume "bq_step hint prior b b1"
  then show False
    using assms by (auto elim!: bq_stepE BlockPut_stepE Get_stepE simp: pq_Get_def least_at_def)
qed

section \<open>Properties\<close>



text \<open>C40: A signal can be lost and \<^verbatim>\<open>BlockPut\<close> can wait for ever at an empty queue: between the look at the length of the full
  queue and the wait for the signal the reader can take every item; each \<^verbatim>\<open>Get\<close> then finds nobody to signal, and
  afterwards neither of the two can take another step.\<close>

theorem blocked_put_waits_forever:
  assumes "0 < hint"
  shows "\<exists>b. (bq_step hint prior)\<^sup>*\<^sup>* (NewBlockedPriorityQueue 1) b \<and> bq_pq b = [] \<and> bq_puts b = [Waiting x] \<and>
    \<not> (\<exists>b1. bq_step hint prior b b1)"
proof -
  let ?b0 = "NewBlockedPriorityQueue 1"
  let ?b1 = "?b0\<lparr>bq_pq := replicate hint x\<rparr>"
  have 1: "(bq_step hint prior)\<^sup>*\<^sup>* ?b0 ?b1"
    using calls_fill [of ?b0 hint hint prior x] by (simp add: NewBlockedPriorityQueue_def)
  have 2: "bq_step hint prior ?b1 (?b1\<lparr>bq_puts := [Check x]\<rparr>)"
    using bq_step.call [of 0 ?b1 hint prior x] by (simp add: NewBlockedPriorityQueue_def)
  have 3: "bq_step hint prior (?b1\<lparr>bq_puts := [Check x]\<rparr>) (?b1\<lparr>bq_puts := [Full x]\<rparr>)"
    using BlockPut_step.full [of 0 "?b1\<lparr>bq_puts := [Check x]\<rparr>" x hint] by (intro bq_step.put) simp
  obtain got where 4: "(bq_step hint prior)\<^sup>*\<^sup>* (?b1\<lparr>bq_puts := [Full x]\<rparr>) (?b1\<lparr>bq_puts := [Full x], bq_pq := [], bq_got := got\<rparr>)"
    using gets_drain [of "?b1\<lparr>bq_puts := [Full x]\<rparr>" x hint prior] by (auto simp: NewBlockedPriorityQueue_def)
  let ?b2 = "?b1\<lparr>bq_puts := [Full x], bq_pq := [], bq_got := got\<rparr>"
  let ?b3 = "?b2\<lparr>bq_puts := [Waiting x]\<rparr>"
  have 5: "bq_step hint prior ?b2 ?b3"
    using BlockPut_step.wait [of 0 ?b2 x hint] by (intro bq_step.put) simp
  have "(bq_step hint prior)\<^sup>*\<^sup>* ?b0 ?b3"
    using 1 2 3 4 5 by (meson rtranclp.rtrancl_into_rtrancl rtranclp_trans)
  moreover have "\<not> bq_step hint prior ?b3 b" for b
    by (rule waiting_stuck [of _ x]) (simp_all add: NewBlockedPriorityQueue_def)
  ultimately show ?thesis by (intro exI [of _ ?b3]) simp
qed

theorem blocked_put_waits_forever_witness:
  "\<exists>b. (bq_step 32 id)\<^sup>*\<^sup>* (NewBlockedPriorityQueue 1) b \<and> bq_puts b = [Waiting (2 :: nat)] \<and> \<not> (\<exists>b1. bq_step 32 id b b1)"
  using blocked_put_waits_forever [of 32 id "2 :: nat"] by auto

end
