(* ===== verification/Mintox_Client.thy ===== *)
theory Mintox_Client
  imports Tcp_Session Dht Bimap Blocked_Queue
begin

text \<open>
  The TCP relay client of \<^verbatim>\<open>mintox/tcp_client.go\<close>.  The connection is what has been written to it and whether it is
  open; the callbacks are whether they are set and the calls made so far; each go-routine is one turn of its loop.
  Random values, the results of the network and the choice of the priority queue are arguments.  A failed assertion,
  a slice out of range, a nil dereference and \<^verbatim>\<open>log.Fatalln\<close> all end the program and are \<^verbatim>\<open>Panic\<close>.  The buffers with room
  in front of \<^verbatim>\<open>rudp2\<close> are a library: a buffer stands for its \<^verbatim>\<open>FullData\<close>.
\<close>

section \<open>State\<close>

datatype client_status =
    TCP_CLIENT_NO_STATUS | TCP_CLIENT_PROXY_HTTP_CONNECTING | TCP_CLIENT_PROXY_SOCKS5_CONNECTING
  | TCP_CLIENT_PROXY_SOCKS5_UNCONFIRMED | TCP_CLIENT_CONNECTING | TCP_CLIENT_UNCONFIRMED
  | TCP_CLIENT_CONFIRMED | TCP_CLIENT_DISCONNECTED

record rudp =
  rd_Copy :: "bytes \<Rightarrow> bytes"
  rd_PPU8 :: "byte \<Rightarrow> bytes \<Rightarrow> bytes"

definition rudp_ok :: "rudp \<Rightarrow> bool" where
  "rudp_ok r \<longleftrightarrow> (\<forall>d. length d \<le> 2048 \<longrightarrow> rd_Copy r d = d) \<and> (\<forall>b d. length d \<le> 2048 \<longrightarrow> rd_PPU8 r b d = b # d)"

record client_lib =
  cl_nacl :: nacl
  cl_gopp :: gopp
  cl_rudp :: rudp

record sendItem =
  si_Value :: bytes
  si_Prior :: nat

definition sendItem_Compare :: "sendItem \<Rightarrow> sendItem \<Rightarrow> int" where
  "sendItem_Compare a b =
    (if si_Prior a = si_Prior b then 0 else if si_Prior b < si_Prior a then 1 else -1)"

datatype client_event =
    RoutingResponse byte bytes
  | RoutingStatus byte nat
  | RoutingData byte bytes
  | ReservedData byte bytes
  | NetRecv nat
  | NetSent nat
  | Confirmed
  | Closed

datatype conn_state = Nil_conn | Open_conn | Closed_conn

text \<open>\<^verbatim>\<open>mc_handlers\<close> says for each kind of event whether its callback is set.  \<^verbatim>\<open>mc_pinging\<close> is whether the go-routine of
  \<^verbatim>\<open>doPing\<close> runs, \<^verbatim>\<open>mc_reading\<close> and \<^verbatim>\<open>mc_writing\<close> whether the two loops do, \<^verbatim>\<open>mc_done\<close> whether \<^verbatim>\<open>runmainproc\<close> has ended.\<close>

record TCPClient =
  mc_status :: client_status
  mc_SelfPubkey :: bytes
  mc_SelfSeckey :: bytes
  mc_ServPubkey :: bytes
  mc_Shrkey :: bytes
  mc_TempSeckey :: "bytes option"
  mc_SentNonce :: bytes
  mc_RecvNonce :: bytes
  mc_TempNonce :: bytes
  mc_PingRequestId :: u64
  mc_conn :: conn_state
  mc_wrote :: bytes
  mc_crbuf :: bytes
  mc_sendq :: "sendItem list"
  mc_disposed :: bool
  mc_conns :: "(byte, bytes) BiMap"
  mc_handlers :: "client_event \<Rightarrow> bool"
  mc_calls :: "client_event list"
  mc_pinging :: bool
  mc_reading :: bool
  mc_writing :: bool
  mc_done :: bool

definition callback :: "client_event \<Rightarrow> TCPClient \<Rightarrow> TCPClient" where
  "callback e c = (if mc_handlers c e then c\<lparr>mc_calls := mc_calls c @ [e]\<rparr> else c)"

section \<open>Keys\<close>

text \<open>\<^verbatim>\<open>hex.DecodeString\<close> returns, with an error, what it has decoded; the error is only printed.\<close>

fun hex_prefix :: "string \<Rightarrow> bytes" where
  "hex_prefix (c # d # s) = (case (hex_value c, hex_value d) of
      (Some x, Some y) \<Rightarrow> of_nat (16 * x + y) # hex_prefix s
    | _ \<Rightarrow> [])"
| "hex_prefix s = []"

definition NewCryptoKeyFromHex :: "string \<Rightarrow> (mintox_error, bytes) res" where
  "NewCryptoKeyFromHex key = (let keybin = hex_prefix key in if length keybin = 32 then Ok keybin else Panic)"

definition ToHex :: "bytes \<Rightarrow> string" where
  "ToHex b = map (\<lambda>c. let n = of_char c :: nat in if 97 \<le> n \<and> n \<le> 122 then char_of (n - 32) else c) (hex_encode b)"

definition SetKeyPair :: "nacl \<Rightarrow> bytes \<Rightarrow> bytes \<Rightarrow> TCPClient \<Rightarrow> (mintox_error, TCPClient) res" where
  "SetKeyPair nb pubkey seckey c = (case (NewCryptoKeyFromHex (ToHex pubkey), NewCryptoKeyFromHex (ToHex seckey)) of
      (Ok pk, Ok sk) \<Rightarrow> Ok (c\<lparr>mc_SelfPubkey := pk, mc_SelfSeckey := sk, mc_Shrkey := CBBeforeNm nb (mc_ServPubkey c) sk\<rparr>)
    | _ \<Rightarrow> Panic)"

definition SetKeyPairRaw :: "nacl \<Rightarrow> string \<Rightarrow> string \<Rightarrow> TCPClient \<Rightarrow> (mintox_error, TCPClient) res" where
  "SetKeyPairRaw nb pubkey seckey c = (case (NewCryptoKeyFromHex pubkey, NewCryptoKeyFromHex seckey) of
      (Ok pk, Ok sk) \<Rightarrow> Ok (c\<lparr>mc_SelfPubkey := pk, mc_SelfSeckey := sk, mc_Shrkey := CBBeforeNm nb (mc_ServPubkey c) sk\<rparr>)
    | _ \<Rightarrow> Panic)"

text \<open>The pair that \<^verbatim>\<open>NewTCPClient\<close> generates is replaced at once.\<close>

definition NewTCPClient :: "nacl \<Rightarrow> (client_event \<Rightarrow> bool) \<Rightarrow> bytes \<Rightarrow> bytes \<Rightarrow> bytes \<Rightarrow> (mintox_error, TCPClient) res" where
  "NewTCPClient nb handlers serv_pubkey self_pubkey self_seckey =
    (case SetKeyPair nb self_pubkey self_seckey
       \<lparr>mc_status = TCP_CLIENT_NO_STATUS, mc_SelfPubkey = [], mc_SelfSeckey = [], mc_ServPubkey = serv_pubkey,
        mc_Shrkey = [], mc_TempSeckey = None, mc_SentNonce = [], mc_RecvNonce = [], mc_TempNonce = [],
        mc_PingRequestId = 0, mc_conn = Nil_conn, mc_wrote = [], mc_crbuf = [], mc_sendq = [], mc_disposed = False,
        mc_conns = NewBiMap, mc_handlers = handlers, mc_calls = [], mc_pinging = False, mc_reading = False,
        mc_writing = False, mc_done = False\<rparr> of
       Ok c \<Rightarrow> Ok (c\<lparr>mc_Shrkey := CBBeforeNm nb (mc_ServPubkey c) (mc_SelfSeckey c)\<rparr>)
     | Err e \<Rightarrow> Err e
     | Panic \<Rightarrow> Panic)"

definition NewTCPClientRaw :: "nacl \<Rightarrow> (client_event \<Rightarrow> bool) \<Rightarrow> string \<Rightarrow> string \<Rightarrow> string \<Rightarrow> (mintox_error, TCPClient) res" where
  "NewTCPClientRaw nb handlers serv_pubkey self_pubkey self_seckey =
    (case (NewCryptoKeyFromHex serv_pubkey, NewCryptoKeyFromHex self_pubkey, NewCryptoKeyFromHex self_seckey) of
       (Ok spk, Ok pk, Ok sk) \<Rightarrow> NewTCPClient nb handlers spk pk sk
     | _ \<Rightarrow> Panic)"

section \<open>Packets\<close>

definition CreatePacket :: "nacl \<Rightarrow> bytes \<Rightarrow> TCPClient \<Rightarrow> (mintox_error, bytes) res" where
  "CreatePacket nb plain c = (case EncryptDataSymmetric nb (mc_Shrkey c) (mc_SentNonce c) plain of
      Ok encdat \<Rightarrow> Ok (put_u16 (of_nat (length encdat)) @ encdat)
    | Err e \<Rightarrow> Err e
    | Panic \<Rightarrow> Panic)"

definition Unpacket :: "nacl \<Rightarrow> bytes \<Rightarrow> TCPClient \<Rightarrow> (mintox_error, bytes) res \<times> TCPClient" where
  "Unpacket nb encpkt c =
    (DecryptDataSymmetric nb (mc_Shrkey c) (mc_RecvNonce c) (drop 2 encpkt),
     c\<lparr>mc_RecvNonce := Incr2 (mc_RecvNonce c)\<rparr>)"

text \<open>\<^verbatim>\<open>ok\<close> is whether the socket takes the write; a closed socket does not.\<close>

definition conn_Write :: "bool \<Rightarrow> bytes \<Rightarrow> TCPClient \<Rightarrow> bool \<times> TCPClient" where
  "conn_Write ok data c =
    (if ok \<and> mc_conn c = Open_conn then (True, c\<lparr>mc_wrote := mc_wrote c @ data\<rparr>) else (False, c))"

definition WritePacket :: "nacl \<Rightarrow> bool \<Rightarrow> bytes \<Rightarrow> TCPClient \<Rightarrow> (mintox_error, nat option) res \<times> TCPClient" where
  "WritePacket nb ok data c = (case CreatePacket nb data c of
      Ok encpkt \<Rightarrow>
        (case conn_Write ok encpkt c of
           (True, c1) \<Rightarrow> (Ok (Some (length encpkt)), c1\<lparr>mc_SentNonce := Incr2 (mc_SentNonce c1)\<rparr>)
         | (False, c1) \<Rightarrow> (Ok None, c1))
    | Err e \<Rightarrow> (Err e, c)
    | Panic \<Rightarrow> (Panic, c))"

text \<open>Sending puts a packet into the queue.  A packet of priority 0 always goes in; the others wait for room, and a call
  that waits is no result (None).  The flag is whether the call succeeds.\<close>

definition implSendPacket :: "nat \<Rightarrow> bytes \<Rightarrow> TCPClient \<Rightarrow> (bool \<times> TCPClient) option" where
  "implSendPacket prior datbuf c =
    (if 2 < prior then Some (False, c)
     else if prior \<noteq> 0 \<and> 32 \<le> length (mc_sendq c) then None
     else if mc_disposed c then Some (False, c)
     else Some (True, c\<lparr>mc_sendq := mc_sendq c @ [\<lparr>si_Value = datbuf, si_Prior = prior\<rparr>]\<rparr>))"

definition SendCtrlPacket :: "rudp \<Rightarrow> bytes \<Rightarrow> TCPClient \<Rightarrow> bool \<times> TCPClient" where
  "SendCtrlPacket ru data c =
    (if 2048 < length data then (False, c)
     else if mc_status c \<noteq> TCP_CLIENT_CONFIRMED then (False, c)
     else case implSendPacket 0 (rd_Copy ru data) c of Some r \<Rightarrow> r | None \<Rightarrow> (False, c))"

definition SendDataPacket :: "rudp \<Rightarrow> byte \<Rightarrow> bytes \<Rightarrow> bool \<Rightarrow> TCPClient \<Rightarrow> (bool \<times> TCPClient) option" where
  "SendDataPacket ru connid data prior c =
    (if 2048 < length data then Some (False, c)
     else if mc_status c \<noteq> TCP_CLIENT_CONFIRMED then Some (False, c)
     else implSendPacket (if prior then 1 else 2) (rd_PPU8 ru connid (rd_Copy ru data)) c)"

definition SendRoutingRequest :: "rudp \<Rightarrow> bytes \<Rightarrow> TCPClient \<Rightarrow> bool \<times> TCPClient" where
  "SendRoutingRequest ru pubkey c = SendCtrlPacket ru (0 # pubkey) c"

definition ConnectPeer :: "rudp \<Rightarrow> string \<Rightarrow> TCPClient \<Rightarrow> (mintox_error, bool \<times> TCPClient) res" where
  "ConnectPeer ru pubkey c =
    (if mc_conn c = Nil_conn then Ok (False, c)
     else if mc_status c \<noteq> TCP_CLIENT_CONFIRMED then Ok (False, c)
     else case NewCryptoKeyFromHex pubkey of
         Ok pk \<Rightarrow> Ok (SendRoutingRequest ru pk c)
       | Err e \<Rightarrow> Err e
       | Panic \<Rightarrow> Panic)"

definition SendOOBPacket :: "rudp \<Rightarrow> bytes \<Rightarrow> bytes \<Rightarrow> TCPClient \<Rightarrow> bool \<times> TCPClient" where
  "SendOOBPacket ru pubkey data c = SendCtrlPacket ru (6 # pubkey @ data) c"

definition SendConnectNotification :: "rudp \<Rightarrow> byte \<Rightarrow> TCPClient \<Rightarrow> bool \<times> TCPClient" where
  "SendConnectNotification ru connid c = SendCtrlPacket ru [2, connid] c"

definition SendDisconnectNotification :: "rudp \<Rightarrow> byte \<Rightarrow> TCPClient \<Rightarrow> bool \<times> TCPClient" where
  "SendDisconnectNotification ru connid c = SendCtrlPacket ru [3, connid] c"

definition SendOnionRequest :: "rudp \<Rightarrow> bytes \<Rightarrow> TCPClient \<Rightarrow> bool \<times> TCPClient" where
  "SendOnionRequest ru data c = SendCtrlPacket ru (8 # data) c"

section \<open>Handshake and pings\<close>

text \<open>\<^verbatim>\<open>tpk\<close> and \<^verbatim>\<open>tsk\<close> are the fresh key pair, \<^verbatim>\<open>sn\<close> and \<^verbatim>\<open>tn\<close> the fresh nonces.\<close>

definition GenerateHandshake ::
  "nacl \<Rightarrow> bytes \<Rightarrow> bytes \<Rightarrow> bytes \<Rightarrow> bytes \<Rightarrow> TCPClient \<Rightarrow> (mintox_error, bytes \<times> TCPClient) res" where
  "GenerateHandshake nb tpk tsk sn tn c =
    (let c1 = c\<lparr>mc_TempSeckey := Some tsk, mc_SentNonce := sn, mc_TempNonce := tn\<rparr>; plain = tpk @ sn in
     if length plain \<noteq> 56 then Panic
     else case EncryptDataSymmetric nb (mc_Shrkey c1) tn plain of
         Ok encrypted \<Rightarrow>
           if length encrypted \<noteq> 72 then Panic
           else (case DecryptDataSymmetric nb (mc_Shrkey c1) tn encrypted of
              Ok _ \<Rightarrow>
                let lastPacket = mc_SelfPubkey c1 @ tn @ encrypted in
                if length lastPacket = 128 then Ok (lastPacket, c1) else Panic
            | _ \<Rightarrow> Panic)
       | _ \<Rightarrow> Panic)"

definition SendHandshake ::
  "nacl \<Rightarrow> bytes \<Rightarrow> bytes \<Rightarrow> bytes \<Rightarrow> bytes \<Rightarrow> bool \<Rightarrow> TCPClient \<Rightarrow> (mintox_error, TCPClient) res" where
  "SendHandshake nb tpk tsk sn tn ok c = (case GenerateHandshake nb tpk tsk sn tn c of
      Ok (encpkt, c1) \<Rightarrow> Ok (snd (conn_Write ok encpkt c1))
    | Err e \<Rightarrow> Err e
    | Panic \<Rightarrow> Panic)"

definition connect :: "bool \<Rightarrow> TCPClient \<Rightarrow> bool \<times> TCPClient" where
  "connect dial c =
    (let c1 = c\<lparr>mc_status := TCP_CLIENT_CONNECTING\<rparr> in
     if \<not> dial then (False, c1)
     else (True, c1\<lparr>mc_conn := Open_conn, mc_crbuf := [], mc_sendq := [], mc_disposed := False,
            mc_reading := True, mc_writing := True, mc_done := False\<rparr>))"

definition doinit ::
  "nacl \<Rightarrow> bytes \<Rightarrow> bytes \<Rightarrow> bytes \<Rightarrow> bytes \<Rightarrow> bool \<Rightarrow> bool \<Rightarrow> TCPClient \<Rightarrow> (mintox_error, TCPClient) res" where
  "doinit nb tpk tsk sn tn dial ok c = (case connect dial c of
      (True, c1) \<Rightarrow> SendHandshake nb tpk tsk sn tn ok c1
    | (False, c1) \<Rightarrow> Ok (callback Closed c1))"

definition HandleHandshake :: "nacl \<Rightarrow> bytes \<Rightarrow> TCPClient \<Rightarrow> (mintox_error, TCPClient) res" where
  "HandleHandshake nb rdbuf c =
    (if length rdbuf < 24 then Panic
     else case DecryptDataSymmetric nb (mc_Shrkey c) (take 24 rdbuf) (drop 24 rdbuf) of
         Ok plain_resp \<Rightarrow>
           if length plain_resp < 32 then Panic
           else (case (NewCBNonce (drop 32 plain_resp), mc_TempSeckey c) of
              (Ok n, Some tsk) \<Rightarrow>
                Ok (c\<lparr>mc_RecvNonce := n, mc_Shrkey := CBBeforeNm nb (take 32 plain_resp) tsk, mc_TempSeckey := None\<rparr>)
            | _ \<Rightarrow> Panic)
       | _ \<Rightarrow> Panic)"

definition MakePingPacket2 :: "u64 \<Rightarrow> TCPClient \<Rightarrow> bytes \<times> TCPClient" where
  "MakePingPacket2 r c =
    (let pingid = (if r = 0 then 1 else r) in (4 # put_u64 pingid, c\<lparr>mc_PingRequestId := pingid\<rparr>))"

definition CreatePingPacket :: "nacl \<Rightarrow> u64 \<Rightarrow> TCPClient \<Rightarrow> (mintox_error, bytes) res \<times> TCPClient" where
  "CreatePingPacket nb r c = (case MakePingPacket2 r c of (pingpkt, c1) \<Rightarrow> (CreatePacket nb pingpkt c1, c1))"

text \<open>A packet that is too short leaves the number at 0.\<close>

definition pong_id :: "gopp \<Rightarrow> bytes \<Rightarrow> u64 option" where
  "pong_id g rpkt = (case gp_RBufAt g rpkt 1 of
      None \<Rightarrow> None
    | Some b \<Rightarrow> Some (if length b < 8 then 0 else get_u64 b))"

definition HandlePingResponse :: "gopp \<Rightarrow> bytes \<Rightarrow> TCPClient \<Rightarrow> (mintox_error, TCPClient) res" where
  "HandlePingResponse g rpkt c = (case pong_id g rpkt of
      None \<Rightarrow> Panic
    | Some pongid \<Rightarrow> if pongid = mc_PingRequestId c then Ok (c\<lparr>mc_PingRequestId := 0\<rparr>) else Panic)"

definition HandlePingResponse2 :: "gopp \<Rightarrow> bytes \<Rightarrow> TCPClient \<Rightarrow> (mintox_error, TCPClient) res" where
  "HandlePingResponse2 g rpkt c = (case pong_id g rpkt of
      None \<Rightarrow> Panic
    | Some pongid \<Rightarrow> if pongid \<noteq> mc_PingRequestId c then Ok c else Ok (c\<lparr>mc_PingRequestId := 0\<rparr>))"

definition HandlePingRequest :: "rudp \<Rightarrow> bytes \<Rightarrow> TCPClient \<Rightarrow> TCPClient" where
  "HandlePingRequest ru rpkt c = snd (SendCtrlPacket ru (5 # drop 1 rpkt) c)"

text \<open>\<^verbatim>\<open>DoHandshake\<close>, the handshake without go-routines: \<^verbatim>\<open>rd1\<close> and \<^verbatim>\<open>rd2\<close> are what the two reads give, up to 300 bytes each; without
  a connection the first use of it panics.  The pong is looked at as it was received, without opening it.\<close>

definition DoHandshake ::
  "client_lib \<Rightarrow> bytes \<Rightarrow> bytes \<Rightarrow> bytes \<Rightarrow> bytes \<Rightarrow> u64 \<Rightarrow> bool \<Rightarrow> bool \<Rightarrow> bytes \<Rightarrow> bytes \<Rightarrow> TCPClient \<Rightarrow> (mintox_error, TCPClient) res" where
  "DoHandshake L tpk tsk sn tn r dial ok rd1 rd2 c = (case GenerateHandshake (cl_nacl L) tpk tsk sn tn c of
      Ok (hspkt, c1) \<Rightarrow>
        if \<not> dial then Panic
        else (case HandleHandshake (cl_nacl L) rd1 (snd (conn_Write ok hspkt (c1\<lparr>mc_conn := Open_conn\<rparr>))) of
           Ok c2 \<Rightarrow>
             (case CreatePingPacket (cl_nacl L) r c2 of
                (Ok ping_pkt, c3) \<Rightarrow>
                  (case HandlePingResponse (cl_gopp L) rd2 (snd (conn_Write ok ping_pkt c3)) of
                     Ok c4 \<Rightarrow> Ok (c4\<lparr>mc_RecvNonce := Incr2 (mc_RecvNonce c4)\<rparr>)
                   | _ \<Rightarrow> Panic)
              | _ \<Rightarrow> Panic)
         | _ \<Rightarrow> Panic)
    | _ \<Rightarrow> Panic)"

section \<open>Packets from the server\<close>

definition HandleRoutingResponse :: "bytes \<Rightarrow> TCPClient \<Rightarrow> (mintox_error, TCPClient) res" where
  "HandleRoutingResponse rpkt c =
    (if length rpkt < 34 \<or> rpkt ! 0 \<noteq> 1 then Panic
     else
       let connid = rpkt ! 1; pubkey = take 32 (drop 2 rpkt) in
       case Insert connid pubkey (mc_conns c) of
         None \<Rightarrow> Panic
       | Some b \<Rightarrow> Ok (callback (RoutingResponse connid pubkey) (c\<lparr>mc_conns := b\<rparr>)))"

definition HandleRoutingData :: "bytes \<Rightarrow> TCPClient \<Rightarrow> TCPClient" where
  "HandleRoutingData rpkt c = callback (RoutingData (hd rpkt) (drop 1 rpkt)) c"

definition HandleReservedData :: "bytes \<Rightarrow> TCPClient \<Rightarrow> TCPClient" where
  "HandleReservedData rpkt c = callback (ReservedData (hd rpkt) (drop 1 rpkt)) c"

definition HandleConnectionNotification :: "bytes \<Rightarrow> TCPClient \<Rightarrow> (mintox_error, TCPClient) res" where
  "HandleConnectionNotification rpkt c =
    (if length rpkt < 2 then Panic else Ok (callback (RoutingStatus (rpkt ! 1) 2) c))"

definition HandleDisconnectNotification :: "bytes \<Rightarrow> TCPClient \<Rightarrow> (mintox_error, TCPClient) res" where
  "HandleDisconnectNotification rpkt c =
    (if length rpkt < 2 then Panic else Ok (callback (RoutingStatus (rpkt ! 1) 1) c))"

definition handle_packet :: "client_lib \<Rightarrow> bytes \<Rightarrow> TCPClient \<Rightarrow> (mintox_error, TCPClient) res" where
  "handle_packet L plnpkt c = (case plnpkt of
      [] \<Rightarrow> Panic
    | ptype # _ \<Rightarrow>
        if ptype = 4 then Ok (HandlePingRequest (cl_rudp L) plnpkt c)
        else if ptype = 5 then HandlePingResponse2 (cl_gopp L) plnpkt c
        else if ptype = 1 then HandleRoutingResponse plnpkt c
        else if ptype = 2 then HandleConnectionNotification plnpkt c
        else if ptype = 3 then HandleDisconnectNotification plnpkt c
        else if ptype = 7 \<or> ptype = 9 then Ok c
        else if 16 \<le> ptype then Ok (HandleRoutingData plnpkt c)
        else if 9 < ptype then Ok (HandleReservedData plnpkt c)
        else Panic)"

section \<open>Loops\<close>

text \<open>\<^verbatim>\<open>PeekableRing\<close>: a reader of 4096 bytes in front of a buffer of one megabyte.  \<^verbatim>\<open>Peek\<close> fails for more than the size of
  the reader, and gives the end of the data when there is less; in both cases the loop stops and nothing is taken.\<close>

definition ring_Cap :: nat where
  "ring_Cap = 4096 + 1024 * 1024"

definition next_frame :: "TCPClient \<Rightarrow> (bytes \<times> TCPClient) option" where
  "next_frame c =
    (if length (mc_crbuf c) < 2 then None
     else
       let n = 2 + unat (get_u16 (take 2 (mc_crbuf c))) in
       if 4096 < n \<or> length (mc_crbuf c) < n then None
       else Some (take n (mc_crbuf c), c\<lparr>mc_crbuf := drop n (mc_crbuf c)\<rparr>))"

text \<open>One turn of the loop of \<^verbatim>\<open>doReadPacket\<close>, by the status of the client, and whether there is another.  \<^verbatim>\<open>r\<close> is the random
  number of a ping, \<^verbatim>\<open>ok\<close> whether the socket takes it: the nonce moves on either way.\<close>

definition read_handshake :: "client_lib \<Rightarrow> u64 \<Rightarrow> bool \<Rightarrow> TCPClient \<Rightarrow> (mintox_error, TCPClient) res" where
  "read_handshake L r ok c =
    (if length (mc_crbuf c) < 96 then Panic
     else case HandleHandshake (cl_nacl L) (take 96 (mc_crbuf c)) (c\<lparr>mc_crbuf := drop 96 (mc_crbuf c)\<rparr>) of
         Ok c1 \<Rightarrow>
           (case CreatePingPacket (cl_nacl L) r c1 of
              (Ok pingpkt, c2) \<Rightarrow>
                let c3 = snd (conn_Write ok pingpkt c2) in
                Ok (c3\<lparr>mc_SentNonce := Incr2 (mc_SentNonce c3), mc_status := TCP_CLIENT_UNCONFIRMED\<rparr>)
            | _ \<Rightarrow> Panic)
       | _ \<Rightarrow> Panic)"

definition confirm :: "client_lib \<Rightarrow> bytes \<Rightarrow> TCPClient \<Rightarrow> (mintox_error, TCPClient) res" where
  "confirm L rdbuf c = (case Unpacket (cl_nacl L) rdbuf c of
      (Ok (b # bs), c1) \<Rightarrow>
        (case HandlePingResponse (cl_gopp L) (b # bs) c1 of
           Ok c2 \<Rightarrow>
             let c3 = c2\<lparr>mc_status := TCP_CLIENT_CONFIRMED\<rparr> in
             Ok (if mc_handlers c3 Confirmed then callback Confirmed (c3\<lparr>mc_pinging := True\<rparr>) else c3)
         | _ \<Rightarrow> Panic)
    | _ \<Rightarrow> Panic)"

definition read_packet :: "client_lib \<Rightarrow> bytes \<Rightarrow> TCPClient \<Rightarrow> (mintox_error, TCPClient) res" where
  "read_packet L rdbuf c = (case Unpacket (cl_nacl L) rdbuf c of
      (Ok plnpkt, c1) \<Rightarrow> handle_packet L plnpkt c1
    | _ \<Rightarrow> Panic)"

definition read_step :: "client_lib \<Rightarrow> u64 \<Rightarrow> bool \<Rightarrow> TCPClient \<Rightarrow> (mintox_error, bool \<times> TCPClient) res" where
  "read_step L r ok c =
    (if mc_status c = TCP_CLIENT_CONNECTING then
       (case read_handshake L r ok c of Ok c1 \<Rightarrow> Ok (True, c1) | _ \<Rightarrow> Panic)
     else if mc_status c = TCP_CLIENT_UNCONFIRMED \<or> mc_status c = TCP_CLIENT_CONFIRMED then
       (case next_frame c of
          None \<Rightarrow> Ok (False, c)
        | Some (rdbuf, c1) \<Rightarrow>
            (case (if mc_status c = TCP_CLIENT_UNCONFIRMED then confirm L rdbuf c1 else read_packet L rdbuf c1) of
               Ok c2 \<Rightarrow> Ok (True, c2)
             | _ \<Rightarrow> Panic))
     else Panic)"

text \<open>Nothing that handles a packet touches the buffer.\<close>

lemma callback_crbuf [simp]: "mc_crbuf (callback e c) = mc_crbuf c"
  by (simp add: callback_def)

lemma SendCtrl_crbuf [simp]: "mc_crbuf (snd (SendCtrlPacket ru d c)) = mc_crbuf c"
  by (simp add: SendCtrlPacket_def implSendPacket_def)

lemma handle_packet_crbuf: "handle_packet L p c = Ok c1 \<Longrightarrow> mc_crbuf c1 = mc_crbuf c"
  by (auto simp: handle_packet_def HandlePingRequest_def HandlePingResponse2_def HandleRoutingResponse_def
      HandleConnectionNotification_def HandleDisconnectNotification_def HandleRoutingData_def HandleReservedData_def Let_def
      split: list.splits if_splits option.splits)

lemma confirm_crbuf: "confirm L p c = Ok c1 \<Longrightarrow> mc_crbuf c1 = mc_crbuf c"
  by (auto simp: confirm_def Unpacket_def HandlePingResponse_def Let_def split: res.splits list.splits option.splits if_splits)

lemma read_packet_crbuf: "read_packet L p c = Ok c1 \<Longrightarrow> mc_crbuf c1 = mc_crbuf c"
  by (auto simp: read_packet_def Unpacket_def dest!: handle_packet_crbuf split: res.splits)

lemma read_handshake_crbuf:
  "read_handshake L r ok c = Ok c1 \<Longrightarrow> 96 \<le> length (mc_crbuf c) \<and> mc_crbuf c1 = drop 96 (mc_crbuf c)"
  by (auto simp: read_handshake_def HandleHandshake_def CreatePingPacket_def MakePingPacket2_def conn_Write_def Let_def
      split: res.splits if_splits option.splits)

lemma next_frame_Some:
  assumes "next_frame c = Some (f, c1)"
  shows "mc_crbuf c = f @ mc_crbuf c1 \<and> 2 \<le> length f \<and> c1 = c\<lparr>mc_crbuf := mc_crbuf c1\<rparr>"
  using assms by (auto simp: next_frame_def Let_def split: if_splits)

lemma read_step_shrinks:
  assumes "read_step L r ok c = Ok (True, c1)"
  shows "length (mc_crbuf c1) < length (mc_crbuf c)"
proof (cases "mc_status c = TCP_CLIENT_CONNECTING")
  case True
  then show ?thesis
    using assms read_handshake_crbuf [of L r ok c c1] by (auto simp: read_step_def split: res.splits)
next
  case False
  then obtain f c2 where "next_frame c = Some (f, c2)" "confirm L f c2 = Ok c1 \<or> read_packet L f c2 = Ok c1"
    using assms by (auto simp: read_step_def split: if_splits option.splits res.splits)
  then show ?thesis
    using next_frame_Some [of c f c2] confirm_crbuf [of L f c2 c1] read_packet_crbuf [of L f c2 c1] by auto
qed

function doReadPacket :: "client_lib \<Rightarrow> u64 \<Rightarrow> bool \<Rightarrow> TCPClient \<Rightarrow> (mintox_error, TCPClient) res" where
  "doReadPacket L r ok c = (case read_step L r ok c of
      Ok (True, c1) \<Rightarrow> doReadPacket L r ok c1
    | Ok (False, c1) \<Rightarrow> Ok c1
    | Err e \<Rightarrow> Err e
    | Panic \<Rightarrow> Panic)"
  by pat_completeness auto
termination by (relation "measure (\<lambda>(L, r, ok, c). length (mc_crbuf c))") (auto dest: read_step_shrinks)

declare doReadPacket.simps [simp del]

text \<open>A turn of \<^verbatim>\<open>doReadConn\<close> with what the socket gives: at most 3000 bytes, the end of the stream, or an error.\<close>

definition doReadConn_data :: "client_lib \<Rightarrow> u64 \<Rightarrow> bool \<Rightarrow> bytes \<Rightarrow> TCPClient \<Rightarrow> (mintox_error, TCPClient) res" where
  "doReadConn_data L r ok rdbuf c =
    (let c1 = callback (NetRecv (length rdbuf)) c in
     if ring_Cap < length (mc_crbuf c1) + length rdbuf then Panic
     else doReadPacket L r ok (c1\<lparr>mc_crbuf := mc_crbuf c1 @ rdbuf\<rparr>))"

definition doReadConn_EOF :: "TCPClient \<Rightarrow> TCPClient" where
  "doReadConn_EOF c = c\<lparr>mc_status := TCP_CLIENT_DISCONNECTED, mc_reading := False\<rparr>"

definition doReadConn_error :: "TCPClient \<Rightarrow> TCPClient" where
  "doReadConn_error c = c\<lparr>mc_reading := False\<rparr>"

text \<open>A turn of \<^verbatim>\<open>doWriteConn\<close>: \<^verbatim>\<open>i\<close> is the item the queue gives; there is no turn while the queue is empty.  The go-routine
  closes the connection when the loop ends.\<close>

definition doWriteConn_turn :: "client_lib \<Rightarrow> nat \<Rightarrow> bool \<Rightarrow> TCPClient \<Rightarrow> (mintox_error, TCPClient) res option" where
  "doWriteConn_turn L i ok c =
    (case pq_Get si_Prior i (mc_sendq c) of
       None \<Rightarrow> None
     | Some (item, q) \<Rightarrow>
         Some (case WritePacket (cl_nacl L) ok (si_Value item) (c\<lparr>mc_sendq := q\<rparr>) of
             (Ok (Some wn), c1) \<Rightarrow> Ok (callback (NetSent wn) c1)
           | (Ok None, c1) \<Rightarrow> Ok (c1\<lparr>mc_writing := False, mc_conn := Closed_conn\<rparr>)
           | (Err e, c1) \<Rightarrow> Err e
           | (Panic, c1) \<Rightarrow> Panic))"

definition doPing_turn :: "rudp \<Rightarrow> u64 \<Rightarrow> TCPClient \<Rightarrow> TCPClient" where
  "doPing_turn ru r c = (case MakePingPacket2 r c of (pingpkt, c1) \<Rightarrow> snd (SendCtrlPacket ru pingpkt c1))"

definition Close :: "TCPClient \<Rightarrow> TCPClient" where
  "Close c = (if mc_conn c = Nil_conn then c else c\<lparr>mc_conn := Closed_conn\<rparr>)"

text \<open>The end of \<^verbatim>\<open>runmainproc\<close>, when both loops have ended.\<close>

definition mainproc_end :: "TCPClient \<Rightarrow> TCPClient" where
  "mainproc_end c =
    callback Closed (c\<lparr>mc_status := TCP_CLIENT_DISCONNECTED, mc_pinging := False, mc_disposed := True, mc_done := True\<rparr>)"

text \<open>The go-routines of a client and the calls of its user.\<close>

inductive client_step :: "client_lib \<Rightarrow> TCPClient \<Rightarrow> TCPClient \<Rightarrow> bool" for L where
  read_data: "mc_reading c \<Longrightarrow> mc_conn c = Open_conn \<Longrightarrow> rdbuf \<noteq> [] \<Longrightarrow> length rdbuf \<le> 3000 \<Longrightarrow>
    doReadConn_data L r ok rdbuf c = Ok c1 \<Longrightarrow> client_step L c c1"
| eof: "mc_reading c \<Longrightarrow> mc_conn c = Open_conn \<Longrightarrow> client_step L c (doReadConn_EOF c)"
| read_error: "mc_reading c \<Longrightarrow> client_step L c (doReadConn_error c)"
| write_item: "mc_writing c \<Longrightarrow> doWriteConn_turn L i ok c = Some (Ok c1) \<Longrightarrow> client_step L c c1"
| ping: "mc_pinging c \<Longrightarrow> client_step L c (doPing_turn (cl_rudp L) r c)"
| ending: "mc_conn c \<noteq> Nil_conn \<Longrightarrow> \<not> mc_reading c \<Longrightarrow> \<not> mc_writing c \<Longrightarrow> \<not> mc_done c \<Longrightarrow> client_step L c (mainproc_end c)"
| connect_peer: "ConnectPeer (cl_rudp L) pubkey c = Ok (b, c1) \<Longrightarrow> client_step L c c1"
| send_data: "SendDataPacket (cl_rudp L) connid data prior c = Some (b, c1) \<Longrightarrow> client_step L c c1"
| send_oob: "client_step L c (snd (SendOOBPacket (cl_rudp L) pubkey data c))"
| send_connect: "client_step L c (snd (SendConnectNotification (cl_rudp L) connid c))"
| send_disconnect: "client_step L c (snd (SendDisconnectNotification (cl_rudp L) connid c))"
| send_onion: "client_step L c (snd (SendOnionRequest (cl_rudp L) data c))"
| close_conn: "client_step L c (Close c)"

section \<open>Reading in pieces\<close>

definition with_buf :: "bytes \<Rightarrow> TCPClient \<Rightarrow> TCPClient" where
  "with_buf x c = c\<lparr>mc_crbuf := x\<rparr>"

definition more :: "bytes \<Rightarrow> TCPClient \<Rightarrow> TCPClient" where
  "more b c = c\<lparr>mc_crbuf := mc_crbuf c @ b\<rparr>"

primrec res_with :: "bytes \<Rightarrow> (mintox_error, TCPClient) res \<Rightarrow> (mintox_error, TCPClient) res" where
  "res_with x (Ok c) = Ok (with_buf x c)"
| "res_with x (Err e) = Err e"
| "res_with x Panic = Panic"

lemma with_buf_fields [simp]:
  "mc_status (with_buf x c) = mc_status c" "mc_handlers (with_buf x c) = mc_handlers c" "mc_conns (with_buf x c) = mc_conns c"
  "mc_Shrkey (with_buf x c) = mc_Shrkey c" "mc_RecvNonce (with_buf x c) = mc_RecvNonce c" "mc_sendq (with_buf x c) = mc_sendq c"
  "mc_PingRequestId (with_buf x c) = mc_PingRequestId c" "mc_disposed (with_buf x c) = mc_disposed c"
  "mc_calls (with_buf x c) = mc_calls c" "mc_crbuf (with_buf x c) = x"
  by (simp_all add: with_buf_def)

lemma callback_with: "callback e (with_buf x c) = with_buf x (callback e c)"
  by (simp add: callback_def with_buf_def)

lemma SendCtrl_with: "snd (SendCtrlPacket ru d (with_buf x c)) = with_buf x (snd (SendCtrlPacket ru d c))"
  by (simp add: SendCtrlPacket_def implSendPacket_def with_buf_def)

lemma handle_packet_with: "handle_packet L p (with_buf x c) = res_with x (handle_packet L p c)"
proof (cases p)
  case (Cons t ts)
  have 1: "HandlePingResponse2 g q (with_buf x c) = res_with x (HandlePingResponse2 g q c)" for g q
    by (simp add: HandlePingResponse2_def with_buf_def split: option.split)
  have 2: "HandleRoutingResponse q (with_buf x c) = res_with x (HandleRoutingResponse q c)" for q
    by (simp add: HandleRoutingResponse_def with_buf_def callback_def Let_def split: option.split)
  have 3: "HandleConnectionNotification q (with_buf x c) = res_with x (HandleConnectionNotification q c)"
    "HandleDisconnectNotification q (with_buf x c) = res_with x (HandleDisconnectNotification q c)" for q
    by (simp_all add: HandleConnectionNotification_def HandleDisconnectNotification_def callback_with)
  show ?thesis
    by (simp add: Cons 1 2 3 handle_packet_def HandlePingRequest_def SendCtrl_with HandleRoutingData_def HandleReservedData_def callback_with)
qed (simp add: handle_packet_def)

lemma Unpacket_with:
  "Unpacket nb f (with_buf x c) = (fst (Unpacket nb f c), with_buf x (snd (Unpacket nb f c)))"
  by (simp add: Unpacket_def with_buf_def)

lemma read_packet_with: "read_packet L f (with_buf x c) = res_with x (read_packet L f c)"
  by (simp add: read_packet_def Unpacket_with handle_packet_with split: prod.split res.split)

lemma confirm_with: "confirm L f (with_buf x c) = res_with x (confirm L f c)"
proof -
  have 1: "HandlePingResponse g p (with_buf x c) = res_with x (HandlePingResponse g p c)" for g p c
    by (simp add: HandlePingResponse_def with_buf_def split: option.split)
  have 2: "(with_buf x c)\<lparr>mc_pinging := True\<rparr> = with_buf x (c\<lparr>mc_pinging := True\<rparr>)"
    "(with_buf x c)\<lparr>mc_status := s\<rparr> = with_buf x (c\<lparr>mc_status := s\<rparr>)" for s c
    by (simp_all add: with_buf_def)
  obtain u c1 where u: "Unpacket (cl_nacl L) f c = (u, c1)" by fastforce
  show ?thesis
  proof (cases u)
    case (Ok p)
    show ?thesis
    proof (cases p)
      case (Cons b bs)
      show ?thesis
        using u Ok Cons by (cases "HandlePingResponse (cl_gopp L) (b # bs) c1") (simp_all add: confirm_def Unpacket_with 1 2 callback_with Let_def)
    qed (use u Ok in \<open>simp add: confirm_def Unpacket_with\<close>)
  qed (use u in \<open>simp_all add: confirm_def Unpacket_with\<close>)
qed

definition in_session :: "TCPClient \<Rightarrow> bool" where
  "in_session c \<longleftrightarrow> mc_status c = TCP_CLIENT_UNCONFIRMED \<or> mc_status c = TCP_CLIENT_CONFIRMED"

lemma next_frame_more:
  assumes "next_frame c = Some (f, c1)"
  shows "next_frame (more b c) = Some (f, more b c1)"
proof -
  have "length (take 2 (mc_crbuf c)) = 2" "take 2 (mc_crbuf c @ b) = take 2 (mc_crbuf c)"
    using assms by (auto simp: next_frame_def split: if_splits)
  then show ?thesis
    using assms by (auto simp: next_frame_def more_def Let_def split: if_splits)
qed

lemma read_step_more:
  assumes "in_session c"
  shows "read_step L r ok c = Ok (True, c1) \<Longrightarrow> read_step L r ok (more b c) = Ok (True, more b c1)"
    and "read_step L r ok c = Panic \<Longrightarrow> read_step L r ok (more b c) = Panic"
    and "read_step L r ok c = Ok (False, c1) \<Longrightarrow> c1 = c"
    and "read_step L r ok c \<noteq> Err e"
proof -
  have st: "mc_status c \<noteq> TCP_CLIENT_CONNECTING" "mc_status (more b c) = mc_status c"
    using assms by (auto simp: in_session_def more_def)
  have w: "(if P then confirm L f (more b c2) else read_packet L f (more b c2)) =
      res_with (mc_crbuf c2 @ b) (if P then confirm L f c2 else read_packet L f c2)" for P f c2
    using confirm_with [of L f "mc_crbuf c2 @ b" c2] read_packet_with [of L f "mc_crbuf c2 @ b" c2]
    by (simp add: with_buf_def more_def)
  have b: "(if P then confirm L f c2 else read_packet L f c2) = Ok c3 \<Longrightarrow> mc_crbuf c3 = mc_crbuf c2" for P f c2 c3
    using confirm_crbuf [of L f c2 c3] read_packet_crbuf [of L f c2 c3] by (simp split: if_splits)
  have m: "mc_crbuf c3 = mc_crbuf c2 \<Longrightarrow> with_buf (mc_crbuf c2 @ b) c3 = more b c3" for c2 c3
    by (simp add: with_buf_def more_def)
  show "read_step L r ok (more b c) = Ok (True, more b c1)" if step: "read_step L r ok c = Ok (True, c1)"
  proof -
    obtain f c2 where f: "next_frame c = Some (f, c2)"
      "(if mc_status c = TCP_CLIENT_UNCONFIRMED then confirm L f c2 else read_packet L f c2) = Ok c1"
      using step st(1) by (auto simp: read_step_def split: if_splits option.splits res.splits prod.splits)
    from w [of "mc_status c = TCP_CLIENT_UNCONFIRMED" f c2] b [OF f(2)] m [of c1 c2] f(2)
    show ?thesis using assms next_frame_more [OF f(1), of b] st
      by (simp add: read_step_def in_session_def split: if_splits)
  qed
  show "read_step L r ok (more b c) = Panic" if step: "read_step L r ok c = Panic"
  proof -
    obtain f c2 where f: "next_frame c = Some (f, c2)"
      "(case (if mc_status c = TCP_CLIENT_UNCONFIRMED then confirm L f c2 else read_packet L f c2) of Ok _ \<Rightarrow> False | _ \<Rightarrow> True)"
      using step assms st(1) by (auto simp: read_step_def in_session_def split: option.splits res.splits)
    from w [of "mc_status c = TCP_CLIENT_UNCONFIRMED" f c2] f(2)
    show ?thesis using assms next_frame_more [OF f(1), of b] st
      by (auto simp: read_step_def in_session_def split: res.splits)
  qed
  show "c1 = c" if "read_step L r ok c = Ok (False, c1)"
    using that st(1) by (auto simp: read_step_def split: if_splits option.splits res.splits)
  show "read_step L r ok c \<noteq> Err e"
    by (auto simp: read_step_def split: option.splits res.splits)
qed

lemma callback_status [simp]:
  "mc_status (callback e c) = mc_status c" "mc_handlers (callback e c) = mc_handlers c"
  by (simp_all add: callback_def)

lemma SendCtrl_frame [simp]:
  "mc_status (snd (SendCtrlPacket ru d c)) = mc_status c" "mc_handlers (snd (SendCtrlPacket ru d c)) = mc_handlers c"
  by (simp_all add: SendCtrlPacket_def implSendPacket_def)

lemma handle_packet_frame:
  "handle_packet L p c = Ok c1 \<Longrightarrow> mc_status c1 = mc_status c \<and> mc_handlers c1 = mc_handlers c"
  by (auto simp: handle_packet_def HandlePingRequest_def HandlePingResponse2_def HandleRoutingResponse_def
      HandleConnectionNotification_def HandleDisconnectNotification_def HandleRoutingData_def HandleReservedData_def Let_def
      split: list.splits if_splits option.splits)

lemma confirm_frame:
  "confirm L p c = Ok c1 \<Longrightarrow> mc_status c1 = TCP_CLIENT_CONFIRMED \<and> mc_handlers c1 = mc_handlers c"
  by (auto simp: confirm_def Unpacket_def HandlePingResponse_def Let_def split: res.splits list.splits option.splits if_splits)

lemma read_packet_frame:
  "read_packet L p c = Ok c1 \<Longrightarrow> mc_status c1 = mc_status c \<and> mc_handlers c1 = mc_handlers c"
  by (auto simp: read_packet_def Unpacket_def dest!: handle_packet_frame split: res.splits)

lemma read_step_session:
  assumes "in_session c" "read_step L r ok c = Ok (k, c1)"
  shows "in_session c1 \<and> mc_handlers c1 = mc_handlers c"
proof (cases k)
  case True
  obtain f c2 where f: "next_frame c = Some (f, c2)"
    "(if mc_status c = TCP_CLIENT_UNCONFIRMED then confirm L f c2 else read_packet L f c2) = Ok c1"
    using assms True by (auto simp: read_step_def in_session_def split: if_splits option.splits res.splits prod.splits)
  obtain x where "c2 = c\<lparr>mc_crbuf := x\<rparr>" using next_frame_Some [OF f(1)] by blast
  then have c2: "mc_status c2 = mc_status c" "mc_handlers c2 = mc_handlers c" by simp_all
  show ?thesis
    using f(2) c2 assms(1) confirm_frame [of L f c2 c1] read_packet_frame [of L f c2 c1]
    by (auto simp: in_session_def split: if_splits)
next
  case False
  then show ?thesis using assms read_step_more(3) [OF assms(1)] by auto
qed

lemma doReadPacket_more:
  "in_session c \<Longrightarrow> doReadPacket L r ok (more b c) =
    (case doReadPacket L r ok c of Ok c1 \<Rightarrow> doReadPacket L r ok (more b c1) | Err e \<Rightarrow> Err e | Panic \<Rightarrow> Panic)"
proof (induction L r ok c rule: doReadPacket.induct)
  case (1 L r ok c)
  note more = read_step_more [OF 1(2)]
  show ?case
  proof (cases "read_step L r ok c")
    case (Ok kc)
    obtain k c1 where kc: "kc = (k, c1)" by fastforce
    show ?thesis
    proof (cases k)
      case True
      have "read_step L r ok (more b c) = Ok (True, more b c1)" using more(1) Ok kc True by simp
      then show ?thesis
        using 1(1) [OF Ok kc [symmetric]] True read_step_session [OF 1(2)] Ok kc
        by (simp add: doReadPacket.simps [of L r ok c] doReadPacket.simps [of L r ok "more b c"])
    next
      case False
      then show ?thesis
        using more(3) [of L r ok c1] Ok kc by (simp add: doReadPacket.simps [of L r ok c])
    qed
  next
    case (Err e)
    then show ?thesis using more(4) by simp
  next
    case Panic
    then show ?thesis
      using more(2) [OF Panic, of b] by (simp add: doReadPacket.simps [of L r ok c] doReadPacket.simps [of L r ok "more b c"])
  qed
qed

lemma doReadPacket_session:
  "in_session c \<Longrightarrow> doReadPacket L r ok c = Ok c1 \<Longrightarrow>
    in_session c1 \<and> mc_handlers c1 = mc_handlers c \<and> length (mc_crbuf c1) \<le> length (mc_crbuf c)"
proof (induction L r ok c rule: doReadPacket.induct)
  case (1 L r ok c)
  show ?case
  proof (cases "read_step L r ok c")
    case (Ok kc)
    obtain k c2 where kc: "kc = (k, c2)" by fastforce
    show ?thesis
    proof (cases k)
      case True
      then show ?thesis
        using 1(1) [OF Ok kc [symmetric]] 1(2,3) read_step_session [OF 1(2)] read_step_shrinks [of L r ok c c2] Ok kc
        by (auto simp: doReadPacket.simps [of L r ok c])
    next
      case False
      then show ?thesis
        using 1(2,3) Ok kc read_step_more(3) [OF 1(2), of L r ok c2] by (simp add: doReadPacket.simps [of L r ok c])
    qed
  qed (use 1(3) in \<open>simp_all add: doReadPacket.simps [of L r ok c]\<close>)
qed

text \<open>The turns of \<^verbatim>\<open>doReadConn\<close> on a sequence of pieces.\<close>

primrec read_all :: "client_lib \<Rightarrow> u64 \<Rightarrow> bool \<Rightarrow> bytes list \<Rightarrow> TCPClient \<Rightarrow> (mintox_error, TCPClient) res" where
  "read_all L r ok [] c = Ok c"
| "read_all L r ok (d # ds) c = (case doReadConn_data L r ok d c of
      Ok c1 \<Rightarrow> read_all L r ok ds c1
    | Err e \<Rightarrow> Err e
    | Panic \<Rightarrow> Panic)"

lemma doReadConn_more:
  "\<not> mc_handlers c (NetRecv (length d)) \<Longrightarrow> length (mc_crbuf c) + length d \<le> ring_Cap \<Longrightarrow>
   doReadConn_data L r ok d c = doReadPacket L r ok (more d c)"
  by (simp add: doReadConn_data_def callback_def more_def)

lemma read_all_pieces:
  assumes "in_session c" "\<forall>n. \<not> mc_handlers c (NetRecv n)" "length (mc_crbuf c) + length (concat ds) \<le> ring_Cap" "ds \<noteq> []"
  shows "read_all L r ok ds c = doReadPacket L r ok (more (concat ds) c)"
  using assms
proof (induction ds arbitrary: c)
  case (Cons d ds)
  have d: "doReadConn_data L r ok d c = doReadPacket L r ok (more d c)"
    using Cons.prems by (intro doReadConn_more) auto
  have s: "in_session (more d c)" using Cons.prems(1) by (simp add: in_session_def more_def)
  show ?case
  proof (cases "ds = []")
    case True
    then show ?thesis using d by (simp split: res.split)
  next
    case False
    have "more (concat (d # ds)) c = more (concat ds) (more d c)" by (simp add: more_def)
    then have split: "doReadPacket L r ok (more (concat (d # ds)) c) =
        (case doReadPacket L r ok (more d c) of Ok c1 \<Rightarrow> doReadPacket L r ok (more (concat ds) c1) | Err e \<Rightarrow> Err e | Panic \<Rightarrow> Panic)"
      using doReadPacket_more [OF s] by simp
    have "read_all L r ok ds c1 = doReadPacket L r ok (more (concat ds) c1)" if "doReadPacket L r ok (more d c) = Ok c1" for c1
      using doReadPacket_session [OF s that] Cons.prems(2,3) by (intro Cons.IH False) (auto simp: more_def)
    then show ?thesis using d split by (simp split: res.split)
  qed
qed simp

section \<open>Frames from the server\<close>

lemma next_frame_sealed:
  assumes "box_ok nb" "length p \<le> 4078" "mc_crbuf c = put_u16 (of_nat (length (nb_Seal nb k n p))) @ nb_Seal nb k n p @ rest"
  shows "next_frame c = Some (put_u16 (of_nat (length (nb_Seal nb k n p))) @ nb_Seal nb k n p, c\<lparr>mc_crbuf := rest\<rparr>)"
proof -
  define m where "m = length (nb_Seal nb k n p)"
  have m: "m = length p + 16" using box_okD(2) [OF assms(1)] by (simp add: m_def)
  then have "m < 65536" using assms(2) by simp
  then have "unat (of_nat m :: u16) = m" by (simp add: unat_of_nat)
  then show ?thesis using assms(2,3) m by (simp add: next_frame_def m_def [symmetric] Let_def)
qed

lemma Unpacket_sealed:
  assumes "box_ok nb"
  shows "Unpacket nb (put_u16 w @ nb_Seal nb (mc_Shrkey c) (mc_RecvNonce c) p) c =
    (Ok p, c\<lparr>mc_RecvNonce := Incr2 (mc_RecvNonce c)\<rparr>)"
  using DecryptDataSymmetric_ok [OF assms] by (simp add: Unpacket_def)

lemma doReadPacket_frame:
  assumes "box_ok (cl_nacl L)" "length p \<le> 4078" "mc_status c = TCP_CLIENT_CONFIRMED" "length (mc_RecvNonce c) = 24"
    and "mc_crbuf c = frames (cl_nacl L) (mc_Shrkey c) (mc_RecvNonce c) (p # ps)"
  shows "doReadPacket L r ok c =
    (case handle_packet L p (c\<lparr>mc_crbuf := frames (cl_nacl L) (mc_Shrkey c) (incrNonce (mc_RecvNonce c)) ps,
       mc_RecvNonce := incrNonce (mc_RecvNonce c)\<rparr>) of
       Ok c1 \<Rightarrow> doReadPacket L r ok c1 | _ \<Rightarrow> Panic)"
proof -
  let ?rest = "frames (cl_nacl L) (mc_Shrkey c) (incrNonce (mc_RecvNonce c)) ps"
  have f: "next_frame c = Some (put_u16 (of_nat (length (nb_Seal (cl_nacl L) (mc_Shrkey c) (mc_RecvNonce c) p))) @
      nb_Seal (cl_nacl L) (mc_Shrkey c) (mc_RecvNonce c) p, c\<lparr>mc_crbuf := ?rest\<rparr>)"
    using assms(5) by (intro next_frame_sealed [OF assms(1,2)]) simp
  have "read_step L r ok c =
      (case handle_packet L p (c\<lparr>mc_crbuf := ?rest, mc_RecvNonce := incrNonce (mc_RecvNonce c)\<rparr>) of Ok c2 \<Rightarrow> Ok (True, c2) | _ \<Rightarrow> Panic)"
    using assms(3,4) f Unpacket_sealed [OF assms(1), of _ "c\<lparr>mc_crbuf := ?rest\<rparr>" p]
    by (simp add: read_step_def read_packet_def Incr2_incrNonce)
  then show ?thesis
    by (simp add: doReadPacket.simps [of L r ok c] split: res.split)
qed

lemma doReadPacket_idle:
  "in_session c \<Longrightarrow> mc_crbuf c = [] \<Longrightarrow> doReadPacket L r ok c = Ok c"
  by (auto simp: doReadPacket.simps [of L r ok c] read_step_def in_session_def next_frame_def)

lemma handle_data:
  "16 \<le> k \<Longrightarrow> handle_packet L (k # d) c = Ok (callback (RoutingData k d) c)"
  by (auto simp: handle_packet_def HandleRoutingData_def word_le_nat_alt)

lemma data_frames:
  assumes "box_ok (cl_nacl L)" "mc_status c = TCP_CLIENT_CONFIRMED" "length (mc_RecvNonce c) = 24"
    and "list_all (\<lambda>(k, d). 16 \<le> k \<and> length d \<le> 4077 \<and> mc_handlers c (RoutingData k d)) kds"
    and "mc_crbuf c = frames (cl_nacl L) (mc_Shrkey c) (mc_RecvNonce c) (map (\<lambda>(k, d). k # d) kds)"
  shows "\<exists>c1. doReadPacket L r ok c = Ok c1 \<and> mc_crbuf c1 = [] \<and> mc_status c1 = TCP_CLIENT_CONFIRMED \<and>
    mc_calls c1 = mc_calls c @ map (\<lambda>(k, d). RoutingData k d) kds"
  using assms(2-)
proof (induction kds arbitrary: c)
  case Nil
  then show ?case using doReadPacket_idle [of c L r ok] by (simp add: in_session_def)
next
  case (Cons kd kds)
  obtain k d where kd: "kd = (k, d)" by fastforce
  let ?c = "c\<lparr>mc_crbuf := frames (cl_nacl L) (mc_Shrkey c) (incrNonce (mc_RecvNonce c)) (map (\<lambda>(k, d). k # d) kds),
     mc_RecvNonce := incrNonce (mc_RecvNonce c)\<rparr>"
  let ?c1 = "?c\<lparr>mc_calls := mc_calls c @ [RoutingData k d]\<rparr>"
  have h: "16 \<le> k" "length (k # d) \<le> 4078" "mc_handlers c (RoutingData k d)" using Cons.prems(3) kd by auto
  have "doReadPacket L r ok c = doReadPacket L r ok ?c1"
    using doReadPacket_frame [OF assms(1) h(2) Cons.prems(1,2), of "map (\<lambda>(k, d). k # d) kds" r ok] Cons.prems(4) kd h(3)
      handle_data [OF h(1), of L d ?c] by (simp add: callback_def)
  moreover have "\<exists>c1. doReadPacket L r ok ?c1 = Ok c1 \<and> mc_crbuf c1 = [] \<and> mc_status c1 = TCP_CLIENT_CONFIRMED \<and>
      mc_calls c1 = mc_calls ?c1 @ map (\<lambda>(k, d). RoutingData k d) kds"
    using Cons.prems kd by (intro Cons.IH) (simp_all add: length_incrNonce)
  ultimately show ?case using kd by auto
qed

section \<open>What the client writes\<close>

text \<open>Packets sealed under counted nonces: each comes with its number.\<close>

definition sent_at :: "nacl \<Rightarrow> bytes \<Rightarrow> bytes \<Rightarrow> (nat \<times> bytes) list \<Rightarrow> bytes" where
  "sent_at nb k n ips = concat (map (\<lambda>(i, p). let s = nb_Seal nb k ((Incr2 ^^ i) n) p in put_u16 (of_nat (length s)) @ s) ips)"

definition wire_ok :: "nacl \<Rightarrow> bytes \<Rightarrow> bytes \<Rightarrow> TCPClient \<Rightarrow> bool" where
  "wire_ok nb hs n c \<longleftrightarrow>
    (\<exists>ips k. mc_wrote c = hs @ sent_at nb (mc_Shrkey c) n ips \<and> sorted_wrt (<) (map fst ips) \<and>
       list_all (\<lambda>(i, p). i < k) ips \<and> mc_SentNonce c = (Incr2 ^^ k) n) \<and>
    (mc_status c = TCP_CLIENT_CONNECTING \<longrightarrow> mc_wrote c = hs \<and> mc_SentNonce c = n \<and> mc_sendq c = [])"

definition same_wire :: "TCPClient \<Rightarrow> TCPClient \<Rightarrow> bool" where
  "same_wire c c1 \<longleftrightarrow> mc_wrote c1 = mc_wrote c \<and> mc_SentNonce c1 = mc_SentNonce c \<and> mc_Shrkey c1 = mc_Shrkey c"

lemma same_wire_refl [simp]: "same_wire c c"
  by (simp add: same_wire_def)

lemma same_wire_trans: "same_wire c c1 \<Longrightarrow> same_wire c1 c2 \<Longrightarrow> same_wire c c2"
  by (simp add: same_wire_def)

lemma wire_ok_same:
  "wire_ok nb hs n c \<Longrightarrow> same_wire c c1 \<Longrightarrow>
   (mc_status c1 = TCP_CLIENT_CONNECTING \<Longrightarrow> mc_status c = TCP_CLIENT_CONNECTING \<and> mc_sendq c1 = mc_sendq c) \<Longrightarrow> wire_ok nb hs n c1"
  by (auto simp: wire_ok_def same_wire_def)

lemma callback_same [simp]: "same_wire c (callback e c)"
  by (simp add: same_wire_def callback_def)

lemma SendCtrl_same:
  "same_wire c (snd (SendCtrlPacket ru d c))"
  "mc_status c = TCP_CLIENT_CONNECTING \<Longrightarrow> mc_sendq (snd (SendCtrlPacket ru d c)) = mc_sendq c"
  by (simp_all add: same_wire_def SendCtrlPacket_def implSendPacket_def)

lemma handle_packet_same: "handle_packet L p c = Ok c1 \<Longrightarrow> same_wire c c1"
  using SendCtrl_same(1) [of c "cl_rudp L" "5 # drop 1 p"]
  by (auto simp: handle_packet_def HandlePingRequest_def HandlePingResponse2_def HandleRoutingResponse_def
      HandleConnectionNotification_def HandleDisconnectNotification_def HandleRoutingData_def HandleReservedData_def
      same_wire_def callback_def Let_def split: list.splits if_splits option.splits)

lemma confirm_same: "confirm L p c = Ok c1 \<Longrightarrow> same_wire c c1"
  by (auto simp: confirm_def Unpacket_def HandlePingResponse_def same_wire_def callback_def Let_def
      split: res.splits list.splits option.splits if_splits)

lemma read_packet_same: "read_packet L p c = Ok c1 \<Longrightarrow> same_wire c c1"
  by (auto simp: read_packet_def Unpacket_def same_wire_def dest!: handle_packet_same split: res.splits)

lemma read_step_same:
  assumes "in_session c" "read_step L r ok c = Ok (b, c1)"
  shows "same_wire c c1"
proof (cases b)
  case True
  obtain f c2 where f: "next_frame c = Some (f, c2)"
    "(if mc_status c = TCP_CLIENT_UNCONFIRMED then confirm L f c2 else read_packet L f c2) = Ok c1"
    using assms True by (auto simp: read_step_def in_session_def split: if_splits option.splits res.splits prod.splits)
  obtain x where "c2 = c\<lparr>mc_crbuf := x\<rparr>" using next_frame_Some [OF f(1)] by blast
  then have "same_wire c c2" by (simp add: same_wire_def)
  moreover have "same_wire c2 c1" using f(2) confirm_same [of L f c2 c1] read_packet_same [of L f c2 c1] by (auto split: if_splits)
  ultimately show ?thesis by (rule same_wire_trans)
next
  case False
  then show ?thesis using assms read_step_more(3) [OF assms(1), of L r ok c1] by simp
qed

lemma doReadPacket_same:
  "in_session c \<Longrightarrow> doReadPacket L r ok c = Ok c1 \<Longrightarrow> same_wire c c1"
proof (induction L r ok c rule: doReadPacket.induct)
  case (1 L r ok c)
  show ?case
  proof (cases "read_step L r ok c")
    case (Ok kc)
    obtain k c2 where kc: "kc = (k, c2)" by fastforce
    have s: "same_wire c c2" "in_session c2" using read_step_same [OF 1(2)] read_step_session [OF 1(2)] Ok kc by simp_all
    show ?thesis
    proof (cases k)
      case True
      then have "same_wire c2 c1" using 1(1) [OF Ok kc [symmetric]] 1(3) s(2) Ok kc by (simp add: doReadPacket.simps [of L r ok c])
      then show ?thesis using s(1) same_wire_trans by blast
    next
      case False
      then show ?thesis using s(1) 1(3) Ok kc by (simp add: doReadPacket.simps [of L r ok c])
    qed
  qed (use 1(3) in \<open>simp_all add: doReadPacket.simps [of L r ok c]\<close>)
qed

lemma CreatePacket_Ok:
  "CreatePacket nb p c = Ok e \<Longrightarrow> e = put_u16 (of_nat (length (nb_Seal nb (mc_Shrkey c) (mc_SentNonce c) p))) @ nb_Seal nb (mc_Shrkey c) (mc_SentNonce c) p"
  by (auto simp: CreatePacket_def EncryptDataSymmetric_def Let_def split: if_splits)

lemma read_handshake_wire:
  assumes "wire_ok nb hs n c" "mc_status c = TCP_CLIENT_CONNECTING" "read_handshake L r ok c = Ok c1" "nb = cl_nacl L"
  shows "wire_ok nb hs n c1 \<and> in_session c1 \<and> mc_handlers c1 = mc_handlers c"
proof -
  have w: "mc_wrote c = hs" "mc_SentNonce c = n" using assms(1,2) by (auto simp: wire_ok_def)
  obtain c2 where c2: "HandleHandshake nb (take 96 (mc_crbuf c)) (c\<lparr>mc_crbuf := drop 96 (mc_crbuf c)\<rparr>) = Ok c2"
    using assms(3,4) by (auto simp: read_handshake_def split: res.splits if_splits)
  have f2: "mc_wrote c2 = hs" "mc_SentNonce c2 = n" "mc_handlers c2 = mc_handlers c"
    using c2 w by (auto simp: HandleHandshake_def split: res.splits if_splits option.splits)
  let ?ping = "4 # put_u64 (if r = 0 then 1 else r)"
  let ?c3 = "c2\<lparr>mc_PingRequestId := if r = 0 then 1 else r\<rparr>"
  obtain e where e: "CreatePacket nb ?ping ?c3 = Ok e" and
    c1: "c1 = (let c3 = snd (conn_Write ok e ?c3) in c3\<lparr>mc_SentNonce := Incr2 (mc_SentNonce c3), mc_status := TCP_CLIENT_UNCONFIRMED\<rparr>)"
    using assms(3,4) c2 by (auto simp: read_handshake_def CreatePingPacket_def MakePingPacket2_def Let_def split: res.splits if_splits)
  have e': "e = sent_at nb (mc_Shrkey c2) n [(0, ?ping)]"
    using CreatePacket_Ok [OF e] f2(2) by (simp add: sent_at_def Let_def)
  have "\<exists>ips. mc_wrote c1 = hs @ sent_at nb (mc_Shrkey c2) n ips \<and> (ips = [] \<or> ips = [(0, ?ping)])"
  proof (cases "ok \<and> mc_conn c2 = Open_conn")
    case True
    then show ?thesis using c1 e' f2(1) by (intro exI [of _ "[(0, ?ping)]"]) (simp add: conn_Write_def Let_def)
  next
    case False
    then show ?thesis using c1 f2(1) by (intro exI [of _ "[]"]) (auto simp: conn_Write_def Let_def sent_at_def)
  qed
  then obtain ips where ips: "mc_wrote c1 = hs @ sent_at nb (mc_Shrkey c2) n ips" "ips = [] \<or> ips = [(0, ?ping)]" by blast
  have "mc_Shrkey c1 = mc_Shrkey c2" "mc_SentNonce c1 = (Incr2 ^^ 1) n" "mc_status c1 = TCP_CLIENT_UNCONFIRMED" "mc_handlers c1 = mc_handlers c"
    using c1 f2 by (simp_all add: conn_Write_def Let_def)
  moreover have "sorted_wrt (<) (map fst ips) \<and> list_all (\<lambda>(i, p). i < 1) ips" using ips(2) by auto
  ultimately show ?thesis using ips(1) unfolding wire_ok_def in_session_def by fastforce
qed

lemma doReadPacket_wire:
  assumes "wire_ok nb hs n c" "doReadPacket L r ok c = Ok c1" "nb = cl_nacl L"
  shows "wire_ok nb hs n c1"
proof -
  have session: "wire_ok nb hs n c2" if "wire_ok nb hs n c" "in_session c" "doReadPacket L r ok c = Ok c2" for c c2
    using wire_ok_same [OF that(1) doReadPacket_same [OF that(2,3)]] doReadPacket_session [OF that(2,3)]
    by (auto simp: in_session_def)
  show ?thesis
  proof (cases "mc_status c = TCP_CLIENT_CONNECTING")
    case True
    then obtain c2 where c2: "read_handshake L r ok c = Ok c2" "doReadPacket L r ok c2 = Ok c1"
      using assms(2) by (auto simp: doReadPacket.simps [of L r ok c] read_step_def split: res.splits)
    then show ?thesis using read_handshake_wire [OF assms(1) True c2(1) assms(3)] session [of c2 c1] by simp
  next
    case False
    then have "in_session c" using assms(2) by (auto simp: doReadPacket.simps [of L r ok c] read_step_def in_session_def split: if_splits)
    then show ?thesis using session assms(1,2) by blast
  qed
qed

lemma write_turn_wire:
  assumes "wire_ok nb hs n c" "doWriteConn_turn L i ok c = Some (Ok c1)" "nb = cl_nacl L"
  shows "wire_ok nb hs n c1"
proof -
  obtain item q where g: "pq_Get si_Prior i (mc_sendq c) = Some (item, q)"
    using assms(2) by (auto simp: doWriteConn_turn_def split: option.splits)
  then have "mc_sendq c \<noteq> []" using pq_Get_Some(2) by fastforce
  then have st: "mc_status c \<noteq> TCP_CLIENT_CONNECTING" using assms(1) by (auto simp: wire_ok_def)
  obtain ips k where w: "mc_wrote c = hs @ sent_at nb (mc_Shrkey c) n ips" "sorted_wrt (<) (map fst ips)"
    "list_all (\<lambda>(i, p). i < k) ips" "mc_SentNonce c = (Incr2 ^^ k) n"
    using assms(1) by (auto simp: wire_ok_def)
  obtain w c2 where c2: "WritePacket nb ok (si_Value item) (c\<lparr>mc_sendq := q\<rparr>) = (Ok w, c2)" and
    c1: "c1 = (case w of Some wn \<Rightarrow> callback (NetSent wn) c2 | None \<Rightarrow> c2\<lparr>mc_writing := False, mc_conn := Closed_conn\<rparr>)"
    using assms(2,3) g by (auto simp: doWriteConn_turn_def split: prod.splits res.splits option.splits)
  show ?thesis
  proof (cases w)
    case None
    then have "c2 = c\<lparr>mc_sendq := q\<rparr>" using c2 by (auto simp: WritePacket_def conn_Write_def split: res.splits if_splits)
    then show ?thesis using wire_ok_same [OF assms(1), of c1] c1 None st by (simp add: same_wire_def)
  next
    case (Some wn)
    obtain e where e: "CreatePacket nb (si_Value item) (c\<lparr>mc_sendq := q\<rparr>) = Ok e"
      "c2 = c\<lparr>mc_sendq := q, mc_wrote := mc_wrote c @ e, mc_SentNonce := Incr2 (mc_SentNonce c)\<rparr>"
      using c2 Some by (auto simp: WritePacket_def conn_Write_def split: res.splits if_splits)
    have "mc_wrote c2 = hs @ sent_at nb (mc_Shrkey c) n (ips @ [(k, si_Value item)])"
      using e(2) CreatePacket_Ok [OF e(1)] w(1,4) by (simp add: sent_at_def Let_def)
    moreover have "sorted_wrt (<) (map fst (ips @ [(k, si_Value item)]))"
      using w(2,3) by (auto simp: sorted_wrt_append list_all_iff)
    moreover have "list_all (\<lambda>(i, p). i < Suc k) (ips @ [(k, si_Value item)])"
      using w(3) by (auto simp: list_all_iff less_Suc_eq)
    moreover have "mc_SentNonce c2 = (Incr2 ^^ Suc k) n" using e(2) w(4) by simp
    moreover have "mc_Shrkey c2 = mc_Shrkey c" "mc_status c2 = mc_status c" using e(2) by simp_all
    ultimately have "wire_ok nb hs n c2" unfolding wire_ok_def using st by metis
    then show ?thesis using wire_ok_same [of nb hs n c2 c1] c1 Some st e(2) by simp
  qed
qed

lemma SendCtrl_wire: "wire_ok nb hs n c \<Longrightarrow> wire_ok nb hs n (snd (SendCtrlPacket ru d c))"
  using SendCtrl_same(2) [of c ru d] by (auto elim!: wire_ok_same [OF _ SendCtrl_same(1)])

lemma client_step_wire:
  assumes "client_step L c c1" "wire_ok nb hs n c" "nb = cl_nacl L"
  shows "wire_ok nb hs n c1"
  using assms(1,2)
proof (induction rule: client_step.induct)
  case (read_data c rdbuf r ok c1)
  let ?c = "callback (NetRecv (length rdbuf)) c"
  have "wire_ok nb hs n (?c\<lparr>mc_crbuf := mc_crbuf c @ rdbuf\<rparr>)"
    using read_data(6) by (rule wire_ok_same) (auto simp: same_wire_def callback_def split: if_splits)
  then show ?case
    using read_data(5) assms(3) by (auto simp: doReadConn_data_def Let_def intro: doReadPacket_wire split: if_splits)
next
  case (write_item c i ok c1)
  then show ?case using write_turn_wire assms(3) by blast
next
  case (ping c r)
  then show ?case
    using SendCtrl_same [of "c\<lparr>mc_PingRequestId := if r = 0 then 1 else r\<rparr>"]
    by (intro wire_ok_same [OF ping(2)]) (auto simp: doPing_turn_def MakePingPacket2_def same_wire_def Let_def)
next
  case (connect_peer pubkey c b c1)
  then have "c1 = c \<or> (\<exists>d. c1 = snd (SendCtrlPacket (cl_rudp L) d c))"
    by (auto simp: ConnectPeer_def SendRoutingRequest_def split: if_splits res.splits) (metis snd_conv)
  then show ?case using SendCtrl_same [of c] by (intro wire_ok_same [OF connect_peer(2)]) auto
next
  case (send_data connid data prior c b c1)
  then show ?case
    by (intro wire_ok_same [OF send_data(2)]) (auto simp: SendDataPacket_def implSendPacket_def same_wire_def split: if_splits)
next
  case (ending c)
  have "same_wire c (mainproc_end c)" "mc_status (mainproc_end c) = TCP_CLIENT_DISCONNECTED"
    by (simp_all add: mainproc_end_def same_wire_def callback_def)
  then show ?case using wire_ok_same [OF ending(5), of "mainproc_end c"] by simp
next
  case (eof c)
  then show ?case by (intro wire_ok_same [OF eof(3)]) (simp_all add: doReadConn_EOF_def same_wire_def)
next
  case (read_error c)
  then show ?case by (intro wire_ok_same [OF read_error(2)]) (simp_all add: doReadConn_error_def same_wire_def)
next
  case (send_oob c pubkey data)
  then show ?case unfolding SendOOBPacket_def by (rule SendCtrl_wire)
next
  case (send_connect c connid)
  then show ?case unfolding SendConnectNotification_def by (rule SendCtrl_wire)
next
  case (send_disconnect c connid)
  then show ?case unfolding SendDisconnectNotification_def by (rule SendCtrl_wire)
next
  case (send_onion c data)
  then show ?case unfolding SendOnionRequest_def by (rule SendCtrl_wire)
next
  case (close_conn c)
  then show ?case by (intro wire_ok_same [OF close_conn]) (simp_all add: Close_def same_wire_def split: if_splits)
qed

lemma client_steps_wire:
  "(client_step L)\<^sup>*\<^sup>* c c1 \<Longrightarrow> wire_ok (cl_nacl L) hs n c \<Longrightarrow> wire_ok (cl_nacl L) hs n c1"
  by (induction rule: rtranclp_induct) (auto intro: client_step_wire)

section \<open>Keys through text\<close>

lemma hex_value_upper:
  "n < 16 \<Longrightarrow> hex_value (let m = of_char (hex_digit n) :: nat in if 97 \<le> m \<and> m \<le> 122 then char_of (m - 32) else hex_digit n) = Some n"
  by (auto simp: hex_value_def hex_digit_def Let_def)

lemma hex_prefix_ToHex [simp]: "hex_prefix (ToHex b) = b"
proof (induction b)
  case (Cons x b)
  have d: "unat x div 16 < 16" "unat x mod 16 < 16" using less_mult_imp_div_less [of "unat x" 16 16] by auto
  have "ToHex (x # b) = (let m = of_char (hex_digit (unat x div 16)) :: nat in if 97 \<le> m \<and> m \<le> 122 then char_of (m - 32) else hex_digit (unat x div 16)) #
      (let m = of_char (hex_digit (unat x mod 16)) :: nat in if 97 \<le> m \<and> m \<le> 122 then char_of (m - 32) else hex_digit (unat x mod 16)) # ToHex b"
    by (simp add: ToHex_def hex_encode_def)
  then show ?case
    using Cons hex_value_upper [OF d(1)] hex_value_upper [OF d(2)] by (simp add: div_mult_mod_eq mult.commute)
qed (simp add: ToHex_def hex_encode_def)

lemma NewTCPClient_Ok:
  assumes "NewTCPClient nb h spk pk sk = Ok c"
  shows "mc_SelfPubkey c = pk" "mc_Shrkey c = nb_Precompute nb spk sk" "mc_wrote c = []" "length pk = 32" "length sk = 32"
    "mc_handlers c = h" "mc_calls c = []" "mc_conns c = NewBiMap" "mc_PingRequestId c = 0"
  using assms
  by (auto simp: NewTCPClient_def SetKeyPair_def NewCryptoKeyFromHex_def CBBeforeNm_def Let_def split: if_splits)

lemma NewTCPClient_total:
  "length pk = 32 \<Longrightarrow> length sk = 32 \<Longrightarrow> \<exists>c. NewTCPClient nb h spk pk sk = Ok c"
  by (simp add: NewTCPClient_def SetKeyPair_def NewCryptoKeyFromHex_def Let_def)

text \<open>The handshake packet, after a successful dial.\<close>

lemma doinit_packet:
  assumes "doinit nb tpk tsk sn tn True True c = Ok c1" "mc_wrote c = []"
  shows "mc_wrote c1 = mc_SelfPubkey c @ tn @ nb_Seal nb (mc_Shrkey c) tn (tpk @ sn)" "mc_status c1 = TCP_CLIENT_CONNECTING"
    "mc_SentNonce c1 = sn" "mc_sendq c1 = []" "mc_Shrkey c1 = mc_Shrkey c" "mc_TempSeckey c1 = Some tsk" "mc_conn c1 = Open_conn"
    "mc_crbuf c1 = []" "mc_handlers c1 = mc_handlers c" "mc_reading c1" "mc_calls c1 = mc_calls c" "mc_pinging c1 = mc_pinging c"
    "mc_writing c1" "\<not> mc_disposed c1" "\<not> mc_done c1"
  using assms
  by (auto simp: doinit_def connect_def SendHandshake_def GenerateHandshake_def EncryptDataSymmetric_def conn_Write_def Let_def
      split: res.splits if_splits)

section \<open>The end of the stream\<close>

text \<open>After the end of the stream with nothing to write: the reader has stopped, the writer waits for a packet, and no
  call can put one into the queue any more.\<close>

definition stuck :: "TCPClient \<Rightarrow> bool" where
  "stuck c \<longleftrightarrow> mc_status c = TCP_CLIENT_DISCONNECTED \<and> \<not> mc_reading c \<and> mc_writing c \<and> mc_sendq c = [] \<and> \<not> mc_done c"

lemma SendCtrl_stuck: "mc_status c \<noteq> TCP_CLIENT_CONFIRMED \<Longrightarrow> snd (SendCtrlPacket ru d c) = c"
  by (simp add: SendCtrlPacket_def)

lemma client_step_stuck:
  assumes "client_step L c c1" "stuck c"
  shows "stuck c1 \<and> mc_calls c1 = mc_calls c \<and> mc_pinging c1 = mc_pinging c"
  using assms
proof (induction rule: client_step.induct)
  case (write_item c i ok c1)
  then show ?case by (auto simp: stuck_def doWriteConn_turn_def pq_Get_def least_at_def)
next
  case (ping c r)
  then show ?case
    using SendCtrl_stuck [of "c\<lparr>mc_PingRequestId := if r = 0 then 1 else r\<rparr>"]
    by (simp add: doPing_turn_def MakePingPacket2_def stuck_def Let_def)
next
  case (connect_peer pubkey c b c1)
  then show ?case by (auto simp: ConnectPeer_def stuck_def split: if_splits)
next
  case (send_data connid data prior c b c1)
  then show ?case by (auto simp: SendDataPacket_def stuck_def split: if_splits)
qed (auto simp: stuck_def Close_def SendOOBPacket_def SendConnectNotification_def SendDisconnectNotification_def SendOnionRequest_def SendCtrl_stuck)

lemma client_steps_stuck:
  "(client_step L)\<^sup>*\<^sup>* c c1 \<Longrightarrow> stuck c \<Longrightarrow> stuck c1 \<and> mc_calls c1 = mc_calls c \<and> mc_pinging c1 = mc_pinging c"
  by (induction rule: rtranclp_induct) (auto dest: client_step_stuck)

end
