(* ===== verification/Mintox_Session.thy ===== *)
theory Mintox_Session
  imports Mintox_Client Dht_Service
begin

text \<open>
  The TCP relay client and the TCP relay server of \<^verbatim>\<open>mintox\<close> together, and what holds of the client in every run.
\<close>

section \<open>The client reads\<close>

lemma client_reads_reply:
  assumes "box_ok (cl_nacl L)" "mc_status c = TCP_CLIENT_CONNECTING" "mc_TempSeckey c = Some tsk" "mc_conn c = Open_conn"
    and "length tn = 24" "length upk = 32" "length rn = 24" "length (mc_SentNonce c) = 24" "r \<noteq> 0"
    and "mc_crbuf c = tn @ nb_Seal (cl_nacl L) (mc_Shrkey c) tn (upk @ rn)"
  shows "doReadPacket L r True c = Ok (c\<lparr>mc_crbuf := [], mc_RecvNonce := rn, mc_Shrkey := nb_Precompute (cl_nacl L) upk tsk,
    mc_TempSeckey := None, mc_PingRequestId := r,
    mc_wrote := mc_wrote c @ frames (cl_nacl L) (nb_Precompute (cl_nacl L) upk tsk) (mc_SentNonce c) [4 # put_u64 r],
    mc_SentNonce := incrNonce (mc_SentNonce c), mc_status := TCP_CLIENT_UNCONFIRMED\<rparr>)" (is "_ = Ok ?c")
proof -
  let ?nb = "cl_nacl L"
  have len: "length (nb_Seal ?nb (mc_Shrkey c) tn (upk @ rn)) = 72" using box_okD(2) [OF assms(1)] assms(6,7) by simp
  have buf: "take 96 (mc_crbuf c) = mc_crbuf c" "drop 96 (mc_crbuf c) = []" "length (mc_crbuf c) = 96"
    using assms(5,10) len by simp_all
  have hs: "HandleHandshake ?nb (mc_crbuf c) (c\<lparr>mc_crbuf := []\<rparr>) =
      Ok (c\<lparr>mc_crbuf := [], mc_RecvNonce := rn, mc_Shrkey := nb_Precompute ?nb upk tsk, mc_TempSeckey := None\<rparr>)"
    using assms(3,5-7,10) len DecryptDataSymmetric_ok [OF assms(1)]
    by (simp add: HandleHandshake_def NewCBNonce_def CBBeforeNm_def)
  have "read_handshake L r True c = Ok ?c"
    using buf hs assms(4,8,9) EncryptDataSymmetric_ok [OF assms(1)]
    by (simp add: read_handshake_def CreatePingPacket_def MakePingPacket2_def CreatePacket_def conn_Write_def
        Incr2_incrNonce Let_def)
  then have "read_step L r True c = Ok (True, ?c)" using assms(2) by (simp add: read_step_def)
  moreover have "doReadPacket L r True ?c = Ok ?c" by (rule doReadPacket_idle) (simp_all add: in_session_def)
  ultimately show ?thesis by (simp add: doReadPacket.simps [of L r True c])
qed

lemma client_reads_pong:
  assumes "box_ok (cl_nacl L)" "gopp_ok (cl_gopp L)" "mc_status c = TCP_CLIENT_UNCONFIRMED" "length (mc_RecvNonce c) = 24"
    and "mc_handlers c Confirmed"
    and "mc_crbuf c = frames (cl_nacl L) (mc_Shrkey c) (mc_RecvNonce c) [5 # put_u64 (mc_PingRequestId c)]"
  shows "doReadPacket L r ok c = Ok (c\<lparr>mc_crbuf := [], mc_RecvNonce := incrNonce (mc_RecvNonce c), mc_PingRequestId := 0,
    mc_status := TCP_CLIENT_CONFIRMED, mc_pinging := True, mc_calls := mc_calls c @ [Confirmed]\<rparr>)" (is "_ = Ok ?c")
proof -
  let ?p = "5 # put_u64 (mc_PingRequestId c)"
  let ?s = "nb_Seal (cl_nacl L) (mc_Shrkey c) (mc_RecvNonce c) ?p"
  let ?f = "put_u16 (of_nat (length ?s)) @ ?s"
  have f: "next_frame c = Some (?f, c\<lparr>mc_crbuf := []\<rparr>)"
    using assms(6) by (intro next_frame_sealed [OF assms(1)]) simp_all
  have "gp_RBufAt (cl_gopp L) ?p 1 = Some (put_u64 (mc_PingRequestId c))"
    using assms(2) unfolding gopp_ok_def by (metis One_nat_def drop0 drop_Suc_Cons length_Cons le_add1 of_nat_1 plus_1_eq_Suc)
  then have "pong_id (cl_gopp L) ?p = Some (mc_PingRequestId c)" by (simp add: pong_id_def)
  then have "confirm L ?f (c\<lparr>mc_crbuf := []\<rparr>) = Ok ?c"
    using Unpacket_sealed [OF assms(1), of "of_nat (length ?s)" "c\<lparr>mc_crbuf := []\<rparr>" ?p] assms(4,5)
    by (simp add: confirm_def HandlePingResponse_def callback_def Incr2_incrNonce Let_def)
  then have "read_step L r ok c = Ok (True, ?c)" using assms(3) f by (simp add: read_step_def)
  moreover have "doReadPacket L r ok ?c = Ok ?c" by (rule doReadPacket_idle) (simp_all add: in_session_def)
  ultimately show ?thesis by (simp add: doReadPacket.simps [of L r ok c])
qed

section \<open>The server answers\<close>

definition deliver :: "nat \<Rightarrow> bytes \<Rightarrow> TCPServer \<Rightarrow> TCPServer" where
  "deliver i w srv = upd_conn i (\<lambda>c. c\<lparr>sc_crbuf := sc_crbuf c @ w\<rparr>) srv"

abbreviation greeted :: "nacl \<Rightarrow> bytes \<Rightarrow> bytes \<Rightarrow> bytes \<Rightarrow> bytes \<Rightarrow> bytes \<Rightarrow> bytes \<Rightarrow> TCPSecureConn" where
  "greeted nb ssk cpk shr sn rn w \<equiv> (NewTCPSecureConn ssk)\<lparr>sc_Pubkey := Some cpk, sc_Shrkey := shr, sc_RecvNonce := sn,
     sc_SentNonce := rn, sc_wrote := w, sc_Status := TCP_STATUS_UNCONFIRMED\<rparr>"

lemma server_answers_handshake:
  assumes "box_ok nb" "dh_ok nb base" "length ssk = 32" "length csk = 32" "length tsk = 32" "length usk = 32"
    and "length sn = 24" "length inn = 24" "length rn = 24" "length tn = 24"
    and "ts_store srv i = Some (NewTCPSecureConn ssk)"
  shows "doReadPacket_turn nb (rn, tn, base usk, usk) order i
     (deliver i (base csk @ inn @ nb_Seal nb (nb_Precompute nb (base ssk) csk) inn (base tsk @ sn)) srv) =
    Ok (True, upd_conn i (\<lambda>_. greeted nb ssk (base csk) (nb_Precompute nb (base usk) tsk) sn rn
       (tn @ nb_Seal nb (nb_Precompute nb (base ssk) csk) tn (base usk @ rn))) srv)" (is "doReadPacket_turn _ _ _ _ ?srv = Ok (True, upd_conn i (\<lambda>_. ?c) srv)")
proof -
  let ?shr = "nb_Precompute nb (base ssk) csk"
  let ?pkt = "base csk @ inn @ nb_Seal nb ?shr inn (base tsk @ sn)"
  have dh: "nb_Precompute nb (base csk) ssk = ?shr" "length (base csk) = 32" "length (base tsk) = 32" "length (base usk) = 32"
    "nb_Precompute nb (base usk) tsk = nb_Precompute nb (base tsk) usk"
    using assms(2-6) by (auto simp: dh_ok_def)
  have len: "length (nb_Seal nb ?shr inn (base tsk @ sn)) = 72" using box_okD(2) [OF assms(1)] dh(3) assms(7) by simp
  have st: "ts_store ?srv i = Some ((NewTCPSecureConn ssk)\<lparr>sc_crbuf := ?pkt\<rparr>)"
    using assms(11) by (simp add: deliver_def NewTCPSecureConn_def)
  have rd: "read_frame ((NewTCPSecureConn ssk)\<lparr>sc_crbuf := ?pkt\<rparr>) = Ok (Some ?pkt, NewTCPSecureConn ssk)"
    using len dh(2) assms(8) by (intro Tcp_Session.read_handshake) simp
  have "Tcp_Server.HandleHandshake nb rn tn (base usk) usk ?pkt (NewTCPSecureConn ssk) =
      Ok (?c\<lparr>sc_Status := TCP_STATUS_NO_STATUS\<rparr>)"
    using len dh assms(7-9) DecryptDataSymmetric_ok [OF assms(1)] EncryptDataSymmetric_ok [OF assms(1)]
    by (simp add: Tcp_Server.HandleHandshake_def NewTCPSecureConn_def CBBeforeNm_def Let_def)
  then have "doReadPacket_turn nb (rn, tn, base usk, usk) order i ?srv = Ok (True, upd_conn i (\<lambda>_. ?c) ?srv)"
    using st rd by (simp add: doReadPacket_turn_def NewTCPSecureConn_def)
  moreover have "upd_conn i (\<lambda>_. ?c) ?srv = upd_conn i (\<lambda>_. ?c) srv" by (simp add: deliver_def upd_conn_def option.map_comp o_def)
  ultimately show ?thesis by simp
qed

lemma server_confirms:
  assumes "box_ok nb" "ts_store srv i = Some s" "s = greeted nb ssk cpk shr sn rn w" "length sn = 24" "length rn = 24"
    and "ts_Conns srv cpk = None" "length pid = 8"
  shows "\<exists>srv1 s1 s2. doReadPacket_turn nb fresh order i (deliver i (frames nb shr sn [4 # pid]) srv) = Ok (True, srv1) \<and>
    ts_store srv1 i = Some s1 \<and> sc_Status s1 = TCP_STATUS_CONFIRMED \<and> ts_Conns srv1 cpk = Some i \<and>
    writeLoop_turn nb True ctrl s1 = (Ok True, s2) \<and> sc_wrote s2 = w @ frames nb shr rn [5 # pid] \<and> sc_Shrkey s2 = shr \<and>
    sc_RecvNonce s2 = incrNonce sn \<and> sc_SentNonce s2 = incrNonce rn"
proof -
  define fr where "fr = frames nb shr sn [4 # pid]"
  define s2 where "s2 = s\<lparr>sc_RecvNonce := incrNonce sn\<rparr>"
  define s3 where "s3 = s2\<lparr>sc_cwctrlq := [5 # pid], sc_Status := TCP_STATUS_CONFIRMED\<rparr>"
  have f: "sc_Status s = TCP_STATUS_UNCONFIRMED" "sc_nxtpktlen s = 0" "sc_Shrkey s = shr" "sc_RecvNonce s = sn"
    "sc_crbuf s = []" "sc_cwctrlq s = []" "sc_cwdataq s = []" "sc_SentNonce s = rn" "sc_wrote s = w" "sc_Pubkey s = Some cpk"
    using assms(3) by (simp_all add: NewTCPSecureConn_def)
  have st: "ts_store (deliver i fr srv) i = Some (s\<lparr>sc_crbuf := fr\<rparr>)" using assms(2) f(5) by (simp add: deliver_def)
  have "(s\<lparr>sc_crbuf := fr\<rparr>)\<lparr>sc_crbuf := [], sc_RecvNonce := incrNonce sn\<rparr> = s2" using f(5) by (cases s) (simp add: s2_def)
  then obtain buf c1 where rd: "read_frame (s\<lparr>sc_crbuf := fr\<rparr>) = Ok (Some buf, c1)" "Tcp_Server.Unpacket nb buf c1 = (Ok (4 # pid), s2)"
    using server_opens_frame [OF assms(1), of "s\<lparr>sc_crbuf := fr\<rparr>" sn "4 # pid" "[]"] f assms(4,7) by (auto simp: fr_def)
  have pong: "(Tcp_Server.HandlePingRequest (4 # pid) s2)\<lparr>sc_Status := TCP_STATUS_CONFIRMED\<rparr> = s3"
    using assms(7) f(6) by (simp add: Tcp_Server.HandlePingRequest_def Tcp_Server.SendCtrlPacket_def s2_def s3_def)
  define srv2 where "srv2 = upd_conn i (\<lambda>_. s3) (deliver i fr srv)"
  have turn: "doReadPacket_turn nb fresh order i (deliver i fr srv) = Ok (True, onConnConfirmed i srv2)"
    using st rd f(1) by (simp add: doReadPacket_turn_def pong srv2_def)
  have conns: "ts_Conns srv2 cpk = None" "ts_store srv2 i = Some s3"
    using assms(2,6) by (simp_all add: srv2_def deliver_def upd_conn_def)
  have "sc_Pubkey s3 = Some cpk" using f(10) by (simp add: s2_def s3_def)
  then have "onConnConfirmed i srv2 = srv2\<lparr>ts_HSConns := ts_HSConns srv2 - {i}, ts_Conns := (ts_Conns srv2)(cpk \<mapsto> i)\<rparr>"
    using conns by (simp add: onConnConfirmed_def Let_def)
  then have c: "ts_store (onConnConfirmed i srv2) i = Some s3" "ts_Conns (onConnConfirmed i srv2) cpk = Some i"
    using conns by simp_all
  have wr: "writeLoop_turn nb True ctrl s3 = Tcp_Server.WritePacket nb True (5 # pid) (s3\<lparr>sc_cwctrlq := []\<rparr>)"
    using f(7) by (simp add: writeLoop_turn_def s2_def s3_def)
  have "Tcp_Server.WritePacket nb True (5 # pid) (s3\<lparr>sc_cwctrlq := []\<rparr>) = (Ok True, s3\<lparr>sc_cwctrlq := [],
      sc_wrote := w @ frames nb shr rn [5 # pid], sc_SentNonce := incrNonce rn\<rparr>)"
    using WritePacket_frame [OF assms(1), of "5 # pid" "s3\<lparr>sc_cwctrlq := []\<rparr>"] f(3,8,9) assms(5,7) by (simp add: s2_def s3_def)
  moreover have "sc_Status s3 = TCP_STATUS_CONFIRMED" "sc_Shrkey s3 = shr" "sc_RecvNonce s3 = incrNonce sn"
    using f(3) by (simp_all add: s2_def s3_def)
  ultimately show ?thesis using turn c wr unfolding fr_def by auto
qed

lemma doinit_total:
  assumes "box_ok nb" "length (mc_SelfPubkey c) = 32" "length tpk = 32" "length sn = 24" "length tn = 24"
  shows "\<exists>c1. doinit nb tpk tsk sn tn True True c = Ok c1"
  using assms box_okD(2) [OF assms(1)] EncryptDataSymmetric_ok [OF assms(1)] DecryptDataSymmetric_ok [OF assms(1)]
  by (simp add: doinit_def connect_def SendHandshake_def GenerateHandshake_def Let_def)

text \<open>A client for the examples.\<close>

definition demo_rudp :: rudp where
  "demo_rudp = \<lparr>rd_Copy = (\<lambda>d. d), rd_PPU8 = (#)\<rparr>"

definition demo_libs :: client_lib where
  "demo_libs = \<lparr>cl_nacl = demo_box, cl_gopp = demo_gopp, cl_rudp = demo_rudp\<rparr>"

lemma demo_libs_ok: "box_ok (cl_nacl demo_libs)" "dh_ok (cl_nacl demo_libs) (\<lambda>a. a)" "gopp_ok (cl_gopp demo_libs)" "rudp_ok (cl_rudp demo_libs)"
  using demo_box_ok demo_dh_ok demo_gopp_ok by (simp_all add: demo_libs_def demo_rudp_def rudp_ok_def)

lemma demo_start:
  obtains c0 c1 where
    "NewTCPClient (cl_nacl demo_libs) (\<lambda>_. True) (replicate 32 1) (replicate 32 2) (replicate 32 2) = Ok c0"
    "doinit (cl_nacl demo_libs) (replicate 32 3) (replicate 32 3) (replicate 24 4) (replicate 24 5) True True c0 = Ok c1"
proof -
  obtain c0 where c0: "NewTCPClient (cl_nacl demo_libs) (\<lambda>_. True) (replicate 32 1) (replicate 32 2) (replicate 32 2) = Ok c0"
    using NewTCPClient_total [of "replicate 32 2" "replicate 32 2"] by fastforce
  obtain c1 where "doinit (cl_nacl demo_libs) (replicate 32 3) (replicate 32 3) (replicate 24 4) (replicate 24 5) True True c0 = Ok c1"
    using doinit_total [OF demo_libs_ok(1)] NewTCPClient_Ok(1,4) [OF c0] by fastforce
  with c0 show ?thesis by (rule that)
qed

definition demo_confirmed :: "(nat \<times> bytes) list \<Rightarrow> TCPClient" where
  "demo_confirmed q = \<lparr>mc_status = TCP_CLIENT_CONFIRMED, mc_SelfPubkey = [], mc_SelfSeckey = [], mc_ServPubkey = [],
     mc_Shrkey = [1], mc_TempSeckey = None, mc_SentNonce = replicate 24 1, mc_RecvNonce = replicate 24 2, mc_TempNonce = [],
     mc_PingRequestId = 0, mc_conn = Open_conn, mc_wrote = [], mc_crbuf = [], mc_sendq = map (\<lambda>(p, v). \<lparr>si_Value = v, si_Prior = p\<rparr>) q,
     mc_disposed = False, mc_conns = NewBiMap, mc_handlers = (\<lambda>e. case e of NetRecv _ \<Rightarrow> False | _ \<Rightarrow> True), mc_calls = [],
     mc_pinging = True, mc_reading = True, mc_writing = True, mc_done = False\<rparr>"

section \<open>Properties\<close>

text \<open>C13: A client of \<^verbatim>\<open>mintox\<close> that dials a server of \<^verbatim>\<open>mintox\<close> gets a confirmed connection on both sides: the handshake packet, the
  reply, the first ping and its pong each take one turn of the reader that gets them; the server then has the client
  in its table under the client's key, the client has called \<^verbatim>\<open>OnConfirmed\<close>, both have the same session key, and
  each side's sending nonce is the other side's receiving nonce.\<close>

theorem connection_gets_confirmed:
  assumes "box_ok (cl_nacl L)" "dh_ok (cl_nacl L) base" "gopp_ok (cl_gopp L)"
    and "length ssk = 32" "length csk = 32" "length tsk = 32" "length usk = 32"
    and "length sn = 24" "length tn = 24" "length rn = 24" "length un = 24" "r \<noteq> 0" "h Confirmed"
    and "NewTCPClient (cl_nacl L) h (base ssk) (base csk) csk = Ok c0"
    and "doinit (cl_nacl L) (base tsk) tsk sn tn True True c0 = Ok c1"
    and "ts_store srv i = Some (NewTCPSecureConn ssk)" "ts_Conns srv (base csk) = None"
  shows "\<exists>srv1 s1 c2 ping srv2 s2 s3 pong c3.
    doReadPacket_turn (cl_nacl L) (rn, un, base usk, usk) order i (deliver i (mc_wrote c1) srv) = Ok (True, srv1) \<and>
    ts_store srv1 i = Some s1 \<and>
    doReadPacket L r True (more (sc_wrote s1) c1) = Ok c2 \<and> mc_wrote c2 = mc_wrote c1 @ ping \<and>
    doReadPacket_turn (cl_nacl L) fresh order i (deliver i ping srv1) = Ok (True, srv2) \<and>
    ts_store srv2 i = Some s2 \<and> sc_Status s2 = TCP_STATUS_CONFIRMED \<and> ts_Conns srv2 (base csk) = Some i \<and>
    writeLoop_turn (cl_nacl L) True ctrl s2 = (Ok True, s3) \<and> sc_wrote s3 = sc_wrote s1 @ pong \<and>
    doReadPacket L r2 ok (more pong c2) = Ok c3 \<and> mc_status c3 = TCP_CLIENT_CONFIRMED \<and> mc_calls c3 = [Confirmed] \<and>
    mc_Shrkey c3 = sc_Shrkey s3 \<and> mc_SentNonce c3 = sc_RecvNonce s3 \<and> mc_RecvNonce c3 = sc_SentNonce s3"
proof -
  let ?nb = "cl_nacl L"
  let ?shr = "nb_Precompute ?nb (base ssk) csk"
  let ?key = "nb_Precompute ?nb (base usk) tsk"
  let ?reply = "un @ nb_Seal ?nb ?shr un (base usk @ rn)"
  define s1 where "s1 = greeted ?nb ssk (base csk) ?key sn rn ?reply"
  define srv1 where "srv1 = upd_conn i (\<lambda>_. s1) srv"
  note c0 = NewTCPClient_Ok [OF assms(14)]
  note c1 = doinit_packet [OF assms(15) c0(3)]
  have dh: "length (base usk) = 32" using assms(2,7) by (auto simp: dh_ok_def)
  have t1: "doReadPacket_turn ?nb (rn, un, base usk, usk) order i (deliver i (mc_wrote c1) srv) = Ok (True, srv1)"
    unfolding c1(1) c0(1,2) srv1_def s1_def by (rule server_answers_handshake [OF assms(1,2,4-9) assms(10,11,16)])
  have s1: "ts_store srv1 i = Some s1" "sc_wrote s1 = ?reply" "ts_Conns srv1 (base csk) = None"
    using assms(16,17) by (simp_all add: srv1_def s1_def)
  define c2 where "c2 = (more ?reply c1)\<lparr>mc_crbuf := [], mc_RecvNonce := rn, mc_Shrkey := ?key, mc_TempSeckey := None,
    mc_PingRequestId := r, mc_wrote := mc_wrote c1 @ frames ?nb ?key sn [4 # put_u64 r], mc_SentNonce := incrNonce sn,
    mc_status := TCP_CLIENT_UNCONFIRMED\<rparr>"
  have t2: "doReadPacket L r True (more ?reply c1) = Ok c2"
    using client_reads_reply [OF assms(1), of "more ?reply c1" tsk un "base usk" rn r] c1 c0(2) assms(8,10-12) dh
    by (simp add: c2_def more_def)
  have c2: "mc_wrote c2 = mc_wrote c1 @ frames ?nb ?key sn [4 # put_u64 r]" "mc_crbuf c2 = []" "mc_Shrkey c2 = ?key"
    "mc_RecvNonce c2 = rn" "mc_PingRequestId c2 = r" "mc_status c2 = TCP_CLIENT_UNCONFIRMED" "mc_handlers c2 = h"
    "mc_calls c2 = []" "mc_SentNonce c2 = incrNonce sn"
    using c0(6,7) c1(9,11) by (simp_all add: c2_def more_def)
  obtain srv2 s2 s3 where t3: "doReadPacket_turn ?nb fresh order i (deliver i (frames ?nb ?key sn [4 # put_u64 r]) srv1) = Ok (True, srv2)"
    "ts_store srv2 i = Some s2" "sc_Status s2 = TCP_STATUS_CONFIRMED" "ts_Conns srv2 (base csk) = Some i"
    "writeLoop_turn ?nb True ctrl s2 = (Ok True, s3)" "sc_wrote s3 = ?reply @ frames ?nb ?key rn [5 # put_u64 r]"
    "sc_Shrkey s3 = ?key" "sc_RecvNonce s3 = incrNonce sn" "sc_SentNonce s3 = incrNonce rn"
    using server_confirms [OF assms(1) s1(1) s1_def assms(8,10) s1(3), of "put_u64 r" fresh order ctrl] by auto
  define c3 where "c3 = (more (frames ?nb ?key rn [5 # put_u64 r]) c2)\<lparr>mc_crbuf := [], mc_RecvNonce := incrNonce rn, mc_PingRequestId := 0,
    mc_status := TCP_CLIENT_CONFIRMED, mc_pinging := True, mc_calls := [Confirmed]\<rparr>"
  have t4: "doReadPacket L r2 ok (more (frames ?nb ?key rn [5 # put_u64 r]) c2) = Ok c3"
    using client_reads_pong [OF assms(1,3), of "more (frames ?nb ?key rn [5 # put_u64 r]) c2" r2 ok] c2 assms(10,13)
    by (simp add: c3_def more_def)
  have c3: "mc_status c3 = TCP_CLIENT_CONFIRMED" "mc_calls c3 = [Confirmed]" "mc_Shrkey c3 = ?key" "mc_SentNonce c3 = incrNonce sn"
    "mc_RecvNonce c3 = incrNonce rn"
    using c2 by (simp_all add: c3_def more_def)
  show ?thesis
    by (rule exI [of _ srv1], rule exI [of _ s1], rule exI [of _ c2], rule exI [of _ "frames ?nb ?key sn [4 # put_u64 r]"],
        rule exI [of _ srv2], rule exI [of _ s2], rule exI [of _ s3], rule exI [of _ "frames ?nb ?key rn [5 # put_u64 r]"],
        rule exI [of _ c3]) (use t1 s1 t2 c2(1) t3 t4 c3 in \<open>simp del: frames.simps\<close>)
qed

theorem connection_gets_confirmed_witness:
  "\<exists>c1 srv1 s1 c2 c3 pong. doReadPacket_turn demo_box (replicate 24 6, replicate 24 7, replicate 32 8, replicate 32 8) all_ids 9
      (deliver 9 (mc_wrote c1) (demo_server\<lparr>ts_store := [9 \<mapsto> NewTCPSecureConn (replicate 32 1)], ts_Conns := Map.empty\<rparr>)) = Ok (True, srv1) \<and>
    ts_store srv1 9 = Some s1 \<and> doReadPacket demo_libs 10 True (more (sc_wrote s1) c1) = Ok c2 \<and>
    doReadPacket demo_libs 11 True (more pong c2) = Ok c3 \<and> mc_status c3 = TCP_CLIENT_CONFIRMED"
proof -
  let ?srv = "demo_server\<lparr>ts_store := [9 \<mapsto> NewTCPSecureConn (replicate 32 1)], ts_Conns := Map.empty\<rparr>"
  obtain c0 c1 where start:
    "NewTCPClient (cl_nacl demo_libs) (\<lambda>_. True) (replicate 32 1) (replicate 32 2) (replicate 32 2) = Ok c0"
    "doinit (cl_nacl demo_libs) (replicate 32 3) (replicate 32 3) (replicate 24 4) (replicate 24 5) True True c0 = Ok c1"
    by (rule demo_start)
  note t = connection_gets_confirmed [OF demo_libs_ok(1-3), of "replicate 32 1" "replicate 32 2" "replicate 32 3" "replicate 32 8"
      "replicate 24 4" "replicate 24 5" "replicate 24 6" "replicate 24 7" 10 "\<lambda>_. True" c0 c1 ?srv 9 all_ids _ True 11 True]
  have "cl_nacl demo_libs = demo_box" by (simp add: demo_libs_def)
  with t [of "([], [], [], [])"] start obtain srv1 s1 c2 pong c3 where
    "doReadPacket_turn demo_box (replicate 24 6, replicate 24 7, replicate 32 8, replicate 32 8) all_ids 9
      (deliver 9 (mc_wrote c1) ?srv) = Ok (True, srv1)" "ts_store srv1 9 = Some s1"
    "doReadPacket demo_libs 10 True (more (sc_wrote s1) c1) = Ok c2" "doReadPacket demo_libs 11 True (more pong c2) = Ok c3"
    "mc_status c3 = TCP_CLIENT_CONFIRMED"
    by (simp del: split_paired_Ex) blast
  then show ?thesis by blast
qed



text \<open>C19: The buffer in front of the connection makes the pieces in which data arrives irrelevant: however the frames of a
  sequence of data packets are cut into reads, the callback for data gets exactly these packets, each with its
  connection number, in the order in which they were sent.\<close>

theorem data_in_pieces:
  assumes "box_ok (cl_nacl L)" "mc_status c = TCP_CLIENT_CONFIRMED" "length (mc_RecvNonce c) = 24" "mc_crbuf c = []"
    and "list_all (\<lambda>(k, d). 16 \<le> k \<and> length d \<le> 4077 \<and> mc_handlers c (RoutingData k d)) kds"
    and "\<forall>n. \<not> mc_handlers c (NetRecv n)"
    and "concat pieces = frames (cl_nacl L) (mc_Shrkey c) (mc_RecvNonce c) (map (\<lambda>(k, d). k # d) kds)"
    and "length (concat pieces) \<le> ring_Cap"
  shows "\<exists>c1. read_all L r ok pieces c = Ok c1 \<and> mc_crbuf c1 = [] \<and> mc_status c1 = TCP_CLIENT_CONFIRMED \<and>
    mc_calls c1 = mc_calls c @ map (\<lambda>(k, d). RoutingData k d) kds"
proof (cases "pieces = []")
  case True
  have "put_u16 w \<noteq> []" for w using length_put_u16 [of w] by force
  then have "kds = []" using True assms(7) by (cases kds) auto
  then show ?thesis using True assms(2,4) by simp
next
  case False
  let ?c = "more (concat pieces) c"
  have "read_all L r ok pieces c = doReadPacket L r ok ?c"
    using assms(2,4,6,8) by (intro read_all_pieces False) (simp_all add: in_session_def)
  moreover have "\<exists>c1. doReadPacket L r ok ?c = Ok c1 \<and> mc_crbuf c1 = [] \<and> mc_status c1 = TCP_CLIENT_CONFIRMED \<and>
      mc_calls c1 = mc_calls ?c @ map (\<lambda>(k, d). RoutingData k d) kds"
    using assms(2-5,7) by (intro data_frames [OF assms(1)]) (simp_all add: more_def)
  ultimately show ?thesis by (simp add: more_def)
qed

theorem data_in_pieces_witness:
  "\<exists>c1. read_all demo_libs 7 True (map (\<lambda>b. [b]) (frames demo_box [1] (replicate 24 2) [[17, 5], [18, 6, 7]])) (demo_confirmed []) = Ok c1 \<and>
    mc_calls c1 = [RoutingData 17 [5], RoutingData 18 [6, 7]]"
proof -
  let ?fs = "frames demo_box [1] (replicate 24 2) [[17, 5], [18, 6, 7]]"
  have "concat (map (\<lambda>b. [b]) ?fs) = ?fs" by simp
  moreover have "length ?fs = 41" using box_okD(2) [OF demo_box_ok] by simp
  ultimately show ?thesis
    using data_in_pieces [OF demo_libs_ok(1), of "demo_confirmed []" "[(17, [5]), (18, [6, 7])]" "map (\<lambda>b. [b]) ?fs" 7 True]
    by (auto simp: demo_confirmed_def demo_libs_def ring_Cap_def)
qed

text \<open>C32: When the server ends the stream while nothing waits to be written, the client never ends: the writer waits for a packet, the
  status keeps every call from queueing one, and the queue is only disposed after the writer.  Whatever happens
  afterwards, \<^verbatim>\<open>OnClosed\<close> is not called and the go-routines of the writer and of the pings stay.\<close>

theorem end_of_stream_leaks:
  assumes "mc_writing c" "mc_sendq c = []" "\<not> mc_done c" "(client_step L)\<^sup>*\<^sup>* (doReadConn_EOF c) c1"
  shows "mc_calls c1 = mc_calls c \<and> mc_writing c1 \<and> mc_pinging c1 = mc_pinging c \<and> \<not> mc_done c1"
proof -
  have "stuck (doReadConn_EOF c)" using assms(1-3) by (simp add: stuck_def doReadConn_EOF_def)
  from client_steps_stuck [OF assms(4) this] show ?thesis by (simp add: stuck_def doReadConn_EOF_def)
qed

theorem end_of_stream_leaks_witness:
  "\<exists>c1. client_step demo_libs (demo_confirmed []) (doReadConn_EOF (demo_confirmed [])) \<and>
     client_step demo_libs (doReadConn_EOF (demo_confirmed [])) c1 \<and> mc_pinging c1 \<and> mc_writing c1 \<and> mc_calls c1 = []"
proof -
  have "client_step demo_libs (demo_confirmed []) (doReadConn_EOF (demo_confirmed []))"
    by (rule client_step.eof) (simp_all add: demo_confirmed_def)
  moreover have step: "client_step demo_libs (doReadConn_EOF (demo_confirmed [])) (Close (doReadConn_EOF (demo_confirmed [])))"
    by (rule client_step.close_conn)
  ultimately show ?thesis
    using end_of_stream_leaks [of "demo_confirmed []" demo_libs, OF _ _ _ r_into_rtranclp [of "client_step demo_libs", OF step]]
    by (auto simp: demo_confirmed_def)
qed

text \<open>The reply to the handshake has to arrive in one piece: while the client is connecting, a read that gives fewer than
  its 96 bytes fails an assertion and ends the program.\<close>

theorem split_reply_panics:
  assumes "mc_status c = TCP_CLIENT_CONNECTING" "length (mc_crbuf c) + length piece < 96"
  shows "doReadConn_data L r ok piece c = Panic"
  using assms by (simp add: doReadConn_data_def doReadPacket.simps read_step_def read_handshake_def Let_def)

theorem split_reply_panics_witness:
  "doReadConn_data demo_libs 3 True (replicate 95 0) ((demo_confirmed [])\<lparr>mc_status := TCP_CLIENT_CONNECTING\<rparr>) = Panic"
  using split_reply_panics [of "(demo_confirmed [])\<lparr>mc_status := TCP_CLIENT_CONNECTING\<rparr>" "replicate 95 0"] by (simp add: demo_confirmed_def)

end
