(* ===== verification/Spec2Isabelle.thy ===== *)
theory Spec2Isabelle
  imports Circuit_Messages Multistream Base58 Noise_Conn Tcp_Client Relay_Client Tcp_Session Onion_Announce
    Detect Key_Ring_C Bitcoin_Boot Mintox_Session
begin

text \<open>
  A verification library for the Go programs of this repository.

  \<^bold>\<open>The program.\<close>  The repository holds three groups of packages.  \<^verbatim>\<open>relayhub\<close> is a client of libp2p circuit
  relays: it negotiates protocols (multistream), encrypts a connection (noise), asks a relay for a reservation or for a
  connection to a peer (protobuf messages of circuit v1 and v2) and offers sockets that run over any number of relayed
  connections, because a relay grants each of them only a number of bytes.  \<^verbatim>\<open>go-tox-tcpclient\<close> and \<^verbatim>\<open>mintox\<close> speak
  the Tox protocols: a client and a server of TCP relays, a DHT node on UDP, and the store of onion announcements.
  \<^verbatim>\<open>fedkey\<close>, \<^verbatim>\<open>fedboot\<close>, \<^verbatim>\<open>bsdata\<close>, \<^verbatim>\<open>xtox\<close> and the tunnel programs use these.

  \<^bold>\<open>The model.\<close>  Bytes are 8-bit words, Go integers are words of their width or, where they cannot wrap, numbers.  A
  structure is a record, and every method is a function on it under the name it has in Go.  A call that may fail
  returns a \<^verbatim>\<open>res\<close>: a value, an error, or a panic; in the DHT, where errors are only printed, a panic is None.
  Random numbers, the clock, the results of the network, the order in which a map is walked and the choice of a
  \<^verbatim>\<open>select\<close> are arguments, so a theorem holds for all of them.  Go-routines are step functions (one turn of a loop)
  and inductive step relations interleave them; locks are part of the state where the claim is about blocking.
  The NaCl boxes, the noise cipher, the hash functions and the buffers of \<^verbatim>\<open>gopp\<close> are not part of the repository:
  they are parameters, with what is documented of them as hypotheses (\<^verbatim>\<open>box_ok\<close>, \<^verbatim>\<open>dh_ok\<close>, \<^verbatim>\<open>gopp_ok\<close>, the locales of
  \<^verbatim>\<open>Noise_Conn\<close>), and every theorem that uses one has a witness with a concrete instance.

  \<^bold>\<open>The theories.\<close>

  \<^item> \<^verbatim>\<open>Go_Prelude\<close>: results, slices, \<^verbatim>\<open>copy\<close>, big-endian numbers, hexadecimal text, the locale of self-delimiting codes.
  \<^item> \<^verbatim>\<open>Varint\<close>, \<^verbatim>\<open>Protobuf\<close>, \<^verbatim>\<open>Circuit_Messages\<close> (\<^verbatim>\<open>relayhub/varint.go\<close>, \<^verbatim>\<open>circuitpb.go\<close>, \<^verbatim>\<open>circuitv1.go\<close>): encoders,
    decoders and frames; messages are received as they were sent, also when unknown fields are in between; the length
    that makes the decoder panic.
  \<^item> \<^verbatim>\<open>Base58\<close> (\<^verbatim>\<open>relayhub/base58.go\<close>, \<^verbatim>\<open>fedkey/keyring.go\<close>): both encoders and the decoder are inverse to each other.
  \<^item> \<^verbatim>\<open>Multistream\<close> (\<^verbatim>\<open>multistream.go\<close>): the two parties as programs over a channel; they always finish and agree.
  \<^item> \<^verbatim>\<open>Byte_Source\<close>, \<^verbatim>\<open>Noise_Conn\<close> (\<^verbatim>\<open>noise.go\<close>): frames of at most 65535 bytes; texts of any length arrive.
  \<^item> \<^verbatim>\<open>Relay_Socket\<close> (\<^verbatim>\<open>socket.go\<close>): rotation within the limit of the relay; \<^verbatim>\<open>Relay_Streams\<close>, \<^verbatim>\<open>Relay_Client\<close>
    (\<^verbatim>\<open>relay.go\<close>, \<^verbatim>\<open>tls.go\<close>): requests, incoming streams, the registry of sockets, reservations, shutdown with its
    locks; end to end, what one socket writes is what the other reads.
  \<^item> \<^verbatim>\<open>Nonce\<close>, \<^verbatim>\<open>Nacl_Box\<close>, \<^verbatim>\<open>Tcp_Packet\<close>, \<^verbatim>\<open>Tcp_Handshake\<close>, \<^verbatim>\<open>Tcp_Client\<close> (\<^verbatim>\<open>go-tox-tcpclient\<close>): packets, handshake and
    the client with its three loops; its invariant, what it puts on the wire, its table of peers.
  \<^item> \<^verbatim>\<open>Mintox_Crypto\<close>, \<^verbatim>\<open>Tcp_Server\<close> (\<^verbatim>\<open>mintox/crypto_core0.go\<close>, \<^verbatim>\<open>crypto_core2.go\<close>, \<^verbatim>\<open>tcp_server.go\<close>): the relay server,
    its routing tables in every reachable state; \<^verbatim>\<open>Tcp_Session\<close> joins client and server: they agree on the session and
    data of one client reaches another.
  \<^item> \<^verbatim>\<open>Bimap\<close>, \<^verbatim>\<open>Blocked_Queue\<close> (\<^verbatim>\<open>mintox/bimap.go\<close>, \<^verbatim>\<open>blocked_priority_queue.go\<close>): the two-way map and the bounded queue, the
    latter with the steps of concurrent callers; \<^verbatim>\<open>Mintox_Client\<close> (\<^verbatim>\<open>tcp_client.go\<close>): the other client of TCP relays;
    \<^verbatim>\<open>Mintox_Session\<close> joins it with the server: the connection gets confirmed on both sides, the stream may arrive in
    any pieces, nonces are counted in every run, and what happens at the end of the stream.
  \<^item> \<^verbatim>\<open>Priority_List\<close> (\<^verbatim>\<open>mintox/priority_list.go\<close>): the bounded list with the contract of its items as locales;
    \<^verbatim>\<open>Dht\<close>, \<^verbatim>\<open>Dht_Tables\<close>, \<^verbatim>\<open>Dht_Service\<close> (\<^verbatim>\<open>dht.go\<close>, \<^verbatim>\<open>dht_private.go\<close>, \<^verbatim>\<open>ping.go\<close>): the DHT node with a store of
    objects, its invariant, the list of the closest keys, lookups between two nodes; \<^verbatim>\<open>Onion_Announce\<close>
    (\<^verbatim>\<open>onion_announce.go\<close>): announcing and searching.
  \<^item> \<^verbatim>\<open>Detect\<close> (\<^verbatim>\<open>relayhub/detect.go\<close>): the probe of a relay; what it reports, that its loops end, what it prints.
  \<^item> \<^verbatim>\<open>Key_Ring\<close> (\<^verbatim>\<open>fedkey/keyring.go\<close>): the seed file and the keys derived from it; RSA keys work, BLS keys are in range.
    \<^verbatim>\<open>Key_Ring_C\<close>: the text codecs of its C version, \<^verbatim>\<open>keyring.c\<close>.
  \<^item> \<^verbatim>\<open>Bitcoin_Wire\<close>, \<^verbatim>\<open>Bitcoin_Boot\<close> (\<^verbatim>\<open>fedboot/bitcoin_bs.go\<close>): messages of the Bitcoin protocol, the two handshakes as
    programs over a connection, requests for addresses, the bootstrap; the handshake always ends with both keys
    exchanged, and the order in which the go-routines finish does not matter.

  \<^bold>\<open>Bounds and loops.\<close>  Loops over data are total functions, by structure or with a measure.  Loops that end with the
  connection are modelled by one turn and by the function that runs turns over the bytes that arrive; where these are
  functions on a finite input they are total; loops for which Go has no bound are \<^verbatim>\<open>partial_function\<close>s into options,
  and that they return is proved (\<^verbatim>\<open>probe_loops_end\<close>, \<^verbatim>\<open>prime_search\<close>, \<^verbatim>\<open>bls_key_in_range\<close>).  No fuel is used.  The sizes that the code fixes (queues of 64 and
  128 packets, 240 connection numbers, 1024 close clients, frames of 2048 and 65535 bytes) are kept as they are.

  \<^bold>\<open>Not modelled.\<close>  Sockets, listeners, name resolution and timers themselves; the cgo bindings (\<^verbatim>\<open>crypto_core1.go\<close>,
  \<^verbatim>\<open>intern\<close>, \<^verbatim>\<open>xtox\<close>), which call C libraries; programs under \<^verbatim>\<open>cmd\<close>; tables of addresses; log output.
\<close>

end
